(* ===== verification/Prelude.thy ===== *)
theory Prelude
  imports Main "HOL-Library.Word" "HOL-Library.Monad_Syntax"
begin

text \<open>
  What every theory of the development shares: the C integer types, the conversions that
  the C code makes between them, the event log of the outside world, and the lemmas on
  them that carry the component proofs.

  Unsigned C integers are words of their width, so that their arithmetic wraps. Signed C
  integers (\<open>int\<close>, \<open>ssize_t\<close>, \<open>int64_t\<close>) are values of type \<open>int\<close>; wherever the code
  computes with them or converts to them the two's complement wrap-around is written out
  by \<open>wrap_s32\<close> or \<open>wrap_s64\<close>. The data model is LP64 (\<open>size_t\<close> has 64 bits).
\<close>

type_synonym u8 = "8 word"
type_synonym u16 = "16 word"
type_synonym u32 = "32 word"
type_synonym u64 = "64 word"
type_synonym size_t = "64 word"
type_synonym octets = "8 word list"
type_synonym addr = nat

text \<open>Facts that frame the operations of the model.\<close>

named_theorems frame_simps \<open>fields that an operation leaves as they were\<close>

section \<open>Signed conversions\<close>

definition wrap_s32 :: "int \<Rightarrow> int" where
  "wrap_s32 x = (x + 2147483648) mod 4294967296 - 2147483648"

definition wrap_s64 :: "int \<Rightarrow> int" where
  "wrap_s64 x = (x + 9223372036854775808) mod 18446744073709551616 - 9223372036854775808"

lemma wrap_s32_id [simp]: "-2147483648 \<le> x \<Longrightarrow> x < 2147483648 \<Longrightarrow> wrap_s32 x = x"
  by (simp add: wrap_s32_def)

lemma wrap_s64_id [simp]:
  "-9223372036854775808 \<le> x \<Longrightarrow> x < 9223372036854775808 \<Longrightarrow> wrap_s64 x = x"
  by (simp add: wrap_s64_def)

lemma wrap_s32_range: "-2147483648 \<le> wrap_s32 x \<and> wrap_s32 x < 2147483648"
proof -
  have "0 \<le> (x + 2147483648) mod 4294967296" "(x + 2147483648) mod 4294967296 < 4294967296"
    by simp_all
  then show ?thesis unfolding wrap_s32_def by linarith
qed

lemma wrap_s32_idem [simp]: "wrap_s32 (wrap_s32 x) = wrap_s32 x"
  using wrap_s32_range [of x] by simp

text \<open>\<open>(size_t) n\<close> of a signed value, and \<open>(int) v\<close> of a \<open>size_t\<close>.\<close>

definition size_of_int :: "int \<Rightarrow> size_t" where
  "size_of_int n = word_of_int n"

definition int_of_size :: "size_t \<Rightarrow> int" where
  "int_of_size v = wrap_s32 (uint v)"

lemma unat_size_of_int: "0 \<le> n \<Longrightarrow> n < 2147483648 \<Longrightarrow> unat (size_of_int n) = nat n"
  by (simp add: size_of_int_def unat_eq_nat_uint uint_word_of_int)

lemma int_of_size_of_int [simp]:
  assumes "-2147483648 \<le> n" "n < 2147483648"
  shows "int_of_size (size_of_int n) = n"
proof -
  have dvd: "4294967296 dvd (18446744073709551616 :: int)" by simp
  have "uint (size_of_int n) mod 4294967296 = n mod 4294967296"
    using mod_mod_cancel [OF dvd, of n] by (simp add: size_of_int_def uint_word_of_int)
  then have "(uint (size_of_int n) + 2147483648) mod 4294967296 = (n + 2147483648) mod 4294967296"
    by (rule mod_add_cong) simp
  then show ?thesis using assms by (simp add: int_of_size_def wrap_s32_def)
qed

section \<open>The outside world\<close>

text \<open>
  \<open>outside\<close> is whatever the code cannot see (sockets, clock, allocator books); only the
  operations of the libraries change it. \<open>heap\<close> holds the buffers that the code itself
  allocates, writes and frees. \<open>trace\<close> records, newest first, the datagrams handed to the
  transport and the assertions that did not hold.
\<close>

datatype event = Sent octets int | AssertFailed string

record 'w world =
  outside :: 'w
  heap :: "addr \<rightharpoonup> octets"
  trace :: "event list"

text \<open>\<open>CLOG_ASSERT\<close>: a failed assertion is recorded and, as in a release build, passed.\<close>

definition clog_assert :: "bool \<Rightarrow> string \<Rightarrow> 'w world \<Rightarrow> 'w world" where
  "clog_assert b msg w = (if b then w else w\<lparr>trace := AssertFailed msg # trace w\<rparr>)"

fun is_sent :: "event \<Rightarrow> bool" where
  "is_sent (Sent _ _) = True"
| "is_sent (AssertFailed _) = False"

definition sent :: "'w world \<Rightarrow> event list" where
  "sent w = filter is_sent (trace w)"

lemma sent_simps [simp]:
  "sent (w\<lparr>outside := x\<rparr>) = sent w"
  "sent (w\<lparr>heap := h\<rparr>) = sent w"
  "sent (w\<lparr>trace := Sent d r # t\<rparr>) = Sent d r # filter is_sent t"
  "sent (w\<lparr>trace := AssertFailed m # t\<rparr>) = filter is_sent t"
  by (simp_all add: sent_def)

lemma clog_assert_simps [simp]:
  "clog_assert True m w = w"
  "outside (clog_assert b m w) = outside w"
  "heap (clog_assert b m w) = heap w"
  "sent (clog_assert b m w) = sent w"
  by (simp_all add: clog_assert_def sent_def)

section \<open>Option results\<close>

text \<open>
  An operation that may have undefined behaviour or may not return gives \<open>None\<close> for it.
  These rules take a successful composition apart.
\<close>

lemma bind_SomeE [elim!]:
  assumes "Option.bind m f = Some b"
  obtains a where "m = Some a" "f a = Some b"
  using assms by (cases m) auto

lemma bind_Some_iff: "Option.bind m f = Some b \<longleftrightarrow> (\<exists>a. m = Some a \<and> f a = Some b)"
  by (cases m) auto

end
