(* ===== verification/CFloat.thy ===== *)
theory CFloat
  imports Prelude Complex_Main
begin

text \<open>
  The C type \<open>float\<close> as far as the connection quality uses it: IEEE 754 binary32 values
  between 0 and \<open>2 ^ 24\<close>, as exact rationals, with every operation rounded to nearest,
  ties to even (\<open>FLT_EVAL_METHOD\<close> 0). \<open>round_f32\<close> doubles its argument until the
  significand has its 24 bits, at most 149 times, so that subnormal results come out too.
\<close>

type_synonym f32 = rat

definition round_half_even :: "rat \<Rightarrow> int" where
  "round_half_even x =
     (let f = \<lfloor>x\<rfloor>; d = x - of_int f
      in if d < 1 / 2 then f
         else if d > 1 / 2 then f + 1
         else if even f then f else f + 1)"

fun round_bits :: "nat \<Rightarrow> rat \<Rightarrow> rat" where
  "round_bits 0 x = of_int (round_half_even x)"
| "round_bits (Suc n) x =
     (if x \<ge> 8388608 then of_int (round_half_even x) else round_bits n (2 * x) / 2)"

definition round_f32 :: "rat \<Rightarrow> f32" where
  "round_f32 x = round_bits 149 x"

definition f32_sub :: "f32 \<Rightarrow> f32 \<Rightarrow> f32" where
  "f32_sub a b = round_f32 (a - b)"

definition f32_mul :: "f32 \<Rightarrow> f32 \<Rightarrow> f32" where
  "f32_mul a b = round_f32 (a * b)"

definition f32_div :: "f32 \<Rightarrow> f32 \<Rightarrow> f32" where
  "f32_div a b = round_f32 (a / b)"

text \<open>\<open>(float) v\<close> of a \<open>size_t\<close> below \<open>2 ^ 24\<close>.\<close>

definition f32_of_size :: "size_t \<Rightarrow> f32" where
  "f32_of_size v = round_f32 (of_nat (unat v))"

section \<open>Rounding is monotone\<close>

lemma round_half_even_bounds: "\<lfloor>x\<rfloor> \<le> round_half_even x \<and> round_half_even x \<le> \<lfloor>x\<rfloor> + 1"
  by (simp add: round_half_even_def Let_def)

lemma round_half_even_of_int [simp]: "round_half_even (of_int k) = k"
  by (simp add: round_half_even_def)

lemma round_half_even_mono:
  assumes "x \<le> y"
  shows "round_half_even x \<le> round_half_even y"
proof (cases "\<lfloor>x\<rfloor> = \<lfloor>y\<rfloor>")
  case True
  then show ?thesis using assms by (auto simp: round_half_even_def Let_def)
next
  case False
  with assms have "\<lfloor>x\<rfloor> + 1 \<le> \<lfloor>y\<rfloor>" using floor_mono [OF assms] by linarith
  then show ?thesis using round_half_even_bounds [of x] round_half_even_bounds [of y] by linarith
qed

lemma round_half_even_le_of_int: "x \<le> of_int k \<Longrightarrow> round_half_even x \<le> k"
  using round_half_even_mono [of x "of_int k"] by simp

lemma round_half_even_ge_of_int: "of_int k \<le> x \<Longrightarrow> k \<le> round_half_even x"
  using round_half_even_mono [of "of_int k" x] by simp

lemma round_bits_le_pow: "x \<le> 8388608 \<Longrightarrow> round_bits n x \<le> 8388608"
proof (induction n arbitrary: x)
  case 0
  then show ?case using round_half_even_le_of_int [of x 8388608] by simp
next
  case (Suc n)
  show ?case
  proof (cases "x \<ge> 8388608")
    case True
    with Suc.prems have "x = of_int 8388608" by simp
    then show ?thesis by (simp only: round_bits.simps round_half_even_of_int) simp
  next
    case False
    show ?thesis
    proof (cases "2 * x \<le> 8388608")
      case True
      with False Suc.IH [OF True] show ?thesis by simp
    next
      case big: False
      have "round_half_even (2 * x) \<le> 16777216"
        using False round_half_even_le_of_int [of "2 * x" 16777216] by simp
      then have "of_int (round_half_even (2 * x)) \<le> (16777216 :: rat)" by linarith
      with False big show ?thesis by (cases n) auto
    qed
  qed
qed

lemma round_bits_mono: "x \<le> y \<Longrightarrow> round_bits n x \<le> round_bits n y"
proof (induction n arbitrary: x y)
  case 0
  then show ?case by (simp add: round_half_even_mono)
next
  case (Suc n)
  show ?case
  proof (cases "x \<ge> 8388608 \<or> y < 8388608")
    case True
    with Suc show ?thesis by (auto simp: round_half_even_mono)
  next
    case False
    then have x: "x < 8388608" and y: "8388608 \<le> y" by auto
    have "round_bits (Suc n) x \<le> 8388608"
      using x by (intro round_bits_le_pow) simp
    moreover have "8388608 \<le> round_half_even y"
      using y round_half_even_ge_of_int [of 8388608 y] by simp
    ultimately show ?thesis using y by simp
  qed
qed

lemma round_f32_mono: "x \<le> y \<Longrightarrow> round_f32 x \<le> round_f32 y"
  by (simp add: round_f32_def round_bits_mono)

lemma round_f32_consts [simp]: "round_f32 0 = 0" "round_f32 1 = 1" "round_f32 5 = 5"
  by (simp_all add: round_f32_def round_half_even_def eval_nat_numeral)

lemma round_f32_unit: "0 \<le> x \<Longrightarrow> x \<le> 1 \<Longrightarrow> 0 \<le> round_f32 x \<and> round_f32 x \<le> 1"
  using round_f32_mono [of 0 x] round_f32_mono [of x 1] by simp

lemma f32_mul_unit:
  "0 \<le> a \<Longrightarrow> a \<le> 1 \<Longrightarrow> 0 \<le> b \<Longrightarrow> b \<le> 1 \<Longrightarrow> 0 \<le> f32_mul a b \<and> f32_mul a b \<le> 1"
  unfolding f32_mul_def by (rule round_f32_unit) (auto simp: mult_le_one)

lemma f32_mul_le_left:
  "0 \<le> a \<Longrightarrow> 0 \<le> b \<Longrightarrow> b \<le> 1 \<Longrightarrow> f32_mul a b \<le> round_f32 a"
  unfolding f32_mul_def by (rule round_f32_mono) (simp add: mult_left_le)

lemma f32_mul_1_1 [simp]: "f32_mul 1 1 = 1"
  by (simp add: f32_mul_def)

lemma f32_mul_0 [simp]: "f32_mul 0 b = 0" "f32_mul a 0 = 0"
  by (simp_all add: f32_mul_def)

end
