(* ===== verification/NimbleLib.thy ===== *)
theory NimbleLib
  imports Prelude
begin

text \<open>
  The libraries that the client is built on (nimble-steps, nimble-steps-serialize,
  nimble-serialize, ordered-datagram, blob-stream, flood, stats, lagometer,
  datagram-transport, monotonic-time, imprint, clog). Their sources are not part of the
  repository, so their operations are parameters: a record \<open>L\<close> of functions, passed to
  every definition that calls them.

  A library object is a record of the fields that the client's own code reads or writes,
  plus a \<open>Rest\<close> field of type \<open>'x\<close> for everything the client cannot see. The one type
  variable \<open>'x\<close> stands for the private representations of all library objects (it may be
  a sum type), \<open>'w\<close> for the part of the world only libraries can touch. A C function that
  gets a pointer takes the object and returns the new one. Where a read function may leave
  its out-parameter unwritten, the value is whatever the parameter function gives.
\<close>

section \<open>Library objects\<close>

record 'x StatsInt =
  avg :: int
  avgIsSet :: bool
  statsIntRest :: 'x

record 'x NbsSteps =
  expectedReadId :: u32
  expectedWriteId :: u32
  stepsCount :: size_t
  nbsStepsRest :: 'x

record 'x FldInStream =
  inPos :: size_t
  inSize :: size_t
  readDebugInfo :: bool
  inRest :: 'x

record 'x FldOutStream =
  outPos :: size_t
  outOctets :: octets
  writeDebugInfo :: bool
  outRest :: 'x

record 'x BlobStreamIn =
  blob :: octets
  octetCount :: size_t
  blobStreamInRest :: 'x

datatype LagometerPacketStatus = LagometerPacketStatusDropped | LagometerPacketStatusReceived

record LagometerPacket =
  packetStatus :: LagometerPacketStatus
  packetLatencyMs :: size_t
  packetOctetCount :: size_t

text \<open>Messages of nimble-serialize, with the fields that the client uses.\<close>

record 'x NimbleSerializeConnectRequest =
  requestApplicationVersion :: 'x
  requestUseDebugStreams :: bool
  clientRequestId :: nat

record NimbleSerializeConnectResponse =
  responseUseDebugStreams :: bool
  connectionId :: nat

record 'x NimbleSerializeJoinGameRequest =
  nonce :: u64
  joinGameRequestRest :: 'x

record NimbleSerializeJoinGameResponseParticipant =
  localIndex :: nat
  responseParticipantId :: nat

record 'x NimbleSerializeJoinGameResponse =
  responsePartyAndSessionSecret :: 'x
  participants :: "NimbleSerializeJoinGameResponseParticipant list"
  participantCount :: size_t

section \<open>Library operations\<close>

record 'x stats_lib =
  statsIntInit :: "'x StatsInt \<Rightarrow> nat \<Rightarrow> 'x StatsInt"
  statsIntAdd :: "'x StatsInt \<Rightarrow> int \<Rightarrow> 'x StatsInt"
  statsIntPerSecondInit :: "'x \<Rightarrow> int \<Rightarrow> nat \<Rightarrow> 'x"
  statsIntPerSecondAdd :: "'x \<Rightarrow> int \<Rightarrow> 'x"
  statsIntPerSecondUpdate :: "'x \<Rightarrow> int \<Rightarrow> 'x"
  statsHoldPositiveInit :: "'x \<Rightarrow> nat \<Rightarrow> 'x"
  statsHoldPositiveAdd :: "'x \<Rightarrow> bool \<Rightarrow> 'x"
  lagometerInit :: "'x \<Rightarrow> 'x"
  lagometerAddPacket :: "'x \<Rightarrow> LagometerPacket \<Rightarrow> 'x"
  noticeEnabled :: bool \<comment> \<open>whether \<open>CLOG_C_NOTICE\<close> evaluates its arguments\<close>

record 'x stream_lib = "'x stats_lib" +
  fldInStreamInit :: "octets \<Rightarrow> size_t \<Rightarrow> 'x FldInStream"
  fldInStreamCheckMarker :: "'x FldInStream \<Rightarrow> u8 \<Rightarrow> 'x FldInStream"
  fldInStreamReadUInt8 :: "'x FldInStream \<Rightarrow> int \<times> u8 \<times> 'x FldInStream"
  fldInStreamReadInt8 :: "'x FldInStream \<Rightarrow> int \<times> u8 \<times> 'x FldInStream"
  fldInStreamReadUInt16 :: "'x FldInStream \<Rightarrow> int \<times> u16 \<times> 'x FldInStream"
  fldInStreamReadUInt32 :: "'x FldInStream \<Rightarrow> int \<times> u32 \<times> 'x FldInStream"
  fldOutStreamInit :: "size_t \<Rightarrow> 'x FldOutStream"
  fldOutStreamWriteUInt8 :: "'x FldOutStream \<Rightarrow> u8 \<Rightarrow> 'x FldOutStream"
  fldOutStreamWriteUInt16 :: "'x FldOutStream \<Rightarrow> u16 \<Rightarrow> int \<times> 'x FldOutStream"
  orderedDatagramInLogicInit :: "'x \<Rightarrow> 'x"
  orderedDatagramInLogicReceive :: "'x \<Rightarrow> 'x FldInStream \<Rightarrow> int \<times> 'x \<times> 'x FldInStream"
  orderedDatagramOutLogicInit :: "'x \<Rightarrow> 'x"
  orderedDatagramOutLogicPrepare :: "'x \<Rightarrow> 'x FldOutStream \<Rightarrow> 'x \<times> 'x FldOutStream"
  orderedDatagramOutLogicCommit :: "'x \<Rightarrow> 'x"
  monotonicTimeMsToLowerBits :: "int \<Rightarrow> u16"
  monotonicTimeMsFromLowerBits :: "int \<Rightarrow> u16 \<Rightarrow> int"
  DATAGRAM_TRANSPORT_MAX_SIZE :: size_t

record 'x steps_lib = "'x stream_lib" +
  NIMBLE_STEP_MAX :: u32
  NimbleSerializeMaxRedundancyCount :: size_t
  nbsStepsReset :: "'x NbsSteps \<Rightarrow> 'x NbsSteps"
  nbsStepsReInit :: "'x NbsSteps \<Rightarrow> u32 \<Rightarrow> 'x NbsSteps"
  nbsStepsDiscardUpTo :: "'x NbsSteps \<Rightarrow> u32 \<Rightarrow> 'x NbsSteps"
  nbsStepsRead :: "'x NbsSteps \<Rightarrow> size_t \<Rightarrow> int \<times> u32 \<times> octets \<times> 'x NbsSteps"
  nbsPendingStepsReset :: "'x \<Rightarrow> u32 \<Rightarrow> 'x"
  nbsPendingStepsReceiveMask :: "'x \<Rightarrow> u64 \<times> u32"
  nbsPendingStepsSerializeOutHeader :: "'x FldOutStream \<Rightarrow> u32 \<Rightarrow> u64 \<Rightarrow> int \<times> 'x FldOutStream"
  nbsPendingStepsInSerialize :: "'x FldInStream \<Rightarrow> 'x \<Rightarrow> int \<times> 'x FldInStream \<times> 'x"
  nbsPendingStepsCopy :: "'x NbsSteps \<Rightarrow> 'x \<Rightarrow> int \<times> 'x NbsSteps \<times> 'x"
  nbsStepsOutSerialize :: "'x FldOutStream \<Rightarrow> 'x NbsSteps \<Rightarrow> int \<times> 'x FldOutStream"
  nbsStepsOutSerializeCalculateCombinedSize :: "size_t \<Rightarrow> size_t \<Rightarrow> size_t"

record 'x serialize_lib = "'x steps_lib" +
  NimbleSerializeCmdGameStep :: u8
  NimbleSerializeCmdDownloadGameStateRequest :: u8
  NimbleSerializeCmdClientOutBlobStream :: u8
  NimbleSerializeCmdConnectResponse :: u8
  NimbleSerializeCmdServerOutBlobStream :: u8
  NimbleSerializeCmdGameStepResponse :: u8
  NimbleSerializeCmdJoinGameResponse :: u8
  NimbleSerializeCmdGameStateResponse :: u8
  NimbleSerializeCmdJoinGameOutOfParticipantSlotsResponse :: u8
  nimbleSerializeWriteCommand :: "'x FldOutStream \<Rightarrow> u8 \<Rightarrow> 'x FldOutStream"
  nimbleSerializeClientOutConnectRequest ::
    "'x FldOutStream \<Rightarrow> 'x NimbleSerializeConnectRequest \<Rightarrow> 'x FldOutStream"
  nimbleSerializeClientOutJoinGameRequest ::
    "'x FldOutStream \<Rightarrow> 'x NimbleSerializeJoinGameRequest \<Rightarrow> 'x FldOutStream"
  nimbleSerializeClientInConnectResponse ::
    "'x FldInStream \<Rightarrow> int \<times> NimbleSerializeConnectResponse \<times> 'x FldInStream"
  nimbleSerializeClientInJoinGameResponse ::
    "'x FldInStream \<Rightarrow> int \<times> 'x NimbleSerializeJoinGameResponse \<times> 'x FldInStream"
  nimbleSerializeInBlobStreamChannelId :: "'x FldInStream \<Rightarrow> int \<times> nat \<times> 'x FldInStream"
  nimbleSerializeInStateId :: "'x FldInStream \<Rightarrow> int \<times> u32 \<times> 'x FldInStream"
  nimbleSerializeInNonce :: "'x FldInStream \<Rightarrow> int \<times> u64 \<times> 'x FldInStream"
  blobStreamLogicInReceive ::
    \<comment> \<open>the logic leads to its stream through a pointer, which is set when the two are set up; here
       the client's stream is handed on with it. Nothing under \<open>src/\<close> sets them up: which
       logics and streams were, and belong together, is a predicate that \<open>blob_streams_ok\<close> takes\<close>
    "'x \<Rightarrow> 'x BlobStreamIn \<Rightarrow> 'x FldInStream \<Rightarrow> int \<times> 'x \<times> 'x BlobStreamIn \<times> 'x FldInStream"
  blobStreamInIsComplete :: "'x BlobStreamIn \<Rightarrow> bool"
  blobStreamLogicInSend :: "'x \<Rightarrow> 'x FldOutStream \<Rightarrow> int \<times> 'x \<times> 'x FldOutStream"

text \<open>
  Operations that touch the world: the clock, the allocators, the transport. Allocators and
  transports are handles of type \<open>'x\<close> (for a transport: its \<open>self\<close> and function pointers).
\<close>

record ('x, 'w) nimble_lib = "'x serialize_lib" +
  monotonicTimeMsNow :: "'w \<Rightarrow> int \<times> 'w"
  imprintAlloc :: "'x \<Rightarrow> size_t \<Rightarrow> 'w \<Rightarrow> addr \<times> 'w"
  imprintFree :: "'x \<Rightarrow> addr \<Rightarrow> 'w \<Rightarrow> 'w"
  nbsStepsInit :: "'x NbsSteps \<Rightarrow> 'x \<Rightarrow> size_t \<Rightarrow> 'w \<Rightarrow> 'x NbsSteps \<times> 'w"
  nbsPendingStepsInit :: "'x \<Rightarrow> u32 \<Rightarrow> 'x \<Rightarrow> 'w \<Rightarrow> 'x \<times> 'w"
  datagramTransportReceive :: "'x \<Rightarrow> size_t \<Rightarrow> 'w \<Rightarrow> int \<times> octets \<times> 'w"
  transportSend :: "'x \<Rightarrow> octets \<Rightarrow> size_t \<Rightarrow> 'w \<Rightarrow> int \<times> 'w"

section \<open>Calls that touch the world\<close>

text \<open>
  The same calls on the model's \<open>world\<close>: they change its \<open>outside\<close> only, but for \<open>send\<close>,
  which also leaves an event in the trace.
\<close>

definition time_now :: "('x, 'w) nimble_lib \<Rightarrow> 'w world \<Rightarrow> int \<times> 'w world" where
  "time_now L w = (let (now, o') = monotonicTimeMsNow L (outside w) in (now, w\<lparr>outside := o'\<rparr>))"

definition steps_init ::
    "('x, 'w) nimble_lib \<Rightarrow> 'x NbsSteps \<Rightarrow> 'x \<Rightarrow> size_t \<Rightarrow> 'w world \<Rightarrow> 'x NbsSteps \<times> 'w world" where
  "steps_init L steps mem n w =
     (let (steps', o') = nbsStepsInit L steps mem n (outside w) in (steps', w\<lparr>outside := o'\<rparr>))"

definition pending_steps_init ::
    "('x, 'w) nimble_lib \<Rightarrow> 'x \<Rightarrow> u32 \<Rightarrow> 'x \<Rightarrow> 'w world \<Rightarrow> 'x \<times> 'w world" where
  "pending_steps_init L steps stepId mem w =
     (let (steps', o') = nbsPendingStepsInit L steps stepId mem (outside w)
      in (steps', w\<lparr>outside := o'\<rparr>))"

definition transport_receive ::
    "('x, 'w) nimble_lib \<Rightarrow> 'x \<Rightarrow> size_t \<Rightarrow> 'w world \<Rightarrow> int \<times> octets \<times> 'w world" where
  "transport_receive L tr n w =
     (let (r, buf, o') = datagramTransportReceive L tr n (outside w)
      in (r, buf, w\<lparr>outside := o'\<rparr>))"

definition transport_send ::
    "('x, 'w) nimble_lib \<Rightarrow> 'x \<Rightarrow> octets \<Rightarrow> size_t \<Rightarrow> 'w world \<Rightarrow> int \<times> 'w world" where
  "transport_send L tr buf n w =
     (let (r, o') = transportSend L tr buf n (outside w)
      in (r, w\<lparr>outside := o', trace := Sent (take (unat n) buf) r # trace w\<rparr>))"

text \<open>What these calls leave alone.\<close>

lemma time_now_frame [frame_simps]:
  "time_now L w = (now, w') \<Longrightarrow> heap w' = heap w"
  "time_now L w = (now, w') \<Longrightarrow> trace w' = trace w"
  by (auto simp: time_now_def split: prod.splits)

lemma steps_init_frame [frame_simps]:
  "steps_init L s m n w = (s', w') \<Longrightarrow> heap w' = heap w"
  "steps_init L s m n w = (s', w') \<Longrightarrow> trace w' = trace w"
  by (auto simp: steps_init_def split: prod.splits)

lemma pending_steps_init_frame [frame_simps]:
  "pending_steps_init L p i m w = (p', w') \<Longrightarrow> heap w' = heap w"
  "pending_steps_init L p i m w = (p', w') \<Longrightarrow> trace w' = trace w"
  by (auto simp: pending_steps_init_def split: prod.splits)

lemma transport_receive_frame [frame_simps]:
  "transport_receive L t n w = (r, b, w') \<Longrightarrow> heap w' = heap w"
  "transport_receive L t n w = (r, b, w') \<Longrightarrow> trace w' = trace w"
  by (auto simp: transport_receive_def split: prod.splits)

lemma transport_send_frame [frame_simps]:
  "transport_send L t b n w = (r, w') \<Longrightarrow> heap w' = heap w"
  "transport_send L t b n w = (r, w') \<Longrightarrow> trace w' = Sent (take (unat n) b) r # trace w"
  by (auto simp: transport_send_def split: prod.splits)

end
