(* ===== verification/SampleLib.thy ===== *)
theory SampleLib
  imports NimbleLib
begin

text \<open>
  One concrete library, \<open>sampleLib\<close>, on which the hypotheses about the parameters can be
  seen to hold together: every private representation is a list of octets; datagrams are a
  sequence octet, a two octet time and a payload; the world holds the datagrams that wait
  to be received, the clock, and the next free address. It is used by witnesses only; no
  property rests on it.
\<close>

type_synonym sample_world = "octets list \<times> int \<times> nat"

definition sample_read8 :: "octets FldInStream \<Rightarrow> int \<times> u8 \<times> octets FldInStream" where
  "sample_read8 s =
     (case inRest s of
        [] \<Rightarrow> (-1, 0, s)
      | b # bs \<Rightarrow> (0, b, s\<lparr>inPos := inPos s + 1, inRest := bs\<rparr>))"

definition sample_read16 :: "octets FldInStream \<Rightarrow> int \<times> u16 \<times> octets FldInStream" where
  "sample_read16 s =
     (case sample_read8 s of (e1, a, s1) \<Rightarrow>
      case sample_read8 s1 of (e2, b, s2) \<Rightarrow>
        (min e1 e2, word_of_nat (256 * unat a + unat b), s2))"

definition sample_read32 :: "octets FldInStream \<Rightarrow> int \<times> u32 \<times> octets FldInStream" where
  "sample_read32 s =
     (case sample_read16 s of (e1, a, s1) \<Rightarrow>
      case sample_read16 s1 of (e2, b, s2) \<Rightarrow>
        (min e1 e2, word_of_nat (65536 * unat a + unat b), s2))"

definition sample_write :: "octets FldOutStream \<Rightarrow> octets \<Rightarrow> octets FldOutStream" where
  "sample_write s bs =
     (if length (outOctets s) + length bs \<le> 1200
      then s\<lparr>outPos := outPos s + word_of_nat (length bs), outOctets := outOctets s @ bs\<rparr> else s)"

text \<open>The sequence number of an ordered datagram is one octet; the delta is signed.\<close>

definition sample_ordered_receive ::
    "octets \<Rightarrow> octets FldInStream \<Rightarrow> int \<times> octets \<times> octets FldInStream" where
  "sample_ordered_receive prev s =
     (case sample_read8 s of (e, b, s1) \<Rightarrow>
        let d = (int (unat b) - int (unat (case prev of [] \<Rightarrow> 0 | x # _ \<Rightarrow> x)) + 128) mod 256 - 128
        in if e < 0 then (-1, prev, s1)
           else if d \<le> 0 then (d, prev, s1)
           else (d, [b], s1))"

definition sample_receive :: "sample_world \<Rightarrow> int \<times> octets \<times> sample_world" where
  "sample_receive w =
     (case w of (ds, t, p) \<Rightarrow>
        case ds of [] \<Rightarrow> (0, [], w) | d # ds \<Rightarrow> (int (length d), d, (ds, t, p)))"

text \<open>A join answer: participant count, then pairs of local index and participant id.\<close>

fun sample_pairs :: "octets \<Rightarrow> NimbleSerializeJoinGameResponseParticipant list" where
  "sample_pairs (a # b # bs) =
     \<lparr>localIndex = unat a, responseParticipantId = unat b\<rparr> # sample_pairs bs"
| "sample_pairs _ = []"

definition sample_join_response ::
    "octets FldInStream \<Rightarrow> int \<times> octets NimbleSerializeJoinGameResponse \<times> octets FldInStream" where
  "sample_join_response s =
     (let ps = take 8 (sample_pairs (inRest s))
      in (0, \<lparr>responsePartyAndSessionSecret = [], participants = ps,
               participantCount = word_of_nat (length ps)\<rparr>,
          s\<lparr>inPos := inSize s, inRest := []\<rparr>))"

text \<open>A blob chunk is the whole blob; the first octet of the representation marks completion.\<close>

definition sample_blob_receive ::
    "octets \<Rightarrow> octets BlobStreamIn \<Rightarrow> octets FldInStream
     \<Rightarrow> int \<times> octets \<times> octets BlobStreamIn \<times> octets FldInStream" where
  "sample_blob_receive logic b s =
     (0, logic,
      b\<lparr>blob := inRest s, octetCount := word_of_nat (length (inRest s)), blobStreamInRest := [1]\<rparr>,
      s\<lparr>inPos := inSize s, inRest := []\<rparr>)"

definition sampleLib :: "(octets, sample_world) nimble_lib" where
  "sampleLib = \<lparr>
    statsIntInit = (\<lambda>s n. \<lparr>avg = 0, avgIsSet = False, statsIntRest = []\<rparr>),
    statsIntAdd = (\<lambda>s v. s\<lparr>avg := v, avgIsSet := True\<rparr>),
    statsIntPerSecondInit = (\<lambda>s now n. []),
    statsIntPerSecondAdd = (\<lambda>s v. s),
    statsIntPerSecondUpdate = (\<lambda>s now. s),
    statsHoldPositiveInit = (\<lambda>s n. []),
    statsHoldPositiveAdd = (\<lambda>s b. s),
    lagometerInit = (\<lambda>s. []),
    lagometerAddPacket = (\<lambda>s p. 1 # s),
    noticeEnabled = True,
    fldInStreamInit = (\<lambda>d n. \<lparr>inPos = 0, inSize = n, readDebugInfo = False, inRest = take (unat n) d\<rparr>),
    fldInStreamCheckMarker = (\<lambda>s m. s),
    fldInStreamReadUInt8 = sample_read8,
    fldInStreamReadInt8 = sample_read8,
    fldInStreamReadUInt16 = sample_read16,
    fldInStreamReadUInt32 = sample_read32,
    fldOutStreamInit = (\<lambda>n. \<lparr>outPos = 0, outOctets = [], writeDebugInfo = False, outRest = []\<rparr>),
    fldOutStreamWriteUInt8 = (\<lambda>s b. sample_write s [b]),
    fldOutStreamWriteUInt16 =
      (\<lambda>s v. (0, sample_write s [word_of_nat (unat v div 256), word_of_nat (unat v mod 256)])),
    orderedDatagramInLogicInit = (\<lambda>s. [0]),
    orderedDatagramInLogicReceive = sample_ordered_receive,
    orderedDatagramOutLogicInit = (\<lambda>s. [0]),
    orderedDatagramOutLogicPrepare =
      (\<lambda>s out. (s, sample_write out [case s of [] \<Rightarrow> 0 | x # _ \<Rightarrow> x])),
    orderedDatagramOutLogicCommit = (\<lambda>s. [(case s of [] \<Rightarrow> 0 | x # _ \<Rightarrow> x) + 1]),
    monotonicTimeMsToLowerBits = (\<lambda>t. word_of_int t),
    monotonicTimeMsFromLowerBits =
      (\<lambda>now v. let c = now - now mod 65536 + int (unat v) in if c > now then c - 65536 else c),
    DATAGRAM_TRANSPORT_MAX_SIZE = 1200,
    NIMBLE_STEP_MAX = 4294967295,
    NimbleSerializeMaxRedundancyCount = 3,
    nbsStepsReset = (\<lambda>s. s\<lparr>expectedReadId := 0, expectedWriteId := 0, stepsCount := 0\<rparr>),
    nbsStepsReInit = (\<lambda>s i. s\<lparr>expectedReadId := i, expectedWriteId := i, stepsCount := 0\<rparr>),
    nbsStepsDiscardUpTo = (\<lambda>s i. s\<lparr>expectedReadId := i\<rparr>),
    nbsStepsRead = (\<lambda>s n. (-1, 0, [], s)),
    nbsPendingStepsReset = (\<lambda>s i. []),
    nbsPendingStepsReceiveMask = (\<lambda>s. (0, 0)),
    nbsPendingStepsSerializeOutHeader = (\<lambda>out i m. (0, out)),
    nbsPendingStepsInSerialize = (\<lambda>s p. (1, s\<lparr>inPos := inSize s, inRest := []\<rparr>, p)),
    nbsPendingStepsCopy = (\<lambda>s p. (0, s\<lparr>expectedWriteId := expectedWriteId s + 1\<rparr>, p)),
    nbsStepsOutSerialize = (\<lambda>out s. (1, sample_write out [1, 2, 3])),
    nbsStepsOutSerializeCalculateCombinedSize = (\<lambda>n m. n * m),
    NimbleSerializeCmdGameStep = 1,
    NimbleSerializeCmdDownloadGameStateRequest = 2,
    NimbleSerializeCmdClientOutBlobStream = 3,
    NimbleSerializeCmdConnectResponse = 11,
    NimbleSerializeCmdServerOutBlobStream = 12,
    NimbleSerializeCmdGameStepResponse = 13,
    NimbleSerializeCmdJoinGameResponse = 14,
    NimbleSerializeCmdGameStateResponse = 15,
    NimbleSerializeCmdJoinGameOutOfParticipantSlotsResponse = 16,
    nimbleSerializeWriteCommand = (\<lambda>out c. sample_write out [c]),
    nimbleSerializeClientOutConnectRequest =
      (\<lambda>out r. sample_write out (17 # replicate 12 (word_of_nat (clientRequestId r)))),
    nimbleSerializeClientOutJoinGameRequest =
      (\<lambda>out r. sample_write out (18 # replicate 12 (ucast (nonce r)))),
    nimbleSerializeClientInConnectResponse =
      (\<lambda>s. case sample_read8 s of (e, b, s1) \<Rightarrow>
         (e, \<lparr>responseUseDebugStreams = False, connectionId = unat b\<rparr>, s1)),
    nimbleSerializeClientInJoinGameResponse = sample_join_response,
    nimbleSerializeInBlobStreamChannelId =
      (\<lambda>s. case sample_read8 s of (e, b, s1) \<Rightarrow> (e, unat b, s1)),
    nimbleSerializeInStateId = (\<lambda>s. case sample_read8 s of (e, b, s1) \<Rightarrow> (e, ucast b, s1)),
    nimbleSerializeInNonce = (\<lambda>s. case sample_read8 s of (e, b, s1) \<Rightarrow> (e, ucast b, s1)),
    blobStreamLogicInReceive = sample_blob_receive,
    blobStreamInIsComplete =
      (\<lambda>b. blobStreamInRest b = [1] \<and> unat (octetCount b) \<le> length (blob b)),
    blobStreamLogicInSend = (\<lambda>logic out. (0, logic, sample_write out (replicate 12 9))),
    monotonicTimeMsNow = (\<lambda>(ds, t, p). (t, (ds, t + 1, p))),
    imprintAlloc = (\<lambda>a n (ds, t, p). (p + 1, (ds, t, p + 1))),
    imprintFree = (\<lambda>a p w. w),
    nbsStepsInit =
      (\<lambda>s m n w. (\<lparr>expectedReadId = 0, expectedWriteId = 0, stepsCount = 0, nbsStepsRest = []\<rparr>, w)),
    nbsPendingStepsInit = (\<lambda>s i m w. ([], w)),
    datagramTransportReceive = (\<lambda>tr n w. sample_receive w),
    transportSend = (\<lambda>tr d n w. (0, w))\<rparr>"

text \<open>The fields, one equation each, so that a witness need not unfold the record.\<close>

lemma sample_fields:
  "statsIntInit sampleLib =
     (\<lambda>s n. \<lparr>avg = 0, avgIsSet = False, statsIntRest = []\<rparr>)"
  "statsIntAdd sampleLib = (\<lambda>s v. s\<lparr>avg := v, avgIsSet := True\<rparr>)"
  "statsIntPerSecondInit sampleLib = (\<lambda>s now n. [])"
  "statsIntPerSecondAdd sampleLib = (\<lambda>s v. s)"
  "statsIntPerSecondUpdate sampleLib = (\<lambda>s now. s)"
  "statsHoldPositiveInit sampleLib = (\<lambda>s n. [])"
  "statsHoldPositiveAdd sampleLib = (\<lambda>s b. s)"
  "lagometerInit sampleLib = (\<lambda>s. [])"
  "lagometerAddPacket sampleLib = (\<lambda>s p. 1 # s)"
  "noticeEnabled sampleLib = True"
  "fldInStreamInit sampleLib =
     (\<lambda>d n. \<lparr>inPos = 0, inSize = n, readDebugInfo = False, inRest = take (unat n) d\<rparr>)"
  "fldInStreamCheckMarker sampleLib = (\<lambda>s m. s)"
  "fldInStreamReadUInt8 sampleLib = sample_read8"
  "fldInStreamReadInt8 sampleLib = sample_read8"
  "fldInStreamReadUInt16 sampleLib = sample_read16"
  "fldInStreamReadUInt32 sampleLib = sample_read32"
  "fldOutStreamInit sampleLib =
     (\<lambda>n. \<lparr>outPos = 0, outOctets = [], writeDebugInfo = False, outRest = []\<rparr>)"
  "fldOutStreamWriteUInt8 sampleLib = (\<lambda>s b. sample_write s [b])"
  "fldOutStreamWriteUInt16 sampleLib =
     (\<lambda>s v. (0, sample_write s [word_of_nat (unat v div 256), word_of_nat (unat v mod 256)]))"
  "orderedDatagramInLogicInit sampleLib = (\<lambda>s. [0])"
  "orderedDatagramInLogicReceive sampleLib = sample_ordered_receive"
  "orderedDatagramOutLogicInit sampleLib = (\<lambda>s. [0])"
  "orderedDatagramOutLogicPrepare sampleLib =
     (\<lambda>s out. (s, sample_write out [case s of [] \<Rightarrow> 0 | x # _ \<Rightarrow> x]))"
  "orderedDatagramOutLogicCommit sampleLib =
     (\<lambda>s. [(case s of [] \<Rightarrow> 0 | x # _ \<Rightarrow> x) + 1])"
  "monotonicTimeMsToLowerBits sampleLib = (\<lambda>t. word_of_int t)"
  "monotonicTimeMsFromLowerBits sampleLib =
     (\<lambda>now v. let c = now - now mod 65536 + int (unat v) in if c > now then c - 65536 else c)"
  "DATAGRAM_TRANSPORT_MAX_SIZE sampleLib = 1200"
  "NIMBLE_STEP_MAX sampleLib = 4294967295"
  "NimbleSerializeMaxRedundancyCount sampleLib = 3"
  "nbsStepsReset sampleLib =
     (\<lambda>s. s\<lparr>expectedReadId := 0, expectedWriteId := 0, stepsCount := 0\<rparr>)"
  "nbsStepsReInit sampleLib =
     (\<lambda>s i. s\<lparr>expectedReadId := i, expectedWriteId := i, stepsCount := 0\<rparr>)"
  "nbsStepsDiscardUpTo sampleLib = (\<lambda>s i. s\<lparr>expectedReadId := i\<rparr>)"
  "nbsStepsRead sampleLib = (\<lambda>s n. (-1, 0, [], s))"
  "nbsPendingStepsReset sampleLib = (\<lambda>s i. [])"
  "nbsPendingStepsReceiveMask sampleLib = (\<lambda>s. (0, 0))"
  "nbsPendingStepsSerializeOutHeader sampleLib = (\<lambda>out i m. (0, out))"
  "nbsPendingStepsInSerialize sampleLib =
     (\<lambda>s p. (1, s\<lparr>inPos := inSize s, inRest := []\<rparr>, p))"
  "nbsPendingStepsCopy sampleLib =
     (\<lambda>s p. (0, s\<lparr>expectedWriteId := expectedWriteId s + 1\<rparr>, p))"
  "nbsStepsOutSerialize sampleLib = (\<lambda>out s. (1, sample_write out [1, 2, 3]))"
  "nbsStepsOutSerializeCalculateCombinedSize sampleLib = (\<lambda>n m. n * m)"
  "NimbleSerializeCmdGameStep sampleLib = 1"
  "NimbleSerializeCmdDownloadGameStateRequest sampleLib = 2"
  "NimbleSerializeCmdClientOutBlobStream sampleLib = 3"
  "NimbleSerializeCmdConnectResponse sampleLib = 11"
  "NimbleSerializeCmdServerOutBlobStream sampleLib = 12"
  "NimbleSerializeCmdGameStepResponse sampleLib = 13"
  "NimbleSerializeCmdJoinGameResponse sampleLib = 14"
  "NimbleSerializeCmdGameStateResponse sampleLib = 15"
  "NimbleSerializeCmdJoinGameOutOfParticipantSlotsResponse sampleLib = 16"
  "nimbleSerializeWriteCommand sampleLib = (\<lambda>out c. sample_write out [c])"
  "nimbleSerializeClientOutConnectRequest sampleLib =
     (\<lambda>out r. sample_write out (17 # replicate 12 (word_of_nat (clientRequestId r))))"
  "nimbleSerializeClientOutJoinGameRequest sampleLib =
     (\<lambda>out r. sample_write out (18 # replicate 12 (ucast (nonce r))))"
  "nimbleSerializeClientInConnectResponse sampleLib =
     (\<lambda>s. case sample_read8 s of (e, b, s1) \<Rightarrow> (e, \<lparr>responseUseDebugStreams = False, connectionId = unat b\<rparr>, s1))"
  "nimbleSerializeClientInJoinGameResponse sampleLib = sample_join_response"
  "nimbleSerializeInBlobStreamChannelId sampleLib =
     (\<lambda>s. case sample_read8 s of (e, b, s1) \<Rightarrow> (e, unat b, s1))"
  "nimbleSerializeInStateId sampleLib =
     (\<lambda>s. case sample_read8 s of (e, b, s1) \<Rightarrow> (e, ucast b, s1))"
  "nimbleSerializeInNonce sampleLib =
     (\<lambda>s. case sample_read8 s of (e, b, s1) \<Rightarrow> (e, ucast b, s1))"
  "blobStreamLogicInReceive sampleLib = sample_blob_receive"
  "blobStreamInIsComplete sampleLib =
     (\<lambda>b. blobStreamInRest b = [1] \<and> unat (octetCount b) \<le> length (blob b))"
  "blobStreamLogicInSend sampleLib =
     (\<lambda>logic out. (0, logic, sample_write out (replicate 12 9)))"
  "monotonicTimeMsNow sampleLib = (\<lambda>(ds, t, p). (t, (ds, t + 1, p)))"
  "imprintAlloc sampleLib = (\<lambda>a n (ds, t, p). (p + 1, (ds, t, p + 1)))"
  "imprintFree sampleLib = (\<lambda>a p w. w)"
  "nbsStepsInit sampleLib =
     (\<lambda>s m n w. (\<lparr>expectedReadId = 0, expectedWriteId = 0, stepsCount = 0, nbsStepsRest = []\<rparr>, w))"
  "nbsPendingStepsInit sampleLib = (\<lambda>s i m w. ([], w))"
  "datagramTransportReceive sampleLib = (\<lambda>tr n w. sample_receive w)"
  "transportSend sampleLib = (\<lambda>tr d n w. (0, w))"
  by (simp_all add: sampleLib_def)

definition sample_world :: "octets list \<Rightarrow> sample_world world" where
  "sample_world ds = \<lparr>outside = (ds, 100, 0), heap = Map.empty, trace = []\<rparr>"

end
