(* ===== verification/ClientTypes.thy ===== *)
theory ClientTypes
  imports SampleLib
begin

text \<open>
  The enumerations of \<open>client.h\<close> and the tables of \<open>debug.c\<close> that name their values. The
  order of an enumeration is that of its C values.
\<close>

datatype NimbleClientState =
    NimbleClientStateIdle
  | NimbleClientStateRequestingConnect
  | NimbleClientStateConnected
  | NimbleClientStateJoiningRequestingState
  | NimbleClientStateJoiningDownloadingState
  | NimbleClientStateSynced
  | NimbleClientStateDisconnected

datatype NimbleJoiningState =
    NimbleJoiningStateJoiningParticipant
  | NimbleJoiningStateJoinedParticipant
  | NimbleJoiningStateOutOfParticipantSlots

datatype NimbleClientRealizeState =
    NimbleClientRealizeStateInit
  | NimbleClientRealizeStateReInit
  | NimbleClientRealizeStateCleared
  | NimbleClientRealizeStateSynced
  | NimbleClientRealizeStateDisconnected

record NimbleClientParticipantEntry =
  isUsed :: bool
  localUserDeviceIndex :: u8
  participantId :: u8

definition NIMBLE_CLIENT_MAX_LOCAL_USERS_COUNT :: nat where
  "NIMBLE_CLIENT_MAX_LOCAL_USERS_COUNT = 8"

text \<open>The C value of an enumerator.\<close>

primrec client_state_value :: "NimbleClientState \<Rightarrow> nat" where
  "client_state_value NimbleClientStateIdle = 0"
| "client_state_value NimbleClientStateRequestingConnect = 1"
| "client_state_value NimbleClientStateConnected = 2"
| "client_state_value NimbleClientStateJoiningRequestingState = 3"
| "client_state_value NimbleClientStateJoiningDownloadingState = 4"
| "client_state_value NimbleClientStateSynced = 5"
| "client_state_value NimbleClientStateDisconnected = 6"

primrec realize_state_value :: "NimbleClientRealizeState \<Rightarrow> nat" where
  "realize_state_value NimbleClientRealizeStateInit = 0"
| "realize_state_value NimbleClientRealizeStateReInit = 1"
| "realize_state_value NimbleClientRealizeStateCleared = 2"
| "realize_state_value NimbleClientRealizeStateSynced = 3"
| "realize_state_value NimbleClientRealizeStateDisconnected = 4"

lemma client_state_value_inject: "client_state_value a = client_state_value b \<Longrightarrow> a = b"
  by (cases a; cases b) simp_all

lemma realize_state_value_inject: "realize_state_value a = realize_state_value b \<Longrightarrow> a = b"
  by (cases a; cases b) simp_all

instantiation NimbleClientState :: linorder
begin

definition less_eq_NimbleClientState :: "NimbleClientState \<Rightarrow> NimbleClientState \<Rightarrow> bool" where
  "less_eq_NimbleClientState a b \<longleftrightarrow> client_state_value a \<le> client_state_value b"

definition less_NimbleClientState :: "NimbleClientState \<Rightarrow> NimbleClientState \<Rightarrow> bool" where
  "less_NimbleClientState a b \<longleftrightarrow> client_state_value a < client_state_value b"

instance
  by standard
    (auto simp: less_eq_NimbleClientState_def less_NimbleClientState_def
      intro: client_state_value_inject)

end

section \<open>debug.c\<close>

text \<open>The lookup tables; an index past the table is undefined behaviour.\<close>

definition lookup_name :: "string list \<Rightarrow> nat \<Rightarrow> string option" where
  "lookup_name names i = (if i < length names then Some (names ! i) else None)"

definition nimbleClientStateToString :: "NimbleClientState \<Rightarrow> string option" where
  "nimbleClientStateToString st =
     lookup_name [''idle'', ''requesting connect'', ''connected'', ''requesting game state'',
       ''downloading game state'', ''synced'', ''disconnected''] (client_state_value st)"

definition nimbleClientRealizeStateToString :: "NimbleClientRealizeState \<Rightarrow> string option" where
  "nimbleClientRealizeStateToString st =
     lookup_name [''init'', ''reinit'', ''cleared'', ''synced'', ''disconnected'']
       (realize_state_value st)"

text \<open>
  The debug tables cover their enumerations: every state has a name, so the lookup is
  never out of range, and different states have different names.
\<close>

theorem debug_tables_total_injective:
  "(\<exists>n. nimbleClientStateToString a = Some n)
   \<and> (\<exists>n. nimbleClientRealizeStateToString c = Some n)
   \<and> (nimbleClientStateToString a = nimbleClientStateToString b \<longleftrightarrow> a = b)
   \<and> (nimbleClientRealizeStateToString c = nimbleClientRealizeStateToString d \<longleftrightarrow> c = d)"
proof -
  have "\<exists>n. nimbleClientStateToString a = Some n"
    by (cases a) (simp_all add: nimbleClientStateToString_def lookup_name_def)
  moreover have "\<exists>n. nimbleClientRealizeStateToString c = Some n"
    by (cases c) (simp_all add: nimbleClientRealizeStateToString_def lookup_name_def)
  moreover have "nimbleClientStateToString a = nimbleClientStateToString b \<longleftrightarrow> a = b"
    by (cases a; cases b) (simp_all add: nimbleClientStateToString_def lookup_name_def)
  moreover have "nimbleClientRealizeStateToString c = nimbleClientRealizeStateToString d \<longleftrightarrow> c = d"
    by (cases c; cases d) (simp_all add: nimbleClientRealizeStateToString_def lookup_name_def)
  ultimately show ?thesis by blast
qed

end
