(* ===== verification/NumberFormats.thy ===== *)
theory NumberFormats
  imports Prelude
begin

text \<open>
  How C prints numbers, as far as the program does: \<open>%d\<close> and \<open>%zu\<close> of a value that is
  not negative, \<open>%0<width>X\<close>, and the truncation of \<open>tc_snprintf\<close>. What is printed can be read
  back, and its length is bounded.
\<close>

fun decimal :: "nat \<Rightarrow> string" where
  "decimal n = (if n < 10 then [char_of (48 + n)] else decimal (n div 10) @ [char_of (48 + n mod 10)])"

declare decimal.simps [simp del]

definition hex_digit :: "nat \<Rightarrow> char" where
  "hex_digit k = ''0123456789ABCDEF'' ! k"

definition hex :: "nat \<Rightarrow> nat \<Rightarrow> string" where
  "hex width n = map (\<lambda>i. hex_digit (n div 16 ^ i mod 16)) (rev [0..<width])"

definition snprintf :: "nat \<Rightarrow> string \<Rightarrow> string" where
  "snprintf maxBufSize s = take (maxBufSize - 1) s"

section \<open>Decimal numbers\<close>

definition is_digit :: "char \<Rightarrow> bool" where
  "is_digit d \<longleftrightarrow> 48 \<le> (of_char d :: nat) \<and> of_char d \<le> (57 :: nat)"

definition read_decimal :: "string \<Rightarrow> nat" where
  "read_decimal = foldl (\<lambda>n d. 10 * n + (of_char d - 48)) 0"

lemma digit_value: "k < 10 \<Longrightarrow> of_char (char_of (48 + k) :: char) = (48 + k :: nat)"
  by simp

lemma decimal_read: "read_decimal (decimal n) = n"
proof (induction n rule: decimal.induct)
  case (1 n)
  then show ?case
    by (cases "n < 10") (simp_all add: decimal.simps [of n] read_decimal_def digit_value)
qed

lemma decimal_digits: "list_all is_digit (decimal n)"
proof (induction n rule: decimal.induct)
  case (1 n)
  then show ?case
    by (cases "n < 10") (simp_all add: decimal.simps [of n] is_digit_def digit_value)
qed

lemma decimal_length: "n < 10 ^ k \<Longrightarrow> 0 < k \<Longrightarrow> length (decimal n) \<le> k"
proof (induction n arbitrary: k rule: decimal.induct)
  case (1 n)
  show ?case
  proof (cases "n < 10")
    case True
    with 1 show ?thesis by (simp add: decimal.simps [of n])
  next
    case False
    then have "1 < k" using "1.prems" by (cases "k = 1") auto
    then obtain j where k: "k = Suc j" "0 < j" by (cases k) auto
    then have "n div 10 < 10 ^ j" using "1.prems" by (simp add: less_mult_imp_div_less)
    from "1.IH" [OF False this k(2)] False k show ?thesis by (simp add: decimal.simps [of n])
  qed
qed

lemma decimal_inject: "decimal m = decimal n \<longleftrightarrow> m = n"
  using decimal_read by metis

lemma size_decimal: "length (decimal (unat (v :: size_t))) \<le> 20"
proof -
  have "unat v < 2 ^ LENGTH(64)" by (rule unsigned_less)
  then show ?thesis by (intro decimal_length) simp_all
qed

lemma octet_decimal: "length (decimal (unat (v :: u8))) \<le> 3"
proof -
  have "unat v < 2 ^ LENGTH(8)" by (rule unsigned_less)
  then show ?thesis by (intro decimal_length) simp_all
qed

section \<open>Hexadecimal numbers\<close>

lemma length_hex [simp]: "length (hex width n) = width"
  by (simp add: hex_def)

lemma hex_digit_inject:
  assumes "i < 16" "k < 16"
  shows "hex_digit i = hex_digit k \<longleftrightarrow> i = k"
proof -
  have "distinct ''0123456789ABCDEF''" by simp
  with assms show ?thesis unfolding hex_digit_def by (intro nth_eq_iff_index_eq) simp_all
qed

lemma same_hex_digits:
  "m < 16 ^ width \<Longrightarrow> n < 16 ^ width \<Longrightarrow> \<forall>i < width. m div 16 ^ i mod 16 = n div 16 ^ i mod (16 :: nat) \<Longrightarrow> m = n"
proof (induction width arbitrary: m n)
  case (Suc width)
  have "m div 16 = n div 16"
  proof (rule Suc.IH)
    show "m div 16 < 16 ^ width" "n div 16 < 16 ^ width"
      using Suc.prems(1,2) by (simp_all add: less_mult_imp_div_less mult.commute)
    show "\<forall>i < width. m div 16 div 16 ^ i mod 16 = n div 16 div 16 ^ i mod 16"
    proof (intro allI impI)
      fix i
      assume "i < width"
      with spec [OF Suc.prems(3), of "Suc i"]
      show "m div 16 div 16 ^ i mod 16 = n div 16 div 16 ^ i mod 16" by (simp add: div_mult2_eq)
    qed
  qed
  moreover have "m mod 16 = n mod 16" using spec [OF Suc.prems(3), of 0] by simp
  ultimately show ?case by (metis div_mult_mod_eq)
qed simp

lemma hex_inject:
  assumes "m < 16 ^ width" "n < 16 ^ width"
  shows "hex width m = hex width n \<longleftrightarrow> m = n"
  using same_hex_digits [OF assms] by (auto simp: hex_def hex_digit_inject)

end
