(* ===== verification/ConnectionQuality.thy ===== *)
theory ConnectionQuality
  imports CFloat ClientTypes NumberFormats
begin

text \<open>
  \<open>connection_quality.c\<close>: rates the connection from tick counters, dropped datagrams and
  latency, and recommends to disconnect once the trouble has lasted. The counters are
  \<open>size_t\<close> words, the rating is computed in binary32 as in the code. \<open>CLOG_C_NOTICE\<close>
  evaluates its arguments when notices are enabled, and one argument, the description of
  the state, evaluates the quality a second time: the model keeps that.
\<close>

datatype NimbleConnectionQualityDisconnectReason =
    KeepConnection
  | NotReceivingStepsFromServer
  | NotReceivingDatagramsFromServer

record 'x NimbleClientConnectionQuality =
  droppingDatagramWarning :: 'x
  impendingDisconnectWarning :: 'x
  qualityLatencyMsStat :: "'x StatsInt"
  ratingStat :: "'x StatsInt"
  lastLatencyMs :: size_t
  ticksWithoutIncomingDatagrams :: size_t
  ticksWithoutAuthoritativeStepsFromInSerialize :: size_t
  reason :: NimbleConnectionQualityDisconnectReason
  consideringDisconnectCounter :: size_t
  qualityRating :: u8
  droppedDatagramCounter :: size_t

definition nimbleClientConnectionQualityReset ::
    "('x, 'b) stats_lib_scheme \<Rightarrow> 'x NimbleClientConnectionQuality
     \<Rightarrow> 'x NimbleClientConnectionQuality" where
  "nimbleClientConnectionQualityReset L self = self\<lparr>
     droppingDatagramWarning := statsHoldPositiveInit L (droppingDatagramWarning self) 20,
     impendingDisconnectWarning := statsHoldPositiveInit L (impendingDisconnectWarning self) 20,
     qualityLatencyMsStat := statsIntInit L (qualityLatencyMsStat self) 3,
     ratingStat := statsIntInit L (ratingStat self) 10,
     lastLatencyMs := 0,
     ticksWithoutAuthoritativeStepsFromInSerialize := 0,
     ticksWithoutIncomingDatagrams := 0,
     consideringDisconnectCounter := 0,
     droppedDatagramCounter := 0,
     reason := KeepConnection\<rparr>"

definition nimbleClientConnectionQualityInit ::
    "('x, 'b) stats_lib_scheme \<Rightarrow> 'x NimbleClientConnectionQuality
     \<Rightarrow> 'x NimbleClientConnectionQuality" where
  "nimbleClientConnectionQualityInit L self = nimbleClientConnectionQualityReset L self"

text \<open>The assertion \<open>divisor \<noteq> 0\<close> holds for the four constant divisors it is called with.\<close>

definition degradeLowIsBetter :: "size_t \<Rightarrow> size_t \<Rightarrow> size_t \<Rightarrow> f32" where
  "degradeLowIsBetter v divisor lowerThreshold =
     (if v < lowerThreshold then 1
      else if v > divisor then 0
      else f32_sub 1 (f32_div (f32_of_size (v - lowerThreshold))
                              (f32_of_size (divisor - lowerThreshold))))"

definition evaluate ::
    "('x, 'b) stats_lib_scheme \<Rightarrow> 'x NimbleClientConnectionQuality
     \<Rightarrow> NimbleConnectionQualityDisconnectReason \<times> 'x NimbleClientConnectionQuality" where
  "evaluate L self =
     (let maxTicksWithoutDatagrams = 40;
          maxTicksWithoutSteps = 15;
          ticksWithoutDatagramsDegrade =
            degradeLowIsBetter (ticksWithoutIncomingDatagrams self) maxTicksWithoutDatagrams 10;
          ticksWithoutStepsDegrade =
            degradeLowIsBetter (ticksWithoutAuthoritativeStepsFromInSerialize self)
              maxTicksWithoutSteps 10;
          droppingPacketsDegrade = degradeLowIsBetter (droppedDatagramCounter self) 10 1;
          (highJitterDegrade, latencyDegrade, self) =
            (if avgIsSet (qualityLatencyMsStat self) then
               let latencyAvg = size_of_int (avg (qualityLatencyMsStat self));
                   latencyDiff =
                     wrap_s32 (int_of_size latencyAvg - int_of_size (lastLatencyMs self));
                   self = self\<lparr>lastLatencyMs := latencyAvg\<rparr>
               in (if wrap_s32 \<bar>latencyDiff\<bar> > 3 then round_f32 (9 / 10) else 1,
                   degradeLowIsBetter latencyAvg 250 60, self)
             else (1, 1, self));
          totalDegrade =
            f32_mul (f32_mul (f32_mul (f32_mul ticksWithoutDatagramsDegrade
              ticksWithoutStepsDegrade) latencyDegrade) highJitterDegrade) droppingPacketsDegrade;
          self = self\<lparr>qualityRating := word_of_int \<lfloor>f32_mul totalDegrade 5\<rfloor>\<rparr>;
          self = self\<lparr>ratingStat := statsIntAdd L (ratingStat self) (uint (qualityRating self))\<rparr>
      in (if ticksWithoutIncomingDatagrams self \<ge> maxTicksWithoutDatagrams
          then NotReceivingDatagramsFromServer
          else if ticksWithoutAuthoritativeStepsFromInSerialize self > maxTicksWithoutSteps
          then NotReceivingStepsFromServer
          else KeepConnection, self))"

definition nimbleClientConnectionQualityDescribe ::
    "('x, 'b) stats_lib_scheme \<Rightarrow> 'x NimbleClientConnectionQuality \<Rightarrow> nat
     \<Rightarrow> string \<times> 'x NimbleClientConnectionQuality" where
  "nimbleClientConnectionQualityDescribe L self maxBufSize =
     (let (why, self) = evaluate L self; rating = decimal (unat (qualityRating self))
      in (case why of
            KeepConnection \<Rightarrow> snprintf maxBufSize (''it is all good! rating: '' @ rating)
          | NotReceivingStepsFromServer \<Rightarrow>
              snprintf maxBufSize (''not receiving datagrams from server. ''
                @ decimal (unat (ticksWithoutAuthoritativeStepsFromInSerialize self))
                @ '' ticks since last valid step from server. rating: '' @ rating)
          | NotReceivingDatagramsFromServer \<Rightarrow>
              snprintf maxBufSize (''not receiving datagrams from server. ''
                @ decimal (unat (ticksWithoutIncomingDatagrams self))
                @ '' ticks since last valid datagram. rating: '' @ rating), self))"

text \<open>A notice that describes the quality: its argument is evaluated if notices are enabled.\<close>

definition notice_described ::
    "('x, 'b) stats_lib_scheme \<Rightarrow> 'x NimbleClientConnectionQuality
     \<Rightarrow> 'x NimbleClientConnectionQuality" where
  "notice_described L self =
     (if noticeEnabled L then snd (nimbleClientConnectionQualityDescribe L self 128) else self)"

definition notice_described_if ::
    "('x, 'b) stats_lib_scheme \<Rightarrow> bool \<Rightarrow> 'x NimbleClientConnectionQuality
     \<Rightarrow> 'x NimbleClientConnectionQuality" where
  "notice_described_if L b self = (if b then notice_described L self else self)"

text \<open>
  The update reads the client's state only. Its three parts: counting the tick, forgiving
  when the evaluation is good, and considering the disconnect when it is not.
\<close>

definition count_tick ::
    "'x NimbleClientConnectionQuality \<Rightarrow> 'x NimbleClientConnectionQuality" where
  "count_tick self =
     (let self = self\<lparr>ticksWithoutAuthoritativeStepsFromInSerialize :=
                       ticksWithoutAuthoritativeStepsFromInSerialize self + 1\<rparr>;
          self = self\<lparr>ticksWithoutIncomingDatagrams := ticksWithoutIncomingDatagrams self + 1\<rparr>
      in if droppedDatagramCounter self > 0
         then self\<lparr>droppedDatagramCounter := droppedDatagramCounter self - 1\<rparr>
         else self)"

definition forgive ::
    "'x NimbleClientConnectionQuality \<Rightarrow> 'x NimbleClientConnectionQuality" where
  "forgive self =
     (if consideringDisconnectCounter self > 0
      then self\<lparr>consideringDisconnectCounter := consideringDisconnectCounter self - 1\<rparr>
      else self)"

definition consider_disconnect ::
    "('x, 'b) stats_lib_scheme \<Rightarrow> NimbleConnectionQualityDisconnectReason
     \<Rightarrow> 'x NimbleClientConnectionQuality \<Rightarrow> 'x NimbleClientConnectionQuality" where
  "consider_disconnect L why self =
     (let self = self\<lparr>consideringDisconnectCounter := consideringDisconnectCounter self + 1\<rparr>;
          self = notice_described_if L (consideringDisconnectCounter self = 1) self;
          self = notice_described_if L (consideringDisconnectCounter self mod 20 = 0) self
      in if consideringDisconnectCounter self > 60
         then notice_described L (self\<lparr>reason := why\<rparr>)
         else self)"

definition nimbleClientConnectionQualityUpdate ::
    "('x, 'b) stats_lib_scheme \<Rightarrow> NimbleClientState \<Rightarrow> 'x NimbleClientConnectionQuality
     \<Rightarrow> 'x NimbleClientConnectionQuality" where
  "nimbleClientConnectionQualityUpdate L clientState self =
     (if clientState \<noteq> NimbleClientStateSynced then self
      else
        let (why, self) = evaluate L (count_tick self)
        in if why = KeepConnection then forgive self else consider_disconnect L why self)"

definition nimbleClientConnectionQualityDroppedDatagrams ::
    "('x, 'b) stats_lib_scheme \<Rightarrow> size_t \<Rightarrow> 'x NimbleClientConnectionQuality
     \<Rightarrow> 'x NimbleClientConnectionQuality" where
  "nimbleClientConnectionQualityDroppedDatagrams L delta self =
     (let droppedDatagramWarning = delta > 1;
          self = self\<lparr>droppedDatagramCounter := droppedDatagramCounter self + delta\<rparr>
      in self\<lparr>droppingDatagramWarning :=
                statsHoldPositiveAdd L (droppingDatagramWarning self) droppedDatagramWarning\<rparr>)"

definition nimbleClientConnectionQualityReceivedUsableDatagram ::
    "('x, 'b) stats_lib_scheme \<Rightarrow> 'x NimbleClientConnectionQuality
     \<Rightarrow> 'x NimbleClientConnectionQuality" where
  "nimbleClientConnectionQualityReceivedUsableDatagram L self =
     (let self = self\<lparr>ticksWithoutIncomingDatagrams := 0\<rparr>
      in self\<lparr>droppingDatagramWarning :=
                statsHoldPositiveAdd L (droppingDatagramWarning self) False\<rparr>)"

definition nimbleClientConnectionQualityReceivedAuthoritativeSteps ::
    "size_t \<Rightarrow> 'x NimbleClientConnectionQuality \<Rightarrow> 'x NimbleClientConnectionQuality" where
  "nimbleClientConnectionQualityReceivedAuthoritativeSteps delta self =
     self\<lparr>ticksWithoutAuthoritativeStepsFromInSerialize := 0\<rparr>"

definition nimbleClientConnectionQualityGameStepLatency ::
    "('x, 'b) stats_lib_scheme \<Rightarrow> size_t \<Rightarrow> 'x NimbleClientConnectionQuality
     \<Rightarrow> 'x NimbleClientConnectionQuality" where
  "nimbleClientConnectionQualityGameStepLatency L latencyInMs self =
     self\<lparr>qualityLatencyMsStat := statsIntAdd L (qualityLatencyMsStat self) (int_of_size latencyInMs)\<rparr>"

definition nimbleClientConnectionQualityShouldDisconnect ::
    "'x NimbleClientConnectionQuality \<Rightarrow> bool" where
  "nimbleClientConnectionQualityShouldDisconnect self \<longleftrightarrow> reason self \<noteq> KeepConnection"

section \<open>What evaluating and logging leave alone\<close>

lemma fst_evaluate [simp]:
  "fst (evaluate L q) =
     (if ticksWithoutIncomingDatagrams q \<ge> 40 then NotReceivingDatagramsFromServer
      else if ticksWithoutAuthoritativeStepsFromInSerialize q > 15 then NotReceivingStepsFromServer
      else KeepConnection)"
  by (simp add: evaluate_def Let_def)

lemma evaluate_frame [simp]:
  "ticksWithoutIncomingDatagrams (snd (evaluate L q)) = ticksWithoutIncomingDatagrams q"
  "ticksWithoutAuthoritativeStepsFromInSerialize (snd (evaluate L q))
     = ticksWithoutAuthoritativeStepsFromInSerialize q"
  "reason (snd (evaluate L q)) = reason q"
  "consideringDisconnectCounter (snd (evaluate L q)) = consideringDisconnectCounter q"
  "droppedDatagramCounter (snd (evaluate L q)) = droppedDatagramCounter q"
  "qualityLatencyMsStat (snd (evaluate L q)) = qualityLatencyMsStat q"
  by (simp_all add: evaluate_def Let_def)

lemma snd_describe: "snd (nimbleClientConnectionQualityDescribe L q n) = snd (evaluate L q)"
  by (simp add: nimbleClientConnectionQualityDescribe_def Let_def split: prod.split)

lemma notice_described_eq:
  "notice_described L q = (if noticeEnabled L then snd (evaluate L q) else q)"
  by (simp add: notice_described_def snd_describe)

lemma notice_described_frame [simp]:
  "ticksWithoutIncomingDatagrams (notice_described L q) = ticksWithoutIncomingDatagrams q"
  "ticksWithoutAuthoritativeStepsFromInSerialize (notice_described L q)
     = ticksWithoutAuthoritativeStepsFromInSerialize q"
  "reason (notice_described L q) = reason q"
  "consideringDisconnectCounter (notice_described L q) = consideringDisconnectCounter q"
  "droppedDatagramCounter (notice_described L q) = droppedDatagramCounter q"
  by (simp_all add: notice_described_eq)

lemma notice_described_if_frame [simp]:
  "ticksWithoutIncomingDatagrams (notice_described_if L b q) = ticksWithoutIncomingDatagrams q"
  "ticksWithoutAuthoritativeStepsFromInSerialize (notice_described_if L b q)
     = ticksWithoutAuthoritativeStepsFromInSerialize q"
  "reason (notice_described_if L b q) = reason q"
  "consideringDisconnectCounter (notice_described_if L b q) = consideringDisconnectCounter q"
  "droppedDatagramCounter (notice_described_if L b q) = droppedDatagramCounter q"
  by (simp_all add: notice_described_if_def)

section \<open>The part that decides on the disconnect\<close>

text \<open>
  The recommendation depends on four fields only. \<open>watch_of\<close> projects them out, and
  \<open>watch_tick\<close> is what one update in the synced state does to them.
\<close>

record watch =
  silentDatagramTicks :: size_t
  silentStepTicks :: size_t
  consideringLevel :: size_t
  verdict :: NimbleConnectionQualityDisconnectReason

definition watch_of :: "'x NimbleClientConnectionQuality \<Rightarrow> watch" where
  "watch_of q = \<lparr>silentDatagramTicks = ticksWithoutIncomingDatagrams q,
     silentStepTicks = ticksWithoutAuthoritativeStepsFromInSerialize q,
     consideringLevel = consideringDisconnectCounter q, verdict = reason q\<rparr>"

definition watch_reason :: "watch \<Rightarrow> NimbleConnectionQualityDisconnectReason" where
  "watch_reason s =
     (if silentDatagramTicks s \<ge> 40 then NotReceivingDatagramsFromServer
      else if silentStepTicks s > 15 then NotReceivingStepsFromServer else KeepConnection)"

definition watch_count :: "watch \<Rightarrow> watch" where
  "watch_count s = s\<lparr>silentDatagramTicks := silentDatagramTicks s + 1,
                     silentStepTicks := silentStepTicks s + 1\<rparr>"

definition watch_judge :: "watch \<Rightarrow> watch" where
  "watch_judge s =
     (if watch_reason s = KeepConnection
      then s\<lparr>consideringLevel := (if consideringLevel s > 0 then consideringLevel s - 1 else consideringLevel s)\<rparr>
      else s\<lparr>consideringLevel := consideringLevel s + 1,
             verdict := (if consideringLevel s + 1 > 60 then watch_reason s else verdict s)\<rparr>)"

definition watch_tick :: "watch \<Rightarrow> watch" where
  "watch_tick s = watch_judge (watch_count s)"

lemma watch_of_evaluate [simp]: "watch_of (snd (evaluate L q)) = watch_of q"
  by (simp add: watch_of_def)

lemma watch_of_notice [simp]: "watch_of (notice_described L q) = watch_of q"
  by (simp add: watch_of_def)

lemma watch_reason_of: "watch_reason (watch_of q) = fst (evaluate L q)"
  by (simp add: watch_reason_def watch_of_def)

lemma watch_of_count_tick: "watch_of (count_tick q) = watch_count (watch_of q)"
  by (simp add: count_tick_def Let_def watch_of_def watch_count_def)

lemma watch_of_forgive:
  "watch_reason (watch_of q) = KeepConnection \<Longrightarrow> watch_of (forgive q) = watch_judge (watch_of q)"
  by (simp add: forgive_def watch_judge_def) (simp add: watch_of_def)

lemma watch_of_consider:
  "watch_reason (watch_of q) \<noteq> KeepConnection \<Longrightarrow>
     watch_of (consider_disconnect L (watch_reason (watch_of q)) q) = watch_judge (watch_of q)"
  by (simp add: consider_disconnect_def watch_judge_def Let_def) (simp add: watch_of_def)

lemma watch_of_update:
  "watch_of (nimbleClientConnectionQualityUpdate L st q) =
     (if st = NimbleClientStateSynced then watch_tick (watch_of q) else watch_of q)"
proof -
  obtain why p where e: "evaluate L (count_tick q) = (why, p)" by fastforce
  then have why: "why = watch_reason (watch_of p)" and p: "watch_of p = watch_count (watch_of q)"
    using watch_of_evaluate [of L "count_tick q"] watch_reason_of [of "count_tick q" L]
    by (simp_all add: watch_of_count_tick del: fst_evaluate watch_of_evaluate)
  show ?thesis
    using watch_of_forgive [of p] watch_of_consider [of p L]
    by (simp add: nimbleClientConnectionQualityUpdate_def e why p watch_tick_def)
qed

text \<open>
  The watchdog contract: a calm tick never raises the level nor trips; an alarmed tick
  raises the level by one and trips exactly when the new level passes the limit.
\<close>

locale watchdog =
  fixes tick :: "'s \<Rightarrow> 's" and alarm :: "'s \<Rightarrow> bool" and level :: "'s \<Rightarrow> nat"
    and tripped :: "'s \<Rightarrow> bool" and limit :: nat and capacity :: nat
  assumes calm: "\<not> alarm s \<Longrightarrow> level (tick s) \<le> level s \<and> (tripped (tick s) \<longleftrightarrow> tripped s)"
    and alarmed: "alarm s \<Longrightarrow> level s < capacity \<Longrightarrow>
      level (tick s) = Suc (level s) \<and> (tripped (tick s) \<longleftrightarrow> tripped s \<or> limit < Suc (level s))"
begin

lemma calm_run:
  "(\<forall>i<k. \<not> alarm ((tick ^^ i) s)) \<Longrightarrow>
     level ((tick ^^ k) s) \<le> level s \<and> (tripped ((tick ^^ k) s) \<longleftrightarrow> tripped s)"
proof (induction k)
  case (Suc k)
  then have "\<not> alarm ((tick ^^ k) s)" by simp
  from calm [OF this] Suc show ?case by auto
qed simp

lemma alarmed_run:
  "(\<forall>i<k. alarm ((tick ^^ i) s)) \<Longrightarrow> level s + k \<le> capacity \<Longrightarrow>
     level ((tick ^^ k) s) = level s + k
     \<and> (tripped ((tick ^^ k) s) \<longleftrightarrow> tripped s \<or> 0 < k \<and> limit < level s + k)"
proof (induction k)
  case (Suc k)
  then have IH: "level ((tick ^^ k) s) = level s + k"
      "tripped ((tick ^^ k) s) \<longleftrightarrow> tripped s \<or> 0 < k \<and> limit < level s + k"
    by auto
  have "alarm ((tick ^^ k) s)" using Suc.prems(1) by simp
  from alarmed [OF this] IH Suc.prems(2) show ?case by auto
qed simp

end

lemma unat_inc: "unat (x :: size_t) < 18446744073709551615 \<Longrightarrow> unat (x + 1) = Suc (unat x)"
  by (simp add: unat_word_ariths)

lemma unat_inc_le: "unat ((x :: size_t) + 1) \<le> Suc (unat x)"
  by (simp add: unat_word_ariths)

lemma unat_dec: "0 < (x :: size_t) \<Longrightarrow> unat (x - 1) = unat x - 1"
  by (metis One_nat_def unat_minus_one word_less_nat_alt unat_0 less_numeral_extra(3))

abbreviation watch_alarm :: "watch \<Rightarrow> bool" where
  "watch_alarm s \<equiv> watch_reason (watch_count s) \<noteq> KeepConnection"

interpretation quality_watch: watchdog watch_tick watch_alarm
  "\<lambda>s. unat (consideringLevel s)" "\<lambda>s. verdict s \<noteq> KeepConnection" 60 18446744073709551615
proof
  fix s :: watch
  assume "\<not> watch_alarm s"
  then show "unat (consideringLevel (watch_tick s)) \<le> unat (consideringLevel s)
      \<and> (verdict (watch_tick s) \<noteq> KeepConnection \<longleftrightarrow> verdict s \<noteq> KeepConnection)"
    by (simp add: watch_tick_def watch_judge_def watch_count_def unat_dec)
next
  fix s :: watch
  assume alarm: "watch_alarm s" and room: "unat (consideringLevel s) < 18446744073709551615"
  then show "unat (consideringLevel (watch_tick s)) = Suc (unat (consideringLevel s))
      \<and> (verdict (watch_tick s) \<noteq> KeepConnection
          \<longleftrightarrow> verdict s \<noteq> KeepConnection \<or> 60 < Suc (unat (consideringLevel s)))"
    by (simp add: watch_tick_def watch_judge_def watch_count_def unat_inc word_less_nat_alt)
qed

end
