(* ===== verification/QualityProperties.thy ===== *)
theory QualityProperties
  imports ConnectionQuality
begin

text \<open>
  What the connection quality promises: how long a connection has to be in trouble before
  the recommendation to disconnect comes, that it comes then, that it stays, that a served
  connection never gets it, and the range of the rating.
\<close>

section \<open>Rating\<close>

lemma f32_of_size_mono: "v \<le> v' \<Longrightarrow> f32_of_size v \<le> f32_of_size v'"
  unfolding f32_of_size_def
  by (rule round_f32_mono) (simp only: of_nat_le_iff word_le_nat_alt)

lemma round_f32_of_nat_pos: "1 \<le> n \<Longrightarrow> 1 \<le> round_f32 (of_nat n)"
  using round_f32_mono [of 1 "of_nat n"] by simp

lemma round_f32_of_nat_nonneg: "0 \<le> round_f32 (of_nat n)"
  using round_f32_mono [of 0 "of_nat n"] by simp

lemma f32_of_size_pos:
  assumes "0 < v"
  shows "1 \<le> f32_of_size v"
proof -
  have "1 \<le> unat v" using assms by (simp add: word_less_nat_alt)
  then show ?thesis unfolding f32_of_size_def by (rule round_f32_of_nat_pos)
qed

lemma f32_of_size_nonneg: "0 \<le> f32_of_size v"
  unfolding f32_of_size_def by (rule round_f32_of_nat_nonneg)

lemma degrade_ratio_unit:
  assumes "l \<le> v" "v \<le> d" "l < d"
  shows "0 \<le> f32_div (f32_of_size (v - l)) (f32_of_size (d - l))
       \<and> f32_div (f32_of_size (v - l)) (f32_of_size (d - l)) \<le> 1"
proof -
  have "v - l \<le> d - l" using assms by (simp add: word_le_minus_mono_left)
  from f32_of_size_mono [OF this] have le: "f32_of_size (v - l) \<le> f32_of_size (d - l)" .
  have pos: "1 \<le> f32_of_size (d - l)"
    using assms by (intro f32_of_size_pos) (simp add: word_greater_zero_iff)
  show ?thesis unfolding f32_div_def
    by (rule round_f32_unit) (use le pos f32_of_size_nonneg [of "v - l"] in \<open>auto simp: divide_le_eq_1\<close>)
qed

lemma degrade_unit:
  assumes "l < d"
  shows "0 \<le> degradeLowIsBetter v d l \<and> degradeLowIsBetter v d l \<le> 1"
proof (cases "v < l \<or> v > d")
  case True
  then show ?thesis by (auto simp: degradeLowIsBetter_def)
next
  case False
  then have "l \<le> v" "v \<le> d" by auto
  from degrade_ratio_unit [OF this assms] False show ?thesis
    by (auto simp: degradeLowIsBetter_def f32_sub_def intro: round_f32_unit [THEN conjunct1] round_f32_unit [THEN conjunct2])
qed

lemma degrade_antitone:
  assumes "l < d" "v \<le> v'"
  shows "degradeLowIsBetter v' d l \<le> degradeLowIsBetter v d l"
proof -
  consider "v < l" | "v' > d" | "l \<le> v" "v' \<le> d" by (meson leI)
  then show ?thesis
  proof cases
    case 1
    then show ?thesis using degrade_unit [OF assms(1), of v'] by (simp add: degradeLowIsBetter_def [of v])
  next
    case 2
    then show ?thesis
      using degrade_unit [OF assms(1), of v] assms by (auto simp: degradeLowIsBetter_def [of v'])
  next
    case 3
    have pos: "1 \<le> f32_of_size (d - l)"
      using assms by (intro f32_of_size_pos) (simp add: word_greater_zero_iff)
    have "v - l \<le> v' - l" using 3 assms by (simp add: word_le_minus_mono_left)
    from f32_of_size_mono [OF this]
    have "f32_div (f32_of_size (v - l)) (f32_of_size (d - l))
        \<le> f32_div (f32_of_size (v' - l)) (f32_of_size (d - l))"
      unfolding f32_div_def using pos by (intro round_f32_mono divide_right_mono) auto
    then show ?thesis using 3 assms
      by (auto simp: degradeLowIsBetter_def f32_sub_def not_less intro: round_f32_mono)
  qed
qed

text \<open>The total of \<open>evaluate\<close>, as a function of the fields it reads.\<close>

definition jitter_latency :: "'x NimbleClientConnectionQuality \<Rightarrow> f32 \<times> f32" where
  "jitter_latency q =
     (if avgIsSet (qualityLatencyMsStat q) then
        (if wrap_s32 \<bar>wrap_s32 (int_of_size (size_of_int (avg (qualityLatencyMsStat q)))
             - int_of_size (lastLatencyMs q))\<bar> > 3 then round_f32 (9 / 10) else 1,
         degradeLowIsBetter (size_of_int (avg (qualityLatencyMsStat q))) 250 60)
      else (1, 1))"

definition total_degrade :: "'x NimbleClientConnectionQuality \<Rightarrow> f32" where
  "total_degrade q =
     f32_mul (f32_mul (f32_mul (f32_mul
       (degradeLowIsBetter (ticksWithoutIncomingDatagrams q) 40 10)
       (degradeLowIsBetter (ticksWithoutAuthoritativeStepsFromInSerialize q) 15 10))
       (snd (jitter_latency q))) (fst (jitter_latency q)))
       (degradeLowIsBetter (droppedDatagramCounter q) 10 1)"

lemma evaluate_rating:
  "qualityRating (snd (evaluate L q)) = word_of_int \<lfloor>f32_mul (total_degrade q) 5\<rfloor>"
  by (simp add: evaluate_def Let_def total_degrade_def jitter_latency_def)

lemma jitter_latency_unit:
  "0 \<le> fst (jitter_latency q) \<and> fst (jitter_latency q) \<le> 1"
  "0 \<le> snd (jitter_latency q) \<and> snd (jitter_latency q) \<le> 1"
  using round_f32_unit [of "9 / 10"] degrade_unit [of 60 250]
  by (simp_all add: jitter_latency_def)

lemma total_degrade_unit: "0 \<le> total_degrade q \<and> total_degrade q \<le> 1"
  unfolding total_degrade_def
  by (intro f32_mul_unit jitter_latency_unit [THEN conjunct1] jitter_latency_unit [THEN conjunct2]
      degrade_unit [THEN conjunct1] degrade_unit [THEN conjunct2]
      f32_mul_unit [THEN conjunct1] f32_mul_unit [THEN conjunct2]) simp_all

lemma rating_range: "unat (qualityRating (snd (evaluate L q))) \<le> 5"
proof -
  have "0 \<le> total_degrade q * 5" "total_degrade q * 5 \<le> 5" using total_degrade_unit [of q] by auto
  then have "0 \<le> f32_mul (total_degrade q) 5" "f32_mul (total_degrade q) 5 \<le> 5"
    using round_f32_mono [of 0 "total_degrade q * 5"] round_f32_mono [of "total_degrade q * 5" 5]
    by (simp_all add: f32_mul_def)
  then have "0 \<le> \<lfloor>f32_mul (total_degrade q) 5\<rfloor>" "\<lfloor>f32_mul (total_degrade q) 5\<rfloor> \<le> 5"
    using floor_mono [of "f32_mul (total_degrade q) 5" 5] by simp_all
  then have "uint (word_of_int \<lfloor>f32_mul (total_degrade q) 5\<rfloor> :: u8) \<le> 5"
    by (simp only: uint_word_of_int) (auto simp: mod_pos_pos_trivial)
  then show ?thesis unfolding evaluate_rating unat_eq_nat_uint by linarith
qed

lemma degrade_full: "v < l \<Longrightarrow> degradeLowIsBetter v d l = 1"
  by (simp add: degradeLowIsBetter_def)

lemma degrade_none: "d < v \<Longrightarrow> \<not> v < l \<Longrightarrow> degradeLowIsBetter v d l = 0"
  by (simp add: degradeLowIsBetter_def)

definition rating_after :: "('x, 'b) stats_lib_scheme \<Rightarrow> 'x NimbleClientConnectionQuality \<Rightarrow> nat" where
  "rating_after L q = unat (qualityRating (snd (evaluate L q)))"

definition some_indicator_beyond :: "'x NimbleClientConnectionQuality \<Rightarrow> bool" where
  "some_indicator_beyond q \<longleftrightarrow>
     ticksWithoutIncomingDatagrams q > 40
     \<or> ticksWithoutAuthoritativeStepsFromInSerialize q > 15
     \<or> droppedDatagramCounter q > 10
     \<or> avgIsSet (qualityLatencyMsStat q) \<and> size_of_int (avg (qualityLatencyMsStat q)) > 250"

definition all_indicators_good :: "'x NimbleClientConnectionQuality \<Rightarrow> bool" where
  "all_indicators_good q \<longleftrightarrow>
     ticksWithoutIncomingDatagrams q < 10
     \<and> ticksWithoutAuthoritativeStepsFromInSerialize q < 10
     \<and> droppedDatagramCounter q = 0
     \<and> (avgIsSet (qualityLatencyMsStat q) \<longrightarrow>
          size_of_int (avg (qualityLatencyMsStat q)) < 60
          \<and> lastLatencyMs q = size_of_int (avg (qualityLatencyMsStat q)))"

lemma rating_of_total:
  "total_degrade q = 0 \<Longrightarrow> rating_after L q = 0"
  "total_degrade q = 1 \<Longrightarrow> rating_after L q = 5"
  by (simp_all add: rating_after_def evaluate_rating f32_mul_def)

lemma total_degrade_beyond: "some_indicator_beyond q \<Longrightarrow> total_degrade q = 0"
proof -
  have beyond: "degradeLowIsBetter v d l = 0" if "d < v" "l \<le> d" for v d l
    using that by (intro degrade_none) auto
  show "some_indicator_beyond q \<Longrightarrow> total_degrade q = 0"
    unfolding some_indicator_beyond_def
    by (elim disjE) (simp_all add: total_degrade_def jitter_latency_def beyond)
qed

lemma total_degrade_good: "all_indicators_good q \<Longrightarrow> total_degrade q = 1"
proof -
  have zero: "degradeLowIsBetter 0 10 1 = 1" by (simp add: degrade_full)
  show "all_indicators_good q \<Longrightarrow> total_degrade q = 1"
    by (simp add: all_indicators_good_def total_degrade_def jitter_latency_def degrade_full zero)
qed

text \<open>
  C31. The quality rating stays within 0 to 5 for every state; any single indicator beyond its
  limit (40 silent ticks, 15 ticks without steps, 10 dropped datagrams, an average latency
  above 250 ms) makes it 0; and with every indicator below its lower threshold and a steady
  latency it is 5.
\<close>

theorem rating_bounds:
  "rating_after L q \<le> 5
   \<and> (some_indicator_beyond q \<longrightarrow> rating_after L q = 0)
   \<and> (all_indicators_good q \<longrightarrow> rating_after L q = 5)"
  using rating_range [of L q]
  by (auto simp: rating_of_total total_degrade_beyond total_degrade_good rating_after_def [of L q])
     (simp_all flip: rating_after_def add: rating_of_total total_degrade_beyond total_degrade_good)

definition sample_quality :: "octets NimbleClientConnectionQuality" where
  "sample_quality = \<lparr>droppingDatagramWarning = [], impendingDisconnectWarning = [],
     qualityLatencyMsStat = \<lparr>avg = 20, avgIsSet = True, statsIntRest = []\<rparr>,
     ratingStat = \<lparr>avg = 0, avgIsSet = False, statsIntRest = []\<rparr>,
     lastLatencyMs = 20, ticksWithoutIncomingDatagrams = 3,
     ticksWithoutAuthoritativeStepsFromInSerialize = 4, reason = KeepConnection,
     consideringDisconnectCounter = 0, qualityRating = 0, droppedDatagramCounter = 0\<rparr>"

theorem rating_bounds_witness:
  "rating_after sampleLib sample_quality = 5
   \<and> rating_after sampleLib (sample_quality\<lparr>droppedDatagramCounter := 11\<rparr>) = 0"
proof -
  have "all_indicators_good sample_quality"
    by (simp add: all_indicators_good_def sample_quality_def size_of_int_def)
  moreover have "some_indicator_beyond (sample_quality\<lparr>droppedDatagramCounter := 11\<rparr>)"
    by (simp add: some_indicator_beyond_def sample_quality_def)
  ultimately show ?thesis
    using rating_bounds [of sampleLib sample_quality]
      rating_bounds [of sampleLib "sample_quality\<lparr>droppedDatagramCounter := 11\<rparr>"]
    by simp
qed

section \<open>The disconnect recommendation\<close>

definition fresh_watch :: watch where
  "fresh_watch = \<lparr>silentDatagramTicks = 0, silentStepTicks = 0, consideringLevel = 0,
     verdict = KeepConnection\<rparr>"

lemma watch_of_reset: "watch_of (nimbleClientConnectionQualityReset L q) = fresh_watch"
  by (simp add: watch_of_def nimbleClientConnectionQualityReset_def fresh_watch_def)

lemma watch_of_updates:
  "watch_of ((nimbleClientConnectionQualityUpdate L NimbleClientStateSynced ^^ n) q)
     = (watch_tick ^^ n) (watch_of q)"
  by (induction n) (simp_all add: watch_of_update)

lemma should_disconnect_watch:
  "nimbleClientConnectionQualityShouldDisconnect q \<longleftrightarrow> verdict (watch_of q) \<noteq> KeepConnection"
  by (simp add: nimbleClientConnectionQualityShouldDisconnect_def watch_of_def)

lemma watch_tick_counts:
  "silentDatagramTicks ((watch_tick ^^ n) s) = silentDatagramTicks s + of_nat n"
  "silentStepTicks ((watch_tick ^^ n) s) = silentStepTicks s + of_nat n"
  by (induction n) (simp_all add: watch_tick_def watch_judge_def watch_count_def)

lemma silent_alarm_iff:
  assumes "i < 18446744073709551615"
  shows "watch_alarm ((watch_tick ^^ i) fresh_watch) \<longleftrightarrow> 15 \<le> i"
proof -
  have "unat (of_nat i + 1 :: size_t) = Suc i"
    using assms by (simp add: unat_inc unat_of_nat)
  then show ?thesis
    by (simp add: watch_reason_def watch_count_def watch_tick_counts fresh_watch_def
        word_less_nat_alt word_le_nat_alt)
qed

lemma silent_run:
  assumes "n < 18446744073709551615"
  shows "verdict ((watch_tick ^^ n) fresh_watch) \<noteq> KeepConnection \<longleftrightarrow> 76 \<le> n"
proof (cases "n \<le> 15")
  case True
  have "\<forall>i<n. \<not> watch_alarm ((watch_tick ^^ i) fresh_watch)"
    using True assms by (simp add: silent_alarm_iff)
  from quality_watch.calm_run [OF this] show ?thesis using True by (simp add: fresh_watch_def)
next
  case False
  let ?s = "(watch_tick ^^ 15) fresh_watch"
  have calm: "\<forall>i<15. \<not> watch_alarm ((watch_tick ^^ i) fresh_watch)"
    by (simp add: silent_alarm_iff)
  from quality_watch.calm_run [OF calm]
  have start: "unat (consideringLevel ?s) = 0" "verdict ?s = KeepConnection"
    by (simp_all add: fresh_watch_def)
  have split_run: "(watch_tick ^^ i) ?s = (watch_tick ^^ (i + 15)) fresh_watch" for i
    by (simp add: funpow_add)
  have "\<forall>i<n - 15. watch_alarm ((watch_tick ^^ i) ?s)"
    using assms by (simp add: split_run silent_alarm_iff del: funpow.simps)
  from quality_watch.alarmed_run [OF this] start assms
  have "verdict ((watch_tick ^^ (n - 15)) ?s) \<noteq> KeepConnection \<longleftrightarrow> 0 < n - 15 \<and> 60 < n - 15"
    by simp
  then show ?thesis using False by (auto simp: split_run)
qed

text \<open>
  When the server falls silent the client gives up after exactly 76 ticks: starting from a
  reset quality, after n updates in the synced state without any report in between, the
  recommendation to disconnect is there if and only if n is at least 76 (16 ticks until the
  missing steps count as trouble, and 61 troubled ticks).
\<close>

theorem silent_server_disconnect:
  assumes "n < 18446744073709551615"
  shows "nimbleClientConnectionQualityShouldDisconnect
      ((nimbleClientConnectionQualityUpdate L NimbleClientStateSynced ^^ n)
        (nimbleClientConnectionQualityReset L q)) \<longleftrightarrow> 76 \<le> n"
  by (simp add: should_disconnect_watch watch_of_updates watch_of_reset silent_run assms)

theorem silent_server_disconnect_witness:
  "nimbleClientConnectionQualityShouldDisconnect
      ((nimbleClientConnectionQualityUpdate sampleLib NimbleClientStateSynced ^^ 76)
        (nimbleClientConnectionQualityReset sampleLib sample_quality))
   \<and> \<not> nimbleClientConnectionQualityShouldDisconnect
      ((nimbleClientConnectionQualityUpdate sampleLib NimbleClientStateSynced ^^ 75)
        (nimbleClientConnectionQualityReset sampleLib sample_quality))"
  using silent_server_disconnect [of 76 sampleLib sample_quality]
    silent_server_disconnect [of 75 sampleLib sample_quality] by simp

section \<open>Any order of reports\<close>

text \<open>The calls the client makes on the quality, in any order.\<close>

datatype quality_event =
    Tick NimbleClientState
  | Dropped size_t
  | UsableDatagram
  | AuthoritativeSteps size_t
  | StepLatency size_t

fun quality_step ::
    "('x, 'b) stats_lib_scheme \<Rightarrow> quality_event \<Rightarrow> 'x NimbleClientConnectionQuality
     \<Rightarrow> 'x NimbleClientConnectionQuality" where
  "quality_step L (Tick st) q = nimbleClientConnectionQualityUpdate L st q"
| "quality_step L (Dropped n) q = nimbleClientConnectionQualityDroppedDatagrams L n q"
| "quality_step L UsableDatagram q = nimbleClientConnectionQualityReceivedUsableDatagram L q"
| "quality_step L (AuthoritativeSteps n) q =
     nimbleClientConnectionQualityReceivedAuthoritativeSteps n q"
| "quality_step L (StepLatency n) q = nimbleClientConnectionQualityGameStepLatency L n q"

fun watch_step :: "quality_event \<Rightarrow> watch \<Rightarrow> watch" where
  "watch_step (Tick st) s = (if st = NimbleClientStateSynced then watch_tick s else s)"
| "watch_step UsableDatagram s = s\<lparr>silentDatagramTicks := 0\<rparr>"
| "watch_step (AuthoritativeSteps n) s = s\<lparr>silentStepTicks := 0\<rparr>"
| "watch_step _ s = s"

text \<open>The simulation: the four watched fields follow the abstract step.\<close>

lemma watch_of_step: "watch_of (quality_step L e q) = watch_step e (watch_of q)"
  by (cases e)
    (simp_all add: watch_of_update nimbleClientConnectionQualityDroppedDatagrams_def
      nimbleClientConnectionQualityReceivedUsableDatagram_def Let_def
      nimbleClientConnectionQualityReceivedAuthoritativeSteps_def
      nimbleClientConnectionQualityGameStepLatency_def,
     simp_all add: watch_of_def)

lemma watch_of_run: "watch_of (fold (quality_step L) es q) = fold watch_step es (watch_of q)"
  by (induction es arbitrary: q) (simp_all add: watch_of_step)

text \<open>
  C25. The connection quality refines the watchdog: over any sequence of ticks and reports, what
  decides on a disconnect in the code's record (two tick counters, the level of consideration and
  the verdict) is what the abstract watchdog has, which knows no latency, no rating and no logging;
  and the client is told to disconnect exactly when the watchdog's verdict is not to keep the
  connection.
\<close>

theorem quality_refines_watchdog:
  "watch_of (fold (quality_step L) es q) = fold watch_step es (watch_of q)
   \<and> (nimbleClientConnectionQualityShouldDisconnect (fold (quality_step L) es q)
        \<longleftrightarrow> verdict (fold watch_step es (watch_of q)) \<noteq> KeepConnection)"
  by (simp add: should_disconnect_watch watch_of_run)

fun synced_ticks :: "quality_event list \<Rightarrow> nat" where
  "synced_ticks [] = 0"
| "synced_ticks (Tick st # es) =
     (if st = NimbleClientStateSynced then Suc (synced_ticks es) else synced_ticks es)"
| "synced_ticks (_ # es) = synced_ticks es"

text \<open>How far the trouble can have gone after \<open>n\<close> ticks.\<close>

definition watch_within :: "nat \<Rightarrow> watch \<Rightarrow> bool" where
  "watch_within n s \<longleftrightarrow>
     unat (silentDatagramTicks s) \<le> n \<and> unat (silentStepTicks s) \<le> n
     \<and> unat (consideringLevel s) \<le> n - 15
     \<and> (verdict s \<noteq> KeepConnection \<longrightarrow> 76 \<le> n)"

lemma watch_within_tick:
  assumes "watch_within n s"
  shows "watch_within (Suc n) (watch_tick s)"
proof -
  let ?c = "watch_count s"
  have c: "unat (silentDatagramTicks ?c) \<le> Suc n" "unat (silentStepTicks ?c) \<le> Suc n"
    "consideringLevel ?c = consideringLevel s" "verdict ?c = verdict s"
    using assms unat_inc_le [of "silentDatagramTicks s"] unat_inc_le [of "silentStepTicks s"]
    by (auto simp: watch_within_def watch_count_def)
  show ?thesis
  proof (cases "watch_reason ?c = KeepConnection")
    case True
    then show ?thesis using assms c
      by (auto simp: watch_tick_def watch_judge_def watch_within_def unat_dec)
  next
    case False
    then have late: "15 \<le> n"
      using c by (auto simp: watch_reason_def word_le_nat_alt word_less_nat_alt split: if_splits)
    have lev: "unat (consideringLevel s + 1) \<le> Suc n - 15"
      using assms late unat_inc_le [of "consideringLevel s"] by (auto simp: watch_within_def)
    moreover have "76 \<le> Suc n" if "60 < consideringLevel s + 1"
      using that lev by (simp add: word_less_nat_alt)
    ultimately show ?thesis using False assms c
      by (auto simp: watch_tick_def watch_judge_def watch_within_def)
  qed
qed

lemma watch_within_run: "watch_within n s \<Longrightarrow> watch_within (n + synced_ticks es) (fold watch_step es s)"
proof (induction es arbitrary: n s)
  case (Cons e es)
  show ?case
  proof (cases e)
    case (Tick st)
    then show ?thesis
      using Cons.IH [of n s] Cons.IH [of "Suc n" "watch_tick s"] Cons.prems watch_within_tick by auto
  next
    case UsableDatagram
    have "watch_within n (s\<lparr>silentDatagramTicks := 0\<rparr>)" using Cons.prems by (simp add: watch_within_def)
    from Cons.IH [OF this] show ?thesis by (simp add: UsableDatagram)
  next
    case (AuthoritativeSteps k)
    have "watch_within n (s\<lparr>silentStepTicks := 0\<rparr>)" using Cons.prems by (simp add: watch_within_def)
    from Cons.IH [OF this] show ?thesis by (simp add: AuthoritativeSteps)
  qed (use Cons in simp_all)
qed simp

text \<open>
  C23. The client never gives up early, whatever happens: from a reset quality, after any
  sequence of updates, dropped datagrams, received datagrams, steps and latencies, a
  recommendation to disconnect implies at least 76 updates in the synced state.
\<close>

theorem no_early_disconnect:
  assumes "nimbleClientConnectionQualityShouldDisconnect
    (fold (quality_step L) es (nimbleClientConnectionQualityReset L q))"
  shows "76 \<le> synced_ticks es"
proof -
  have "watch_within 0 fresh_watch" by (simp add: watch_within_def fresh_watch_def)
  from watch_within_run [OF this, of es] assms show ?thesis
    by (simp add: should_disconnect_watch watch_of_run watch_of_reset watch_within_def)
qed

lemma fold_synced_ticks:
  "fold watch_step (replicate n (Tick NimbleClientStateSynced)) s = (watch_tick ^^ n) s"
  by (induction n arbitrary: s) (simp_all add: funpow_swap1)

lemma synced_ticks_replicate [simp]:
  "synced_ticks (replicate n (Tick NimbleClientStateSynced)) = n"
  by (induction n) simp_all

theorem no_early_disconnect_witness:
  "76 \<le> synced_ticks (replicate 80 (Tick NimbleClientStateSynced))"
proof (rule no_early_disconnect [where L = sampleLib and q = sample_quality])
  show "nimbleClientConnectionQualityShouldDisconnect
      (fold (quality_step sampleLib) (replicate 80 (Tick NimbleClientStateSynced))
        (nimbleClientConnectionQualityReset sampleLib sample_quality))"
    unfolding should_disconnect_watch watch_of_run watch_of_reset fold_synced_ticks
    by (rule silent_run [THEN iffD2]) simp_all
qed

lemma verdict_step: "verdict s \<noteq> KeepConnection \<Longrightarrow> verdict (watch_step e s) \<noteq> KeepConnection"
  by (cases e) (auto simp: watch_tick_def watch_judge_def watch_count_def)

lemma verdict_run: "verdict s \<noteq> KeepConnection \<Longrightarrow> verdict (fold watch_step es s) \<noteq> KeepConnection"
  by (induction es arbitrary: s) (simp_all add: verdict_step)

text \<open>
  A recommendation to disconnect stays, whatever is reported afterwards; only a reset
  takes it back, and then every watched field starts over.
\<close>

theorem disconnect_latched:
  assumes "nimbleClientConnectionQualityShouldDisconnect q"
  shows "nimbleClientConnectionQualityShouldDisconnect (fold (quality_step L) es q)
    \<and> \<not> nimbleClientConnectionQualityShouldDisconnect (nimbleClientConnectionQualityReset L q)
    \<and> watch_of (nimbleClientConnectionQualityReset L q) = fresh_watch"
  using assms verdict_run [of "watch_of q" es]
  by (simp add: should_disconnect_watch watch_of_run watch_of_reset) (simp add: fresh_watch_def)

theorem disconnect_latched_witness:
  "nimbleClientConnectionQualityShouldDisconnect
     (fold (quality_step sampleLib) [UsableDatagram, AuthoritativeSteps 3, Tick NimbleClientStateSynced]
       (sample_quality\<lparr>reason := NotReceivingStepsFromServer\<rparr>))"
  using disconnect_latched [of "sample_quality\<lparr>reason := NotReceivingStepsFromServer\<rparr>" sampleLib
      "[UsableDatagram, AuthoritativeSteps 3, Tick NimbleClientStateSynced]"]
  by (simp add: nimbleClientConnectionQualityShouldDisconnect_def del: fold_Cons_rev)

text \<open>
  A sequence in which the server serves: since the last datagram fewer than 40 and since
  the last steps at most 15 ticks have passed before every tick is over.
\<close>

fun well_served :: "nat \<Rightarrow> nat \<Rightarrow> quality_event list \<Rightarrow> bool" where
  "well_served d s [] = True"
| "well_served d s (Tick st # es) =
     (if st = NimbleClientStateSynced
      then Suc d < 40 \<and> Suc s \<le> 15 \<and> well_served (Suc d) (Suc s) es
      else well_served d s es)"
| "well_served d s (UsableDatagram # es) = well_served 0 s es"
| "well_served d s (AuthoritativeSteps n # es) = well_served d 0 es"
| "well_served d s (_ # es) = well_served d s es"

lemma watch_tick_calm:
  assumes "unat (silentDatagramTicks s) = d" "unat (silentStepTicks s) = k" "Suc d < 40" "Suc k \<le> 15"
    and "consideringLevel s = 0"
  shows "unat (silentDatagramTicks (watch_tick s)) = Suc d"
    and "unat (silentStepTicks (watch_tick s)) = Suc k"
    and "consideringLevel (watch_tick s) = 0" and "verdict (watch_tick s) = verdict s"
  using assms
  by (simp_all add: watch_tick_def watch_judge_def watch_count_def watch_reason_def unat_inc
      word_le_nat_alt word_less_nat_alt)

lemma well_served_run:
  assumes "unat (silentDatagramTicks w) = d" "unat (silentStepTicks w) = k"
    and "consideringLevel w = 0" "verdict w = KeepConnection" "well_served d k es"
  shows "verdict (fold watch_step es w) = KeepConnection
       \<and> consideringLevel (fold watch_step es w) = 0"
  using assms
proof (induction d k es arbitrary: w rule: well_served.induct)
  case (2 d s st es)
  show ?case
  proof (cases "st = NimbleClientStateSynced")
    case True
    with 2 have "Suc d < 40" "Suc s \<le> 15" and rest: "well_served (Suc d) (Suc s) es" by auto
    note calm = watch_tick_calm [OF "2.prems"(1,2) this(1,2) "2.prems"(3)]
    show ?thesis using 2(1) [OF True calm(1-3) _ rest] calm(4) True "2.prems" by simp
  next
    case False
    then show ?thesis using 2 by simp
  qed
qed simp_all

text \<open>
  A client that is served is never disconnected: if in a sequence of reports every tick
  comes less than 40 ticks after the last usable datagram and at most 15 ticks after the
  last authoritative steps, then from a reset quality no recommendation to disconnect is
  made and no trouble is ever counted.
\<close>

theorem served_client_kept:
  assumes "well_served 0 0 es"
  shows "\<not> nimbleClientConnectionQualityShouldDisconnect
      (fold (quality_step L) es (nimbleClientConnectionQualityReset L q))
    \<and> consideringDisconnectCounter
      (fold (quality_step L) es (nimbleClientConnectionQualityReset L q)) = 0"
proof -
  have run: "watch_of (fold (quality_step L) es (nimbleClientConnectionQualityReset L q))
      = fold watch_step es fresh_watch"
    by (simp add: watch_of_run watch_of_reset)
  have counter: "consideringDisconnectCounter q = consideringLevel (watch_of q)"
    for q :: "'a NimbleClientConnectionQuality" by (simp add: watch_of_def)
  show ?thesis
    unfolding should_disconnect_watch counter run
    using well_served_run [of fresh_watch 0 0 es] assms(1) by (simp add: fresh_watch_def)
qed

theorem served_client_kept_witness:
  "\<not> nimbleClientConnectionQualityShouldDisconnect
     (fold (quality_step sampleLib)
       [Tick NimbleClientStateSynced, UsableDatagram, AuthoritativeSteps 1, Tick NimbleClientStateSynced]
       (nimbleClientConnectionQualityReset sampleLib sample_quality))"
  using served_client_kept [of "[Tick NimbleClientStateSynced, UsableDatagram, AuthoritativeSteps 1,
      Tick NimbleClientStateSynced]" sampleLib sample_quality]
  by simp

section \<open>Logging\<close>

lemma evaluate_eq:
  "snd (evaluate L q) =
     q\<lparr>lastLatencyMs := (if avgIsSet (qualityLatencyMsStat q)
                          then size_of_int (avg (qualityLatencyMsStat q)) else lastLatencyMs q),
       qualityRating := word_of_int \<lfloor>f32_mul (total_degrade q) 5\<rfloor>,
       ratingStat := statsIntAdd L (ratingStat q)
         (uint (word_of_int \<lfloor>f32_mul (total_degrade q) 5\<rfloor> :: u8))\<rparr>"
  by (simp add: evaluate_def Let_def total_degrade_def jitter_latency_def)

text \<open>In trouble the rating is 0, at 40 silent ticks as well as beyond.\<close>

lemma total_degrade_alarmed:
  assumes "fst (evaluate L q) \<noteq> KeepConnection"
  shows "total_degrade q = 0"
proof -
  have "f32_of_size 30 \<noteq> 0" using f32_of_size_pos [of 30] by simp
  then have "degradeLowIsBetter 40 40 10 = 0"
    by (simp add: degradeLowIsBetter_def f32_sub_def f32_div_def)
  then show ?thesis
    using assms total_degrade_beyond [of q] order_le_less [of 40 "ticksWithoutIncomingDatagrams q"]
    by (auto simp: total_degrade_def some_indicator_beyond_def split: if_splits)
qed

definition settled :: "'x NimbleClientConnectionQuality \<Rightarrow> 'x NimbleClientConnectionQuality" where
  "settled q =
     q\<lparr>lastLatencyMs := (if avgIsSet (qualityLatencyMsStat q)
                          then size_of_int (avg (qualityLatencyMsStat q)) else lastLatencyMs q),
       qualityRating := 0\<rparr>"

lemma evaluate_alarmed:
  "fst (evaluate L q) \<noteq> KeepConnection \<Longrightarrow>
     snd (evaluate L q) = (settled q)\<lparr>ratingStat := statsIntAdd L (ratingStat q) 0\<rparr>"
  unfolding evaluate_eq by (simp add: total_degrade_alarmed settled_def)

lemma settled_idem [simp]: "settled (settled q) = settled q"
  by (simp add: settled_def)

lemma evaluate_noticeEnabled [simp]: "evaluate (L\<lparr>noticeEnabled := b\<rparr>) q = evaluate L q"
  by (simp add: evaluate_def Let_def)

text \<open>In trouble, and already evaluated once.\<close>

definition troubled :: "'x NimbleClientConnectionQuality \<Rightarrow> bool" where
  "troubled q \<longleftrightarrow> watch_reason (watch_of q) \<noteq> KeepConnection \<and> settled q = q"

lemma troubled_updates [simp]:
  "troubled (q\<lparr>ratingStat := r\<rparr>) \<longleftrightarrow> troubled q"
  "troubled (q\<lparr>consideringDisconnectCounter := c\<rparr>) \<longleftrightarrow> troubled q"
  "troubled (q\<lparr>reason := d\<rparr>) \<longleftrightarrow> troubled q"
  by (cases q; simp add: troubled_def settled_def watch_of_def watch_reason_def)+

lemma troubled_evaluate:
  "watch_reason (watch_of q) \<noteq> KeepConnection \<Longrightarrow> troubled (snd (evaluate L q))"
  using evaluate_alarmed [of L q] by (simp add: troubled_def watch_reason_of [of _ L])
     (auto simp: settled_def split: if_splits)

text \<open>A notice adds a sample of the rating 0 and nothing else.\<close>

definition forget_samples ::
    "'x StatsInt \<Rightarrow> 'x NimbleClientConnectionQuality \<Rightarrow> 'x NimbleClientConnectionQuality" where
  "forget_samples r q = q\<lparr>ratingStat := r\<rparr>"

lemma troubled_notice:
  assumes "troubled q"
  shows "forget_samples r (notice_described L q) = forget_samples r q"
    and "troubled (notice_described L q)"
proof -
  have "fst (evaluate L q) \<noteq> KeepConnection" "settled q = q"
    using assms by (simp_all add: troubled_def watch_reason_of [of _ L])
  from evaluate_alarmed [OF this(1)] this(2)
  have "notice_described L q = q\<lparr>ratingStat :=
      (if noticeEnabled L then statsIntAdd L (ratingStat q) 0 else ratingStat q)\<rparr>"
    by (simp add: notice_described_eq)
  then show "forget_samples r (notice_described L q) = forget_samples r q"
    "troubled (notice_described L q)"
    using assms by (simp_all add: forget_samples_def)
qed

lemma troubled_notice_if:
  assumes "troubled q"
  shows "forget_samples r (notice_described_if L b q) = forget_samples r q"
    and "troubled (notice_described_if L b q)"
  using assms by (auto simp: notice_described_if_def troubled_notice)

lemma forget_samples_update:
  "forget_samples r (q\<lparr>reason := d\<rparr>) = (forget_samples r q)\<lparr>reason := d\<rparr>"
  by (simp add: forget_samples_def)

lemma consider_forget:
  fixes L :: "('x, 'b) stats_lib_scheme"
  assumes "troubled q"
  shows "forget_samples r (consider_disconnect L why q) =
    forget_samples r (q\<lparr>consideringDisconnectCounter := consideringDisconnectCounter q + 1,
      reason := (if consideringDisconnectCounter q + 1 > 60 then why else reason q)\<rparr>)"
proof -
  let ?c = "consideringDisconnectCounter q + 1"
  let ?p = "q\<lparr>consideringDisconnectCounter := ?c\<rparr>"
  let ?n = "notice_described_if L (?c mod 20 = 0) (notice_described_if L (?c = 1) ?p)"
  have t: "troubled ?p" using assms by simp
  have n: "troubled ?n" "forget_samples r ?n = forget_samples r ?p"
    using t by (simp_all add: troubled_notice_if)
  have "consider_disconnect L why q = (if ?c > 60 then notice_described L (?n\<lparr>reason := why\<rparr>) else ?n)"
    by (simp add: consider_disconnect_def Let_def)
  moreover have "forget_samples r (notice_described L (?n\<lparr>reason := why\<rparr>))
      = (forget_samples r ?p)\<lparr>reason := why\<rparr>"
    using n by (simp add: troubled_notice forget_samples_update)
  ultimately show ?thesis using n(2) by (simp add: forget_samples_def)
qed

lemma update_forget_notices:
  fixes L :: "('x, 'b) stats_lib_scheme"
  shows "forget_samples r (nimbleClientConnectionQualityUpdate (L\<lparr>noticeEnabled := b\<rparr>) st q)
       = forget_samples r (nimbleClientConnectionQualityUpdate (L\<lparr>noticeEnabled := c\<rparr>) st q)"
proof -
  obtain why p where e: "evaluate L (count_tick q) = (why, p)" by fastforce
  have "troubled p" if "why \<noteq> KeepConnection"
    using that troubled_evaluate [of "count_tick q" L] e watch_reason_of [of "count_tick q" L]
    by (simp del: fst_evaluate)
  then show ?thesis
    by (simp add: nimbleClientConnectionQualityUpdate_def e consider_forget)
qed

text \<open>
  C32. Logging never changes what the client decides. Describing the quality for a notice
  evaluates it a second time, and yet an update with notices enabled leaves the same quality
  as one with notices disabled, in every field, rating included, but for the statistics of
  the rating, which take the extra samples.
\<close>

theorem logging_neutral:
  "(nimbleClientConnectionQualityUpdate (L\<lparr>noticeEnabled := True\<rparr>) st q)\<lparr>ratingStat := r\<rparr>
   = (nimbleClientConnectionQualityUpdate (L\<lparr>noticeEnabled := False\<rparr>) st q)\<lparr>ratingStat := r\<rparr>"
  using update_forget_notices [where b = True and c = False] by (simp add: forget_samples_def)

end
