(* ===== verification/GameState.thy ===== *)
theory GameState
  imports SampleLib
begin

text \<open>
  \<open>game_state.c\<close>: the buffer for the downloaded game state. The pointer \<open>gameState\<close> is an
  address, \<open>0\<close> for the null pointer; the octets behind it are in the world's heap. Reading
  past the blob and freeing what is not allocated are undefined behaviour: \<open>None\<close>.
\<close>

record 'x NimbleClientGameState =
  gameState :: addr
  gameStateOctetCount :: size_t
  stepId :: u32
  blobAllocator :: 'x

text \<open>\<open>IMPRINT_ALLOC\<close> and \<open>IMPRINT_FREE\<close> on the world; fresh memory is not initialised.\<close>

definition imprint_alloc ::
    "('x, 'w) nimble_lib \<Rightarrow> 'x \<Rightarrow> size_t \<Rightarrow> 'w world \<Rightarrow> addr \<times> 'w world" where
  "imprint_alloc L a n w =
     (let (p, o') = imprintAlloc L a n (outside w)
      in (p, w\<lparr>outside := o', heap := (heap w)(p \<mapsto> replicate (unat n) 0)\<rparr>))"

definition imprint_free ::
    "('x, 'w) nimble_lib \<Rightarrow> 'x \<Rightarrow> addr \<Rightarrow> 'w world \<Rightarrow> 'w world option" where
  "imprint_free L a p w =
     (if p \<in> dom (heap w)
      then Some (w\<lparr>outside := imprintFree L a p (outside w), heap := (heap w)(p := None)\<rparr>)
      else None)"

text \<open>\<open>tc_memcpy_octets (p, src, n)\<close>.\<close>

definition memcpy_octets :: "addr \<Rightarrow> octets \<Rightarrow> size_t \<Rightarrow> 'w world \<Rightarrow> 'w world option" where
  "memcpy_octets p src n w =
     (case heap w p of
        None \<Rightarrow> None
      | Some dst \<Rightarrow>
          if unat n \<le> length src \<and> unat n \<le> length dst
          then Some (w\<lparr>heap := (heap w)(p \<mapsto> take (unat n) src @ drop (unat n) dst)\<rparr>)
          else None)"

definition nimbleClientGameStateInit ::
    "('x, 'w) nimble_lib \<Rightarrow> 'x NimbleClientGameState \<Rightarrow> 'x \<Rightarrow> u32 \<Rightarrow> octets \<Rightarrow> size_t \<Rightarrow> 'w world
     \<Rightarrow> ('x NimbleClientGameState \<times> 'w world) option" where
  "nimbleClientGameStateInit L self allocator step src count w =
     (let self = self\<lparr>stepId := step\<rparr>;
          (p, w) = imprint_alloc L allocator count w;
          self = self\<lparr>gameState := p\<rparr>;
          self = self\<lparr>gameStateOctetCount := count\<rparr>;
          self = self\<lparr>blobAllocator := allocator\<rparr>
      in do { w \<leftarrow> memcpy_octets p src count w; Some (self, w) })"

definition nimbleClientGameStateDestroy ::
    "('x, 'w) nimble_lib \<Rightarrow> 'x NimbleClientGameState \<Rightarrow> 'w world
     \<Rightarrow> ('x NimbleClientGameState \<times> 'w world) option" where
  "nimbleClientGameStateDestroy L self w =
     do { w \<leftarrow> imprint_free L (blobAllocator self) (gameState self) w;
          Some (self\<lparr>gameState := 0, gameStateOctetCount := 0\<rparr>, w) }"

section \<open>The buffer's invariant\<close>

text \<open>The state holds no buffer, or one that is allocated with the size it records.\<close>

definition game_state_ok :: "'x NimbleClientGameState \<Rightarrow> (addr \<rightharpoonup> octets) \<Rightarrow> bool" where
  "game_state_ok g h \<longleftrightarrow>
     gameState g = 0 \<or>
     (case h (gameState g) of None \<Rightarrow> False | Some b \<Rightarrow> length b = unat (gameStateOctetCount g))"

lemma init_result:
  assumes "unat count \<le> length src"
  shows "nimbleClientGameStateInit L self a step src count w =
    (let (p, o') = imprintAlloc L a count (outside w) in
     Some (self\<lparr>gameState := p, gameStateOctetCount := count, stepId := step, blobAllocator := a\<rparr>,
       w\<lparr>outside := o', heap := (heap w)(p \<mapsto> take (unat count) src)\<rparr>))"
  using assms
  by (simp add: nimbleClientGameStateInit_def imprint_alloc_def memcpy_octets_def split: prod.split)

lemma init_undefined_iff:
  "nimbleClientGameStateInit L self a step src count w = None \<longleftrightarrow> length src < unat count"
  by (cases "unat count \<le> length src")
    (simp_all add: init_result nimbleClientGameStateInit_def imprint_alloc_def
      memcpy_octets_def not_le split: prod.split)

lemma init_SomeE:
  assumes "nimbleClientGameStateInit L self a step src count w = Some (self', w')"
  obtains p o' where "imprintAlloc L a count (outside w) = (p, o')"
    and "unat count \<le> length src"
    and "self' = self\<lparr>gameState := p, gameStateOctetCount := count, stepId := step, blobAllocator := a\<rparr>"
    and "w' = w\<lparr>outside := o', heap := (heap w)(p \<mapsto> take (unat count) src)\<rparr>"
proof -
  have "unat count \<le> length src" using assms init_undefined_iff [of L self a step src count w] by force
  then show thesis using assms that by (auto simp: init_result split: prod.splits)
qed

lemma destroy_result:
  "nimbleClientGameStateDestroy L self w =
     (if gameState self \<in> dom (heap w)
      then Some (self\<lparr>gameState := 0, gameStateOctetCount := 0\<rparr>,
             w\<lparr>outside := imprintFree L (blobAllocator self) (gameState self) (outside w),
               heap := (heap w)(gameState self := None)\<rparr>)
      else None)"
  by (simp add: nimbleClientGameStateDestroy_def imprint_free_def)

lemma game_state_ok_init:
  assumes "nimbleClientGameStateInit L self a step src count w = Some (self', w')"
  shows "game_state_ok self' (heap w')"
  using assms by (elim init_SomeE) (auto simp: game_state_ok_def)

lemma game_state_ok_destroy:
  assumes "nimbleClientGameStateDestroy L self w = Some (self', w')"
  shows "game_state_ok self' (heap w')"
  using assms by (auto simp: destroy_result game_state_ok_def split: if_splits)

lemma destroy_defined:
  assumes "game_state_ok self (heap w)" "gameState self \<noteq> 0"
  shows "\<exists>r. nimbleClientGameStateDestroy L self w = Some r"
  using assms by (auto simp: destroy_result game_state_ok_def split: option.splits)

section \<open>Properties\<close>

text \<open>
  C35. Initialising the game state copies exactly the downloaded octets into a new buffer and
  destroying it afterwards gives the heap back as it was, with the pointer null: for every
  blob at least as long as the count, provided the allocator's address was free.
\<close>

theorem game_state_init_destroy:
  assumes "unat count \<le> length src"
    and "imprintAlloc L a count (outside w) = (p, o')" "p \<notin> dom (heap w)"
  shows "\<exists>g w1 g' w2.
    nimbleClientGameStateInit L self a step src count w = Some (g, w1)
    \<and> heap w1 (gameState g) = Some (take (unat count) src)
    \<and> stepId g = step \<and> gameStateOctetCount g = count
    \<and> nimbleClientGameStateDestroy L g w1 = Some (g', w2)
    \<and> gameState g' = 0 \<and> gameStateOctetCount g' = 0 \<and> heap w2 = heap w"
  using assms by (simp add: init_result destroy_result fun_upd_idem domIff)

theorem game_state_init_destroy_witness:
  "\<exists>g w1 g' w2.
    nimbleClientGameStateInit sampleLib \<lparr>gameState = 0, gameStateOctetCount = 0, stepId = 0, blobAllocator = []\<rparr>
      [] 7 [1, 2, 3] 2 (sample_world []) = Some (g, w1)
    \<and> heap w1 (gameState g) = Some (take (unat (2 :: size_t)) [1, 2, 3])
    \<and> stepId g = 7 \<and> gameStateOctetCount g = 2
    \<and> nimbleClientGameStateDestroy sampleLib g w1 = Some (g', w2)
    \<and> gameState g' = 0 \<and> gameStateOctetCount g' = 0 \<and> heap w2 = heap (sample_world [])"
  by (rule game_state_init_destroy [where p = 1 and o' = "([], 100, 1)"])
    (simp_all add: sampleLib_def sample_world_def)

end
