(* ===== verification/Client.thy ===== *)
theory Client
  imports QualityProperties GameState
begin

text \<open>
  \<open>client.h\<close> and the life cycle of \<open>client.c\<close>: the client's record, reset, initialisation,
  destruction, the participant lookup. Initialisation starts from whatever the memory held:
  a field the code does not write keeps its old value. The logging sink is left out.
\<close>

record 'x NimbleClient =
  waitTime :: int
  state :: NimbleClientState
  joinParticipantPhase :: NimbleJoiningState
  localParticipantLookup :: "NimbleClientParticipantEntry list"
  localParticipantCount :: size_t
  transport :: 'x
  outSteps :: "'x NbsSteps"
  authoritativePendingStepsFromServer :: 'x
  authoritativeStepsFromServer :: "'x NbsSteps"
  receivedStepIdByServerOnlyForDebug :: u32
  joinedGameState :: "'x NimbleClientGameState"
  joinStateChannel :: nat
  blobStreamInLogic :: 'x
  blobStreamIn :: "'x BlobStreamIn"
  downloadStateClientRequestId :: u8
  joinStateId :: u32
  frame :: size_t
  useStats :: bool
  statsCounter :: size_t
  waitingStepsFromServer :: "'x StatsInt"
  stepCountInIncomingBufferOnServerStat :: "'x StatsInt"
  authoritativeBufferDeltaStat :: "'x StatsInt"
  latencyMsStat :: "'x StatsInt"
  outgoingStepsInQueue :: "'x StatsInt"
  packetsPerSecondOut :: 'x
  packetsPerSecondIn :: 'x
  simulationStepsPerSecond :: 'x
  sentStepsDatagramCountPerSecond :: 'x
  memory :: 'x
  blobStreamAllocator :: 'x
  partyAndSessionSecret :: 'x
  joinGameRequest :: "'x NimbleSerializeJoinGameRequest"
  orderedDatagramOut :: 'x
  orderedDatagramIn :: 'x
  maximumSingleParticipantStepOctetCount :: size_t
  maximumNumberOfParticipants :: size_t
  applicationVersion :: 'x
  connectRequestId :: nat
  lastUpdateMonotonicMsIsSet :: bool
  lastUpdateMonotonicMs :: int
  expectedTickDurationMs :: size_t
  tickDuration :: "'x StatsInt"
  latencyMs :: size_t
  lagometer :: 'x
  quality :: "'x NimbleClientConnectionQuality"
  useDebugStreams :: bool
  remoteConnectionId :: u8
  wantsDebugStreams :: bool
  loggingTickCount :: u32

section \<open>Reset and initialisation\<close>

text \<open>The loop that clears the eight entries of the participant lookup.\<close>

definition clearParticipantLookup ::
    "NimbleClientParticipantEntry list \<Rightarrow> NimbleClientParticipantEntry list" where
  "clearParticipantLookup entries =
     fold (\<lambda>i es. es[i := (es ! i)\<lparr>isUsed := False, participantId := 0, localUserDeviceIndex := 0\<rparr>])
       [0..<NIMBLE_CLIENT_MAX_LOCAL_USERS_COUNT] entries"

text \<open>Lines up to the reading of the clock, then the rest of \<open>nimbleClientReset\<close>.\<close>

definition resetSteps ::
    "('x, 'w) nimble_lib \<Rightarrow> 'x NimbleClient \<Rightarrow> 'w world \<Rightarrow> 'x NimbleClient \<times> 'w world" where
  "resetSteps L self w =
     (let self = self\<lparr>outSteps := nbsStepsReset L (outSteps self)\<rparr>;
          self = self\<lparr>authoritativePendingStepsFromServer :=
                   nbsPendingStepsReset L (authoritativePendingStepsFromServer self) 0\<rparr>;
          combinedStepOctetCount = nbsStepsOutSerializeCalculateCombinedSize L
            (maximumNumberOfParticipants self) (maximumSingleParticipantStepOctetCount self);
          (steps, w) = steps_init L (authoritativeStepsFromServer self) (memory self)
            combinedStepOctetCount w;
          self = self\<lparr>authoritativeStepsFromServer := steps\<rparr>;
          self = self\<lparr>receivedStepIdByServerOnlyForDebug := NIMBLE_STEP_MAX L\<rparr>;
          self = self\<lparr>localParticipantCount := 0\<rparr>
      in (self\<lparr>localParticipantLookup := clearParticipantLookup (localParticipantLookup self)\<rparr>, w))"

definition resetStats ::
    "('x, 'w) nimble_lib \<Rightarrow> int \<Rightarrow> 'x NimbleClient \<Rightarrow> 'x NimbleClient" where
  "resetStats L now self = self\<lparr>
     waitingStepsFromServer := statsIntInit L (waitingStepsFromServer self) 20,
     outgoingStepsInQueue := statsIntInit L (outgoingStepsInQueue self) 20,
     stepCountInIncomingBufferOnServerStat :=
       statsIntInit L (stepCountInIncomingBufferOnServerStat self) 20,
     tickDuration := statsIntInit L (tickDuration self) 20,
     latencyMsStat := statsIntInit L (latencyMsStat self) 20,
     lastUpdateMonotonicMsIsSet := False,
     authoritativeBufferDeltaStat := statsIntInit L (authoritativeBufferDeltaStat self) 10,
     packetsPerSecondOut := statsIntPerSecondInit L (packetsPerSecondOut self) now 1000,
     packetsPerSecondIn := statsIntPerSecondInit L (packetsPerSecondIn self) now 1000,
     simulationStepsPerSecond := statsIntPerSecondInit L (simulationStepsPerSecond self) now 1000,
     sentStepsDatagramCountPerSecond :=
       statsIntPerSecondInit L (sentStepsDatagramCountPerSecond self) now 1000,
     useStats := True\<rparr>"

definition dropJoinedGameState ::
    "('x, 'w) nimble_lib \<Rightarrow> 'x NimbleClient \<Rightarrow> 'w world \<Rightarrow> ('x NimbleClient \<times> 'w world) option" where
  "dropJoinedGameState L self w =
     (if gameState (joinedGameState self) \<noteq> 0
      then do { (g, w) \<leftarrow> nimbleClientGameStateDestroy L (joinedGameState self) w;
                Some (self\<lparr>joinedGameState := g\<rparr>, w) }
      else Some (self, w))"

definition nimbleClientReset ::
    "('x, 'w) nimble_lib \<Rightarrow> 'x NimbleClient \<Rightarrow> 'w world \<Rightarrow> ('x NimbleClient \<times> 'w world) option" where
  "nimbleClientReset L self w =
     (let (self, w) = resetSteps L self w;
          (now, w) = time_now L w;
          self = resetStats L now self;
          self = self\<lparr>state := NimbleClientStateIdle\<rparr>
      in do {
        (self, w) \<leftarrow> dropJoinedGameState L self w;
        let self = self\<lparr>joinedGameState := (joinedGameState self)\<lparr>gameState := 0\<rparr>\<rparr>;
        let self = self\<lparr>downloadStateClientRequestId := 1\<rparr>;
        let self = self\<lparr>quality := nimbleClientConnectionQualityReset L (quality self)\<rparr>;
        let self = self\<lparr>orderedDatagramIn := orderedDatagramInLogicInit L (orderedDatagramIn self)\<rparr>;
        let self = self\<lparr>orderedDatagramOut := orderedDatagramOutLogicInit L (orderedDatagramOut self)\<rparr>;
        let self = self\<lparr>lagometer := lagometerInit L (lagometer self)\<rparr>;
        Some (self, w)
      })"

definition nimbleClientReInit ::
    "('x, 'w) nimble_lib \<Rightarrow> 'x NimbleClient \<Rightarrow> 'x \<Rightarrow> 'w world
     \<Rightarrow> ('x NimbleClient \<times> 'w world) option" where
  "nimbleClientReInit L self newTransport w =
     (let self = self\<lparr>transport := newTransport\<rparr> in nimbleClientReset L self w)"

text \<open>
  Initialisation, up to its call of \<open>nimbleClientReInit\<close> and then whole. The two size checks
  only log; initialisation goes on past them.
\<close>

definition initBeforeReInit ::
    "('x, 'w) nimble_lib \<Rightarrow> 'x NimbleClient \<Rightarrow> 'x \<Rightarrow> 'x \<Rightarrow> 'x \<Rightarrow> size_t \<Rightarrow> size_t \<Rightarrow> 'x \<Rightarrow> bool
     \<Rightarrow> 'w world \<Rightarrow> 'x NimbleClient \<times> 'w world" where
  "initBeforeReInit L self mem blobAlloc newTransport maxStepOctets maxParticipants version wantsDebug w =
     (let self = self\<lparr>useDebugStreams := False, wantsDebugStreams := wantsDebug,
                   applicationVersion := version, connectRequestId := 0, remoteConnectionId := 0\<rparr>;
          self = self\<lparr>memory := mem, expectedTickDurationMs := 16, blobStreamAllocator := blobAlloc,
                   joinedGameState := (joinedGameState self)\<lparr>gameState := 0\<rparr>,
                   maximumSingleParticipantStepOctetCount := maxStepOctets,
                   maximumNumberOfParticipants := maxParticipants,
                   state := NimbleClientStateIdle, transport := newTransport\<rparr>;
          combinedStepOctetCount =
            nbsStepsOutSerializeCalculateCombinedSize L maxParticipants maxStepOctets;
          (steps, w) = steps_init L (outSteps self) mem combinedStepOctetCount w;
          self = self\<lparr>outSteps := steps\<rparr>;
          (pending, w) = pending_steps_init L (authoritativePendingStepsFromServer self) 0 blobAlloc w;
          self = self\<lparr>authoritativePendingStepsFromServer := pending\<rparr>;
          (steps, w) = steps_init L (authoritativeStepsFromServer self) (memory self)
            combinedStepOctetCount w
      in (self\<lparr>authoritativeStepsFromServer := steps\<rparr>, w))"

definition nimbleClientInit ::
    "('x, 'w) nimble_lib \<Rightarrow> 'x NimbleClient \<Rightarrow> 'x \<Rightarrow> 'x \<Rightarrow> 'x \<Rightarrow> size_t \<Rightarrow> size_t \<Rightarrow> 'x \<Rightarrow> bool
     \<Rightarrow> 'w world \<Rightarrow> (int \<times> 'x NimbleClient \<times> 'w world) option" where
  "nimbleClientInit L self mem blobAlloc newTransport maxStepOctets maxParticipants version wantsDebug w =
     (let (self, w) = initBeforeReInit L self mem blobAlloc newTransport maxStepOctets
            maxParticipants version wantsDebug w
      in do {
        (self, w) \<leftarrow> nimbleClientReInit L self newTransport w;
        let self = self\<lparr>quality := nimbleClientConnectionQualityInit L (quality self)\<rparr>;
        Some (0, self, w)
      })"

definition nimbleClientDestroy ::
    "('x, 'w) nimble_lib \<Rightarrow> 'x NimbleClient \<Rightarrow> 'w world \<Rightarrow> ('x NimbleClient \<times> 'w world) option" where
  "nimbleClientDestroy L self w = dropJoinedGameState L self w"

definition nimbleClientDisconnect :: "'x NimbleClient \<Rightarrow> 'x NimbleClient" where
  "nimbleClientDisconnect self = self\<lparr>state := NimbleClientStateDisconnected\<rparr>"

section \<open>Participant lookup and reading steps\<close>

text \<open>The loop from index \<open>i\<close>; reading an entry past the array is undefined.\<close>

function findParticipantFrom ::
    "NimbleClientParticipantEntry list \<Rightarrow> size_t \<Rightarrow> u8 \<Rightarrow> nat \<Rightarrow> (int \<times> u8) option" where
  "findParticipantFrom entries count index i =
     (if i < unat count then
        (if i < length entries then
           (if localUserDeviceIndex (entries ! i) = index
            then Some (1, participantId (entries ! i))
            else findParticipantFrom entries count index (Suc i))
         else None)
      else Some (-1, 0xff))"
  by pat_completeness auto
termination
  by (relation "measure (\<lambda>(es, c, x, i). unat c - i)") auto

declare findParticipantFrom.simps [simp del]

definition nimbleClientFindParticipantId :: "'x NimbleClient \<Rightarrow> u8 \<Rightarrow> (int \<times> u8) option" where
  "nimbleClientFindParticipantId self index =
     findParticipantFrom (localParticipantLookup self) (localParticipantCount self) index 0"

definition nimbleClientReadStep ::
    "('x, 'w) nimble_lib \<Rightarrow> 'x NimbleClient \<Rightarrow> size_t \<Rightarrow> int \<times> u32 \<times> octets \<times> 'x NimbleClient" where
  "nimbleClientReadStep L self maxTarget =
     (let (r, outStepId, target, steps) = nbsStepsRead L (authoritativeStepsFromServer self) maxTarget
      in (r, outStepId, target, self\<lparr>authoritativeStepsFromServer := steps\<rparr>))"

end
