(* ===== verification/ClientLifecycle.thy ===== *)
theory ClientLifecycle
  imports Client
begin

text \<open>
  The invariant of the client and its life cycle: initialisation establishes it from any
  memory, reset keeps it and frees the downloaded state, the participant lookup is the
  search that its documentation promises.
\<close>

section \<open>The client's invariant\<close>

text \<open>
  The lookup has its eight entries and the count stays within them, the tick duration that
  later code divides by is the 16 ms of the initialisation, and the game state is null or
  an allocated buffer of the recorded size.
\<close>

definition client_ok :: "'x NimbleClient \<Rightarrow> (addr \<rightharpoonup> octets) \<Rightarrow> bool" where
  "client_ok c h \<longleftrightarrow>
     length (localParticipantLookup c) = NIMBLE_CLIENT_MAX_LOCAL_USERS_COUNT
     \<and> unat (localParticipantCount c) \<le> NIMBLE_CLIENT_MAX_LOCAL_USERS_COUNT
     \<and> expectedTickDurationMs c = 16
     \<and> game_state_ok (joinedGameState c) h"

lemma clearParticipantLookup_eq:
  assumes "length es = NIMBLE_CLIENT_MAX_LOCAL_USERS_COUNT"
  shows "clearParticipantLookup es =
    replicate NIMBLE_CLIENT_MAX_LOCAL_USERS_COUNT
      \<lparr>isUsed = False, localUserDeviceIndex = 0, participantId = 0\<rparr>"
proof -
  obtain a b c d e f g h where "es = [a, b, c, d, e, f, g, h]"
    using assms by (auto simp: NIMBLE_CLIENT_MAX_LOCAL_USERS_COUNT_def length_Suc_conv eval_nat_numeral)
  then show ?thesis
    by (simp add: clearParticipantLookup_def NIMBLE_CLIENT_MAX_LOCAL_USERS_COUNT_def
        upt_rec eval_nat_numeral)
qed

lemma dropJoinedGameState_SomeE:
  assumes "dropJoinedGameState L c w = Some (c', w')"
  obtains g where "c' = c\<lparr>joinedGameState := g\<rparr>" "gameState g = 0"
    and "heap w' = (if gameState (joinedGameState c) = 0 then heap w
                    else (heap w)(gameState (joinedGameState c) := None))"
    and "trace w' = trace w"
proof (cases "gameState (joinedGameState c) = 0")
  case True
  then show thesis using assms that [of "joinedGameState c"] by (simp add: dropJoinedGameState_def)
next
  case False
  then obtain g where "nimbleClientGameStateDestroy L (joinedGameState c) w = Some (g, w')"
      "c' = c\<lparr>joinedGameState := g\<rparr>"
    using assms by (auto simp: dropJoinedGameState_def)
  with False that [of g] show thesis by (auto simp: destroy_result split: if_splits)
qed

lemma dropJoinedGameState_defined:
  "game_state_ok (joinedGameState c) (heap w) \<Longrightarrow> \<exists>r. dropJoinedGameState L c w = Some r"
  using destroy_defined [of "joinedGameState c" w L]
  by (auto simp: dropJoinedGameState_def)

lemma resetSteps_frame:
  assumes "resetSteps L c w = (c', w')"
  shows "heap w' = heap w" "trace w' = trace w"
    and "joinedGameState c' = joinedGameState c"
    and "localParticipantCount c' = 0"
    and "localParticipantLookup c' = clearParticipantLookup (localParticipantLookup c)"
    and "expectedTickDurationMs c' = expectedTickDurationMs c"
    and "waitTime c' = waitTime c" "joinStateChannel c' = joinStateChannel c"
    and "joinParticipantPhase c' = joinParticipantPhase c"
    and "blobStreamIn c' = blobStreamIn c" "remoteConnectionId c' = remoteConnectionId c"
    and "transport c' = transport c" "quality c' = quality c"
    and "blobStreamInLogic c' = blobStreamInLogic c"
  using assms by (auto simp: resetSteps_def Let_def frame_simps split: prod.splits)

lemma resetStats_frame [simp]:
  "joinedGameState (resetStats L now c) = joinedGameState c"
  "localParticipantCount (resetStats L now c) = localParticipantCount c"
  "localParticipantLookup (resetStats L now c) = localParticipantLookup c"
  "expectedTickDurationMs (resetStats L now c) = expectedTickDurationMs c"
  "waitTime (resetStats L now c) = waitTime c"
  "joinStateChannel (resetStats L now c) = joinStateChannel c"
  "joinParticipantPhase (resetStats L now c) = joinParticipantPhase c"
  "blobStreamIn (resetStats L now c) = blobStreamIn c"
  "blobStreamInLogic (resetStats L now c) = blobStreamInLogic c"
  "remoteConnectionId (resetStats L now c) = remoteConnectionId c"
  "transport (resetStats L now c) = transport c"
  "quality (resetStats L now c) = quality c"
  "useStats (resetStats L now c)"
  by (simp_all add: resetStats_def)

text \<open>What a reset gives: its shape, and field by field.\<close>

lemma reset_form:
  assumes "nimbleClientReset L c w = Some (c', w')"
  shows "\<exists>c1 w1 now g. resetSteps L c w = (c1, w1) \<and> gameState g = 0
    \<and> c' = (resetStats L now c1)\<lparr>state := NimbleClientStateIdle, joinedGameState := g,
        downloadStateClientRequestId := 1,
        quality := nimbleClientConnectionQualityReset L (quality c1),
        orderedDatagramIn := orderedDatagramInLogicInit L (orderedDatagramIn (resetStats L now c1)),
        orderedDatagramOut := orderedDatagramOutLogicInit L (orderedDatagramOut (resetStats L now c1)),
        lagometer := lagometerInit L (lagometer (resetStats L now c1))\<rparr>
    \<and> heap w' = (if gameState (joinedGameState c) = 0 then heap w
                   else (heap w)(gameState (joinedGameState c) := None))
    \<and> trace w' = trace w"
proof -
  obtain c1 w1 where r: "resetSteps L c w = (c1, w1)" by fastforce
  obtain now w2 where t: "time_now L w1 = (now, w2)" by fastforce
  have hw: "heap w2 = heap w" "trace w2 = trace w"
    using resetSteps_frame [OF r] frame_simps t by metis+
  let ?c2 = "(resetStats L now c1)\<lparr>state := NimbleClientStateIdle\<rparr>"
  obtain c3 where d: "dropJoinedGameState L ?c2 w2 = Some (c3, w')"
    and c': "c' = c3\<lparr>joinedGameState := (joinedGameState c3)\<lparr>gameState := 0\<rparr>,
      downloadStateClientRequestId := 1,
      quality := nimbleClientConnectionQualityReset L (quality c3),
      orderedDatagramIn := orderedDatagramInLogicInit L (orderedDatagramIn c3),
      orderedDatagramOut := orderedDatagramOutLogicInit L (orderedDatagramOut c3),
      lagometer := lagometerInit L (lagometer c3)\<rparr>"
    using assms by (auto simp: nimbleClientReset_def r t Let_def)
  from d obtain g where "c3 = ?c2\<lparr>joinedGameState := g\<rparr>" "gameState g = 0"
    and "heap w' = (if gameState (joinedGameState c) = 0 then heap w
                    else (heap w)(gameState (joinedGameState c) := None))" "trace w' = trace w"
    by (elim dropJoinedGameState_SomeE) (auto simp: resetSteps_frame [OF r] hw)
  then show ?thesis
    by (intro exI [of _ c1] exI [of _ w1] exI [of _ now] exI [of _ "g\<lparr>gameState := 0\<rparr>"])
       (simp add: r c')
qed

lemma reset_SomeD:
  assumes "nimbleClientReset L c w = Some (c', w')"
  shows "state c' = NimbleClientStateIdle" "gameState (joinedGameState c') = 0"
    and "localParticipantCount c' = 0" "useStats c'" "downloadStateClientRequestId c' = 1"
    and "localParticipantLookup c' = clearParticipantLookup (localParticipantLookup c)"
    and "quality c' = nimbleClientConnectionQualityReset L (quality c)"
    and "expectedTickDurationMs c' = expectedTickDurationMs c"
    and "waitTime c' = waitTime c" "joinStateChannel c' = joinStateChannel c"
    and "joinParticipantPhase c' = joinParticipantPhase c"
    and "blobStreamIn c' = blobStreamIn c" "remoteConnectionId c' = remoteConnectionId c"
    and "transport c' = transport c"
    and "heap w' = (if gameState (joinedGameState c) = 0 then heap w
                    else (heap w)(gameState (joinedGameState c) := None))"
    and "trace w' = trace w" "blobStreamInLogic c' = blobStreamInLogic c"
  by (insert reset_form [OF assms]; elim exE conjE; simp add: resetSteps_frame)+

lemma reset_defined:
  assumes "game_state_ok (joinedGameState c) (heap w)"
  shows "\<exists>r. nimbleClientReset L c w = Some r"
proof -
  obtain c1 w1 where r: "resetSteps L c w = (c1, w1)" by fastforce
  obtain now w2 where t: "time_now L w1 = (now, w2)" by fastforce
  have "heap w2 = heap w" using resetSteps_frame [OF r] frame_simps t by metis
  then have "\<exists>p. dropJoinedGameState L ((resetStats L now c1)\<lparr>state := NimbleClientStateIdle\<rparr>) w2 = Some p"
    by (intro dropJoinedGameState_defined) (simp add: resetSteps_frame [OF r] assms)
  then show ?thesis by (auto simp: nimbleClientReset_def r t Let_def)
qed

lemma reset_ok:
  assumes "nimbleClientReset L c w = Some (c', w')" "client_ok c (heap w)"
  shows "client_ok c' (heap w')"
  using assms(2) reset_SomeD [OF assms(1)]
  by (simp add: client_ok_def game_state_ok_def clearParticipantLookup_eq)

lemma reinit_SomeD:
  assumes "nimbleClientReInit L c t w = Some (c', w')"
  shows "nimbleClientReset L (c\<lparr>transport := t\<rparr>) w = Some (c', w')"
  using assms by (simp add: nimbleClientReInit_def)

lemma client_ok_transport [simp]: "client_ok (c\<lparr>transport := t\<rparr>) h \<longleftrightarrow> client_ok c h"
  by (simp add: client_ok_def)

text \<open>The client after a reset, from the client before it: all that is set, and to what.\<close>

definition after_reset ::
    "('x, 'w) nimble_lib \<Rightarrow> int \<Rightarrow> 'x NbsSteps \<Rightarrow> 'x NimbleClient \<Rightarrow> 'x NimbleClient" where
  "after_reset L now steps c = c\<lparr>
     state := NimbleClientStateIdle, localParticipantCount := 0,
     localParticipantLookup := clearParticipantLookup (localParticipantLookup c),
     joinedGameState := (if gameState (joinedGameState c) = 0 then joinedGameState c
       else (joinedGameState c)\<lparr>gameState := 0, gameStateOctetCount := 0\<rparr>),
     downloadStateClientRequestId := 1,
     outSteps := nbsStepsReset L (outSteps c),
     authoritativePendingStepsFromServer := nbsPendingStepsReset L (authoritativePendingStepsFromServer c) 0,
     authoritativeStepsFromServer := steps,
     receivedStepIdByServerOnlyForDebug := NIMBLE_STEP_MAX L,
     quality := nimbleClientConnectionQualityReset L (quality c),
     orderedDatagramIn := orderedDatagramInLogicInit L (orderedDatagramIn c),
     orderedDatagramOut := orderedDatagramOutLogicInit L (orderedDatagramOut c),
     lagometer := lagometerInit L (lagometer c), useStats := True, lastUpdateMonotonicMsIsSet := False,
     waitingStepsFromServer := statsIntInit L (waitingStepsFromServer c) 20,
     outgoingStepsInQueue := statsIntInit L (outgoingStepsInQueue c) 20,
     stepCountInIncomingBufferOnServerStat := statsIntInit L (stepCountInIncomingBufferOnServerStat c) 20,
     tickDuration := statsIntInit L (tickDuration c) 20,
     latencyMsStat := statsIntInit L (latencyMsStat c) 20,
     authoritativeBufferDeltaStat := statsIntInit L (authoritativeBufferDeltaStat c) 10,
     packetsPerSecondOut := statsIntPerSecondInit L (packetsPerSecondOut c) now 1000,
     packetsPerSecondIn := statsIntPerSecondInit L (packetsPerSecondIn c) now 1000,
     simulationStepsPerSecond := statsIntPerSecondInit L (simulationStepsPerSecond c) now 1000,
     sentStepsDatagramCountPerSecond := statsIntPerSecondInit L (sentStepsDatagramCountPerSecond c) now 1000\<rparr>"

lemma reset_result:
  assumes "nimbleClientReset L c w = Some (c', w')"
    and "steps_init L (authoritativeStepsFromServer c) (memory c)
      (nbsStepsOutSerializeCalculateCombinedSize L (maximumNumberOfParticipants c)
        (maximumSingleParticipantStepOctetCount c)) w = (steps, w1)"
    and "time_now L w1 = (now, w2)"
  shows "c' = after_reset L now steps c"
  using assms
  by (auto simp: nimbleClientReset_def resetSteps_def resetStats_def dropJoinedGameState_def
      destroy_result after_reset_def Let_def split: if_splits)

section \<open>Properties\<close>

text \<open>
  C22. Resetting a client that satisfies its invariant always succeeds, keeps the invariant,
  leaves the client idle with no participants and no game state, and frees exactly the downloaded
  game state: the buffer is gone from the heap and nothing else in the heap has changed. It never
  frees twice. The three step buffers, the sequence numbers of both directions, the lagometer, the
  connection quality and its watchdog and all statistics start again, those per second at the time of the reset.
  Everything else survives: the wait, the phase of joining, the channel of the last
  download, the counters of frames and of statistics, the last latency, the connection id and the
  blob stream with its logic are those of the connection before.
\<close>

theorem reset_frees_and_keeps_invariant:
  assumes "client_ok c (heap w)"
    and "steps_init L (authoritativeStepsFromServer c) (memory c)
      (nbsStepsOutSerializeCalculateCombinedSize L (maximumNumberOfParticipants c)
        (maximumSingleParticipantStepOctetCount c)) w = (steps, w1)"
    and "time_now L w1 = (now, w2)"
  shows "\<exists>c' w'. nimbleClientReset L c w = Some (c', w')
    \<and> client_ok c' (heap w') \<and> state c' = NimbleClientStateIdle
    \<and> localParticipantCount c' = 0 \<and> (\<forall>e \<in> set (localParticipantLookup c'). \<not> isUsed e)
    \<and> watch_of (quality c') = fresh_watch
    \<and> gameState (joinedGameState c') = 0
    \<and> heap w' = (if gameState (joinedGameState c) = 0 then heap w
                  else (heap w)(gameState (joinedGameState c) := None))
    \<and> (\<exists>c'' w''. nimbleClientReset L c' w' = Some (c'', w'') \<and> heap w'' = heap w')
    \<and> outSteps c' = nbsStepsReset L (outSteps c) \<and> authoritativeStepsFromServer c' = steps
    \<and> authoritativePendingStepsFromServer c' =
        nbsPendingStepsReset L (authoritativePendingStepsFromServer c) 0
    \<and> receivedStepIdByServerOnlyForDebug c' = NIMBLE_STEP_MAX L \<and> downloadStateClientRequestId c' = 1
    \<and> orderedDatagramIn c' = orderedDatagramInLogicInit L (orderedDatagramIn c)
    \<and> orderedDatagramOut c' = orderedDatagramOutLogicInit L (orderedDatagramOut c)
    \<and> lagometer c' = lagometerInit L (lagometer c) \<and> \<not> lastUpdateMonotonicMsIsSet c' \<and> useStats c'
    \<and> quality c' = nimbleClientConnectionQualityReset L (quality c)
    \<and> waitingStepsFromServer c' = statsIntInit L (waitingStepsFromServer c) 20
    \<and> outgoingStepsInQueue c' = statsIntInit L (outgoingStepsInQueue c) 20
    \<and> stepCountInIncomingBufferOnServerStat c' = statsIntInit L (stepCountInIncomingBufferOnServerStat c) 20
    \<and> tickDuration c' = statsIntInit L (tickDuration c) 20
    \<and> latencyMsStat c' = statsIntInit L (latencyMsStat c) 20
    \<and> authoritativeBufferDeltaStat c' = statsIntInit L (authoritativeBufferDeltaStat c) 10
    \<and> packetsPerSecondOut c' = statsIntPerSecondInit L (packetsPerSecondOut c) now 1000
    \<and> packetsPerSecondIn c' = statsIntPerSecondInit L (packetsPerSecondIn c) now 1000
    \<and> simulationStepsPerSecond c' = statsIntPerSecondInit L (simulationStepsPerSecond c) now 1000
    \<and> sentStepsDatagramCountPerSecond c' =
        statsIntPerSecondInit L (sentStepsDatagramCountPerSecond c) now 1000
    \<and> waitTime c' = waitTime c \<and> joinParticipantPhase c' = joinParticipantPhase c
    \<and> joinStateChannel c' = joinStateChannel c \<and> frame c' = frame c \<and> statsCounter c' = statsCounter c
    \<and> latencyMs c' = latencyMs c \<and> remoteConnectionId c' = remoteConnectionId c
    \<and> blobStreamIn c' = blobStreamIn c \<and> blobStreamInLogic c' = blobStreamInLogic c"
proof -
  from assms(1) have "game_state_ok (joinedGameState c) (heap w)" by (simp add: client_ok_def)
  from reset_defined [OF this] obtain c' w' where r: "nimbleClientReset L c w = Some (c', w')"
    by fastforce
  have ok: "client_ok c' (heap w')" using reset_ok [OF r assms(1)] .
  then have "game_state_ok (joinedGameState c') (heap w')" by (simp add: client_ok_def)
  from reset_defined [OF this] obtain c'' w'' where r': "nimbleClientReset L c' w' = Some (c'', w'')"
    by fastforce
  have unused: "\<forall>e \<in> set (localParticipantLookup c'). \<not> isUsed e"
    using assms(1) reset_SomeD(6) [OF r] by (auto simp: client_ok_def clearParticipantLookup_eq)
  have again: "\<exists>c'' w''. nimbleClientReset L c' w' = Some (c'', w'') \<and> heap w'' = heap w'"
    using reset_SomeD(2) [OF r] reset_SomeD(15) [OF r'] r' by simp
  show ?thesis
    by (intro exI [of _ c'] exI [of _ w'] conjI r ok again unused reset_SomeD(1,2,3,15) [OF r])
       (simp_all add: reset_result [OF r assms(2,3)] after_reset_def watch_of_reset)
qed

definition sample_steps :: "octets NbsSteps" where
  "sample_steps = \<lparr>expectedReadId = 0, expectedWriteId = 0, stepsCount = 0, nbsStepsRest = []\<rparr>"

definition sample_stat :: "octets StatsInt" where
  "sample_stat = \<lparr>avg = 0, avgIsSet = False, statsIntRest = []\<rparr>"

text \<open>A client of the sample library; its state and game state are parameters.\<close>

definition sample_client ::
    "NimbleClientState \<Rightarrow> NimbleJoiningState \<Rightarrow> addr \<Rightarrow> size_t \<Rightarrow> octets NimbleClient" where
  "sample_client st phase p n = \<lparr>
     waitTime = 0, state = st, joinParticipantPhase = phase,
     localParticipantLookup = replicate 8 \<lparr>isUsed = False, localUserDeviceIndex = 0, participantId = 0\<rparr>,
     localParticipantCount = 0, transport = [], outSteps = sample_steps,
     authoritativePendingStepsFromServer = [], authoritativeStepsFromServer = sample_steps,
     receivedStepIdByServerOnlyForDebug = 0,
     joinedGameState = \<lparr>gameState = p, gameStateOctetCount = n, stepId = 0, blobAllocator = []\<rparr>,
     joinStateChannel = 0, blobStreamInLogic = [],
     blobStreamIn = \<lparr>blob = [], octetCount = 0, blobStreamInRest = []\<rparr>,
     downloadStateClientRequestId = 1, joinStateId = 0, frame = 0, useStats = True, statsCounter = 0,
     waitingStepsFromServer = sample_stat, stepCountInIncomingBufferOnServerStat = sample_stat,
     authoritativeBufferDeltaStat = sample_stat, latencyMsStat = sample_stat,
     outgoingStepsInQueue = sample_stat, packetsPerSecondOut = [], packetsPerSecondIn = [],
     simulationStepsPerSecond = [], sentStepsDatagramCountPerSecond = [], memory = [],
     blobStreamAllocator = [], partyAndSessionSecret = [],
     joinGameRequest = \<lparr>nonce = 0, joinGameRequestRest = []\<rparr>,
     orderedDatagramOut = [0], orderedDatagramIn = [0], maximumSingleParticipantStepOctetCount = 16,
     maximumNumberOfParticipants = 8, applicationVersion = [], connectRequestId = 0,
     lastUpdateMonotonicMsIsSet = False, lastUpdateMonotonicMs = 0, expectedTickDurationMs = 16,
     tickDuration = sample_stat, latencyMs = 0, lagometer = [], quality = sample_quality,
     useDebugStreams = False, remoteConnectionId = 0, wantsDebugStreams = False, loggingTickCount = 0\<rparr>"

lemma sample_client_ok:
  "client_ok (sample_client st phase p n) h \<longleftrightarrow>
     game_state_ok \<lparr>gameState = p, gameStateOctetCount = n, stepId = 0, blobAllocator = ([] :: octets)\<rparr> h"
  by (simp add: client_ok_def sample_client_def NIMBLE_CLIENT_MAX_LOCAL_USERS_COUNT_def)

theorem reset_frees_and_keeps_invariant_witness:
  "\<exists>c' w'. nimbleClientReset sampleLib
      (sample_client NimbleClientStateSynced NimbleJoiningStateJoinedParticipant 7 2)
      ((sample_world [])\<lparr>heap := [7 \<mapsto> [1, 2]]\<rparr>) = Some (c', w') \<and> heap w' = Map.empty
    \<and> joinParticipantPhase c' = NimbleJoiningStateJoinedParticipant"
proof -
  let ?c = "sample_client NimbleClientStateSynced NimbleJoiningStateJoinedParticipant 7 2"
    and ?w = "(sample_world [])\<lparr>heap := [7 \<mapsto> [1, 2]]\<rparr>"
  have ok: "client_ok ?c (heap ?w)" by (simp add: sample_client_ok game_state_ok_def)
  obtain steps w1 where i: "steps_init sampleLib (authoritativeStepsFromServer ?c) (memory ?c)
      (nbsStepsOutSerializeCalculateCombinedSize sampleLib (maximumNumberOfParticipants ?c)
        (maximumSingleParticipantStepOctetCount ?c)) ?w = (steps, w1)" by fastforce
  obtain now w2 where t: "time_now sampleLib w1 = (now, w2)" by fastforce
  from reset_frees_and_keeps_invariant [OF ok i t] obtain c' w'
    where "nimbleClientReset sampleLib ?c ?w = Some (c', w')"
      and "heap w' = (if gameState (joinedGameState ?c) = 0 then heap ?w
                  else (heap ?w)(gameState (joinedGameState ?c) := None))"
      and "joinParticipantPhase c' = joinParticipantPhase ?c" by blast
  then show ?thesis by (intro exI [of _ c'] exI [of _ w']) (simp add: sample_client_def)
qed

text \<open>Initialisation is a reset of a client that holds no game state yet.\<close>

lemma initBeforeReInit_frame:
  assumes "initBeforeReInit L c0 mem ba tr so mp ver dbg w = (c1, w1)"
  shows "heap w1 = heap w" "trace w1 = trace w"
    and "gameState (joinedGameState c1) = 0" "expectedTickDurationMs c1 = 16"
    and "localParticipantLookup c1 = localParticipantLookup c0"
    and "waitTime c1 = waitTime c0" "joinStateChannel c1 = joinStateChannel c0"
    and "joinParticipantPhase c1 = joinParticipantPhase c0" "remoteConnectionId c1 = 0"
    and "blobStreamIn c1 = blobStreamIn c0" "blobStreamInLogic c1 = blobStreamInLogic c0"
  using assms by (auto simp: initBeforeReInit_def Let_def frame_simps split: prod.splits)

lemma init_eq:
  assumes "initBeforeReInit L c0 mem ba tr so mp ver dbg w = (c1, w1)"
  shows "nimbleClientInit L c0 mem ba tr so mp ver dbg w =
    map_option (\<lambda>(c2, w2).
        (0, c2\<lparr>quality := nimbleClientConnectionQualityReset L (quality c2)\<rparr>, w2))
      (nimbleClientReset L (c1\<lparr>transport := tr\<rparr>) w1)"
  by (cases "nimbleClientReset L (c1\<lparr>transport := tr\<rparr>) w1")
     (auto simp: nimbleClientInit_def assms nimbleClientReInit_def nimbleClientConnectionQualityInit_def)

lemma init_defined:
  "\<exists>c' w'. nimbleClientInit L c0 mem ba tr so mp ver dbg w = Some (0, c', w')"
proof -
  obtain c1 w1 where i: "initBeforeReInit L c0 mem ba tr so mp ver dbg w = (c1, w1)" by fastforce
  have "game_state_ok (joinedGameState (c1\<lparr>transport := tr\<rparr>)) (heap w1)"
    by (simp add: game_state_ok_def initBeforeReInit_frame [OF i])
  from reset_defined [OF this] obtain c2 w2
    where "nimbleClientReset L (c1\<lparr>transport := tr\<rparr>) w1 = Some (c2, w2)" by fastforce
  then show ?thesis by (simp add: init_eq [OF i])
qed

lemma init_SomeD:
  assumes "nimbleClientInit L c0 mem ba tr so mp ver dbg w = Some (e, c', w')"
  shows "e = 0" "heap w' = heap w" "trace w' = trace w" "state c' = NimbleClientStateIdle"
    and "localParticipantCount c' = 0" "transport c' = tr" "remoteConnectionId c' = 0"
    and "watch_of (quality c') = fresh_watch" "waitTime c' = waitTime c0"
    and "length (localParticipantLookup c0) = NIMBLE_CLIENT_MAX_LOCAL_USERS_COUNT \<Longrightarrow> client_ok c' (heap w')"
    and "blobStreamIn c' = blobStreamIn c0" "blobStreamInLogic c' = blobStreamInLogic c0"
proof -
  obtain c1 w1 where i: "initBeforeReInit L c0 mem ba tr so mp ver dbg w = (c1, w1)" by fastforce
  note c1 = initBeforeReInit_frame [OF i]
  from assms obtain c2 where r: "nimbleClientReset L (c1\<lparr>transport := tr\<rparr>) w1 = Some (c2, w')"
    and c': "e = 0" "c' = c2\<lparr>quality := nimbleClientConnectionQualityReset L (quality c2)\<rparr>"
    by (auto simp: init_eq [OF i])
  note c2 = reset_SomeD [OF r]
  show "e = 0" "heap w' = heap w" "trace w' = trace w" "state c' = NimbleClientStateIdle"
    "localParticipantCount c' = 0" "transport c' = tr" "remoteConnectionId c' = 0"
    "watch_of (quality c') = fresh_watch" "waitTime c' = waitTime c0"
    "blobStreamIn c' = blobStreamIn c0" "blobStreamInLogic c' = blobStreamInLogic c0"
    using c2 c1 c' by (simp_all add: watch_of_reset)
  show "client_ok c' (heap w')" if "length (localParticipantLookup c0) = NIMBLE_CLIENT_MAX_LOCAL_USERS_COUNT"
    using c2 c1 c' that by (simp add: client_ok_def game_state_ok_def clearParticipantLookup_eq)
qed

text \<open>
  Initialising a client never fails and never frees or touches the heap, whatever the
  memory it is given held before (only the eight entries of the lookup array are there): it
  returns 0 with the invariant established, the client idle, no participants, a fresh
  connection quality and the connection id 0.
\<close>

theorem init_establishes_invariant:
  assumes "length (localParticipantLookup c0) = NIMBLE_CLIENT_MAX_LOCAL_USERS_COUNT"
  shows "\<exists>c' w'. nimbleClientInit L c0 mem ba tr so mp ver dbg w = Some (0, c', w')
    \<and> client_ok c' (heap w') \<and> heap w' = heap w \<and> trace w' = trace w
    \<and> state c' = NimbleClientStateIdle \<and> localParticipantCount c' = 0
    \<and> transport c' = tr \<and> remoteConnectionId c' = 0
    \<and> watch_of (quality c') = fresh_watch"
proof -
  obtain c' w' where init: "nimbleClientInit L c0 mem ba tr so mp ver dbg w = Some (0, c', w')"
    using init_defined [of L c0 mem ba tr so mp ver dbg w] by blast
  with init_SomeD [OF init] assms show ?thesis by blast
qed

theorem init_establishes_invariant_witness:
  "\<exists>c' w'. nimbleClientInit sampleLib
      (sample_client NimbleClientStateDisconnected NimbleJoiningStateJoinedParticipant 99 5)
      [] [] [7] 16 8 [] False (sample_world []) = Some (0, c', w') \<and> state c' = NimbleClientStateIdle"
  using init_establishes_invariant
    [of "sample_client NimbleClientStateDisconnected NimbleJoiningStateJoinedParticipant 99 5"
      sampleLib "[]" "[]" "[7]" 16 8 "[]" False "sample_world []"]
  by (auto simp: sample_client_def NIMBLE_CLIENT_MAX_LOCAL_USERS_COUNT_def)

text \<open>The search of the lookup, written as a search.\<close>

definition lookup_spec :: "NimbleClientParticipantEntry list \<Rightarrow> u8 \<Rightarrow> int \<times> u8" where
  "lookup_spec es index =
     (case find (\<lambda>e. localUserDeviceIndex e = index) es of
        None \<Rightarrow> (-1, 0xff) | Some e \<Rightarrow> (1, participantId e))"

lemma findParticipantFrom_spec:
  "unat count \<le> length es \<Longrightarrow>
     findParticipantFrom es count index i = Some (lookup_spec (drop i (take (unat count) es)) index)"
proof (induction es count index i rule: findParticipantFrom.induct)
  case (1 es count index i)
  show ?case
  proof (cases "i < unat count")
    case True
    then have "drop i (take (unat count) es) = es ! i # drop (Suc i) (take (unat count) es)"
      using "1.prems" by (simp add: Cons_nth_drop_Suc [symmetric])
    then show ?thesis
      using 1 True by (subst findParticipantFrom.simps) (auto simp: lookup_spec_def)
  next
    case False
    then show ?thesis by (subst findParticipantFrom.simps) (simp add: lookup_spec_def)
  qed
qed

text \<open>
  The participant lookup returns 1 and the participant id of the first of the local
  participants with the given device index, and -1 with the id 0xff when there is none; it
  never reads past the array of a client that satisfies its invariant.
\<close>

theorem find_participant_id_correct:
  assumes "client_ok c h"
  shows "nimbleClientFindParticipantId c index =
    Some (lookup_spec (take (unat (localParticipantCount c)) (localParticipantLookup c)) index)"
  using assms findParticipantFrom_spec [of "localParticipantCount c" "localParticipantLookup c" index 0]
  by (simp add: nimbleClientFindParticipantId_def client_ok_def)

theorem find_participant_id_correct_witness:
  "nimbleClientFindParticipantId
     ((sample_client NimbleClientStateSynced NimbleJoiningStateJoinedParticipant 0 0)
       \<lparr>localParticipantCount := 1\<rparr>) 3 = Some (-1, 0xff)"
proof -
  have "client_ok ((sample_client NimbleClientStateSynced NimbleJoiningStateJoinedParticipant 0 0)
       \<lparr>localParticipantCount := 1\<rparr>) Map.empty"
    by (simp add: client_ok_def sample_client_def NIMBLE_CLIENT_MAX_LOCAL_USERS_COUNT_def
        game_state_ok_def)
  from find_participant_id_correct [OF this, of 3] show ?thesis
    by (simp add: sample_client_def lookup_spec_def)
qed

end
