(* ===== verification/ClientUtils.thy ===== *)
theory ClientUtils
  imports ClientLifecycle
begin

text \<open>
  \<open>client_utils.c\<close>: how many ticks ahead of the last authoritative step the client should
  predict. The out-parameters are results; dividing by a tick duration of 0 is undefined.
\<close>

definition calculateOptimalSendPredictionTickCount ::
    "'x NimbleClient \<Rightarrow> size_t \<Rightarrow> (bool \<times> size_t) option" where
  "calculateOptimalSendPredictionTickCount self outDiff =
     (if \<not> avgIsSet (latencyMsStat self) then Some (False, outDiff)
      else if expectedTickDurationMs self = 0 then None
      else
        let latency = avg (latencyMsStat self);
            latency = (if latency < 0 then 0 else latency);
            unsignedLatency = size_of_int latency;
            latencyInTicksRoundedUp = unsignedLatency div expectedTickDurationMs self + 1;
            optimalSendPredictionTickCount = latencyInTicksRoundedUp;
            hasBufferDeltaAverage = avgIsSet (authoritativeBufferDeltaStat self);
            maximumBufferDeltaInfluenceInTicks = 5;
            bufferDeltaAverage =
              (if hasBufferDeltaAverage then avg (authoritativeBufferDeltaStat self) else 0);
            minimumBufferDelta = 2;
            bufferDeltaAddTickCount =
              (if bufferDeltaAverage < minimumBufferDelta then
                 let n = size_of_int (wrap_s32 (minimumBufferDelta - bufferDeltaAverage))
                 in if n > maximumBufferDeltaInfluenceInTicks
                    then maximumBufferDeltaInfluenceInTicks else n
               else 0)
        in Some (True, optimalSendPredictionTickCount + bufferDeltaAddTickCount))"

definition nimbleClientOptimalStepIdToSend ::
    "('x, 'w) nimble_lib \<Rightarrow> 'x NimbleClient \<Rightarrow> size_t \<Rightarrow> (bool \<times> u32 \<times> size_t) option" where
  "nimbleClientOptimalStepIdToSend L self outDiff =
     do { (worked, outDiff) \<leftarrow> calculateOptimalSendPredictionTickCount self outDiff;
          if \<not> worked then Some (False, NIMBLE_STEP_MAX L, outDiff)
          else let lastReceivedAuthoritativeStepId = expectedWriteId (authoritativeStepsFromServer self)
               in Some (True, lastReceivedAuthoritativeStepId + ucast outDiff, outDiff) }"

text \<open>The rule: one more than the whole ticks of the latency, plus the buffer correction.\<close>

definition optimal_ticks :: "'x NimbleClient \<Rightarrow> nat" where
  "optimal_ticks self =
     nat (avg (latencyMsStat self)) div 16 + 1
     + nat (min 5 (2 - (if avgIsSet (authoritativeBufferDeltaStat self)
                        then avg (authoritativeBufferDeltaStat self) else 0)))"

lemma latency_ticks:
  assumes "0 \<le> n" "n < 2147483648"
  shows "unat (size_of_int n div 16) = nat n div 16"
  using assms by (simp add: unat_div unat_size_of_int)

lemma buffer_correction:
  assumes "-2147483648 \<le> b" "b < 2147483648"
  shows "unat (if b < 2 then let n = size_of_int (wrap_s32 (2 - b)) in if n > 5 then 5 else n else 0)
    = nat (min 5 (2 - b))"
proof -
  consider "2 \<le> b" | "b < 2" "-2147483646 < b" | "b = -2147483648" | "b = -2147483647" | "b = -2147483646"
    using assms by linarith
  then show ?thesis
  proof cases
    case 2
    then have "wrap_s32 (2 - b) = 2 - b" by simp
    with 2 show ?thesis
      by (auto simp: Let_def word_less_nat_alt unat_size_of_int)
  qed (simp_all add: Let_def wrap_s32_def size_of_int_def)
qed

lemma ucast_of_nat_32: "(ucast (of_nat n :: size_t) :: u32) = of_nat n"
  by (simp add: unsigned_of_nat word_of_nat_eq_iff take_bit_take_bit)

lemma of_unat_sum:
  assumes "unat (x :: size_t) = a" "unat y = b"
  shows "x + y = of_nat (a + b)"
  using assms by auto

text \<open>The estimate itself.\<close>

lemma optimal_count:
  assumes "expectedTickDurationMs c = 16" "avgIsSet (latencyMsStat c)"
    and "-2147483648 \<le> avg (latencyMsStat c)" "avg (latencyMsStat c) < 2147483648"
    and "-2147483648 \<le> avg (authoritativeBufferDeltaStat c)"
      "avg (authoritativeBufferDeltaStat c) < 2147483648"
  shows "calculateOptimalSendPredictionTickCount c d = Some (True, of_nat (optimal_ticks c))"
proof -
  let ?l = "if avg (latencyMsStat c) < 0 then 0 else avg (latencyMsStat c)"
  let ?b = "if avgIsSet (authoritativeBufferDeltaStat c) then avg (authoritativeBufferDeltaStat c) else 0"
  let ?x = "size_of_int ?l div 16 + 1"
  let ?y = "if ?b < 2 then let n = size_of_int (wrap_s32 (2 - ?b)) in if n > 5 then 5 else n else 0"
  have "unat (size_of_int ?l div 16) = nat (avg (latencyMsStat c)) div 16"
    using assms(3,4) latency_ticks [of ?l] by simp
  then have x: "unat ?x = nat (avg (latencyMsStat c)) div 16 + 1"
    using assms(4) by (subst unat_inc) auto
  have y: "unat ?y = nat (min 5 (2 - ?b))"
    using assms(5,6) by (intro buffer_correction) simp_all
  have "calculateOptimalSendPredictionTickCount c d = Some (True, ?x + ?y)"
    using assms(1,2) by (simp add: calculateOptimalSendPredictionTickCount_def Let_def)
  also have "?x + ?y = of_nat (optimal_ticks c)"
    using of_unat_sum [OF x y] by (simp only: optimal_ticks_def)
  finally show ?thesis .
qed

text \<open>
  C30. The prediction count is one more than the whole ticks of the round trip latency, plus a
  buffer correction between 0 and 5: with a latency average, a client that satisfies its invariant
  always gets an estimate, equal to the documented rule for all 32-bit averages (the signed
  subtraction overflow included), and the step to send lies that many steps after the next
  authoritative step; without a latency average there is none and the step id is invalid.
\<close>

theorem optimal_step_correct:
  assumes "client_ok c h"
    and "-2147483648 \<le> avg (latencyMsStat c)" "avg (latencyMsStat c) < 2147483648"
    and "-2147483648 \<le> avg (authoritativeBufferDeltaStat c)"
      "avg (authoritativeBufferDeltaStat c) < 2147483648"
  shows "nimbleClientOptimalStepIdToSend L c d =
    (if avgIsSet (latencyMsStat c)
     then Some (True, expectedWriteId (authoritativeStepsFromServer c) + of_nat (optimal_ticks c),
            of_nat (optimal_ticks c))
     else Some (False, NIMBLE_STEP_MAX L, d))"
  using assms optimal_count [of c d]
  by (simp add: nimbleClientOptimalStepIdToSend_def ucast_of_nat_32 client_ok_def
      calculateOptimalSendPredictionTickCount_def [of c] del: of_nat_add)

theorem optimal_step_correct_witness:
  "nimbleClientOptimalStepIdToSend sampleLib
     ((sample_client NimbleClientStateSynced NimbleJoiningStateJoinedParticipant 0 0)
       \<lparr>latencyMsStat := \<lparr>avg = 100, avgIsSet = True, statsIntRest = []\<rparr>\<rparr>) 0 = Some (True, 9, 9)"
proof -
  let ?c = "(sample_client NimbleClientStateSynced NimbleJoiningStateJoinedParticipant 0 0)
       \<lparr>latencyMsStat := \<lparr>avg = 100, avgIsSet = True, statsIntRest = ([] :: octets)\<rparr>\<rparr>"
  have "client_ok ?c Map.empty"
    by (simp add: client_ok_def sample_client_def NIMBLE_CLIENT_MAX_LOCAL_USERS_COUNT_def game_state_ok_def)
  from optimal_step_correct [OF this, of sampleLib 0] show ?thesis
    by (simp add: sample_client_def sample_steps_def sample_stat_def optimal_ticks_def)
qed

end
