(* ===== verification/Incoming.thy ===== *)
theory Incoming
  imports ClientLifecycle
begin

text \<open>
  The messages from the server: one definition per handler (\<open>pong.c\<close>, \<open>connect_response.c\<close>,
  \<open>join_game_response.c\<close>, \<open>join_game_participants_full.c\<close>, \<open>download_state_response.c\<close>,
  \<open>download_state_part.c\<close>, \<open>game_step_response.c\<close>), \<open>nimbleClientFeed\<close> of \<open>incoming.c\<close> that
  dispatches to them, and the receive loop of \<open>receive_transport.c\<close>.

  A handler takes the client, the stream it reads from and the world, and gives the code it
  returns and the three of them changed; \<open>None\<close> is undefined behaviour.
\<close>

type_synonym ('x, 'w) handled = "(int \<times> 'x NimbleClient \<times> 'x FldInStream \<times> 'w world) option"

definition nimbleClientReceivePong ::
    "('x, 'w) nimble_lib \<Rightarrow> 'x NimbleClient \<Rightarrow> 'x FldInStream \<Rightarrow> 'w world \<Rightarrow> ('x, 'w) handled" where
  "nimbleClientReceivePong L self inStream w =
     (let inStream = fldInStreamCheckMarker L inStream 0xdd;
          (readResult, monotonicTimeShortMs, inStream) = fldInStreamReadUInt16 L inStream
      in if readResult < 0 then Some (readResult, self, inStream, w)
         else
           let (now, w) = time_now L w;
               sentAt = monotonicTimeMsFromLowerBits L now monotonicTimeShortMs;
               self = (if now < sentAt then self
                       else self\<lparr>latencyMs := size_of_int (wrap_s64 (now - sentAt))\<rparr>);
               self = self\<lparr>quality :=
                 nimbleClientConnectionQualityGameStepLatency L (latencyMs self) (quality self)\<rparr>;
               self = (if useStats self
                       then self\<lparr>latencyMsStat :=
                              statsIntAdd L (latencyMsStat self) (int_of_size (latencyMs self))\<rparr>
                       else self)
           in Some (0, self, inStream, w))"

text \<open>The assertion that the assigned connection id is not 0 comes after the assignments.\<close>

definition nimbleClientOnConnectResponse ::
    "('x, 'w) nimble_lib \<Rightarrow> 'x NimbleClient \<Rightarrow> 'x FldInStream \<Rightarrow> 'w world \<Rightarrow> ('x, 'w) handled" where
  "nimbleClientOnConnectResponse L self inStream w =
     (let (err, response, inStream) = nimbleSerializeClientInConnectResponse L inStream
      in if err < 0 then Some (err, self, inStream, w)
         else if state self = NimbleClientStateRequestingConnect then
           let self = self\<lparr>state := NimbleClientStateConnected\<rparr>;
               self = self\<lparr>useDebugStreams := responseUseDebugStreams response\<rparr>;
               self = self\<lparr>remoteConnectionId := of_nat (connectionId response)\<rparr>;
               w = clog_assert (remoteConnectionId self \<noteq> 0)
                     ''remote connection assigned can not be zero'' w
           in Some (0, self, inStream, w)
         else Some (0, self, inStream, w))"

text \<open>The loop that stores the participants of a join answer, from index \<open>i\<close>.\<close>

function storeParticipantsFrom ::
    "NimbleSerializeJoinGameResponseParticipant list \<Rightarrow> size_t \<Rightarrow> nat
     \<Rightarrow> NimbleClientParticipantEntry list \<Rightarrow> NimbleClientParticipantEntry list option" where
  "storeParticipantsFrom ps count i entries =
     (if i < unat count then
        (if i < length ps \<and> i < length entries then
           storeParticipantsFrom ps count (Suc i)
             (entries[i := (entries ! i)\<lparr>localUserDeviceIndex := of_nat (localIndex (ps ! i)),
                                        participantId := of_nat (responseParticipantId (ps ! i)),
                                        isUsed := True\<rparr>])
         else None)
      else Some entries)"
  by pat_completeness auto
termination
  by (relation "measure (\<lambda>(ps, c, i, es). unat c - i)") auto

declare storeParticipantsFrom.simps [simp del]

definition nimbleClientOnJoinGameResponse ::
    "('x, 'w) nimble_lib \<Rightarrow> 'x NimbleClient \<Rightarrow> 'x FldInStream \<Rightarrow> 'w world \<Rightarrow> ('x, 'w) handled" where
  "nimbleClientOnJoinGameResponse L self inStream w =
     (let (err, gameResponse, inStream) = nimbleSerializeClientInJoinGameResponse L inStream
      in if err < 0 then Some (err, self, inStream, w)
         else if joinParticipantPhase self \<noteq> NimbleJoiningStateJoiningParticipant
         then Some (0, self, inStream, w)
         else
           let self = self\<lparr>partyAndSessionSecret := responsePartyAndSessionSecret gameResponse\<rparr>;
               self = self\<lparr>localParticipantCount := participantCount gameResponse\<rparr>
           in do {
             entries \<leftarrow> storeParticipantsFrom (participants gameResponse)
               (participantCount gameResponse) 0 (localParticipantLookup self);
             let self = self\<lparr>localParticipantLookup := entries\<rparr>;
             let self = self\<lparr>joinParticipantPhase := NimbleJoiningStateJoinedParticipant\<rparr>;
             let self = self\<lparr>waitTime := 0\<rparr>;
             let self = self\<lparr>joinStateChannel := 0\<rparr>;
             Some (0, self, inStream, w)
           })"

definition nimbleClientOnJoinGameParticipantOutOfSpaceResponse ::
    "('x, 'w) nimble_lib \<Rightarrow> 'x NimbleClient \<Rightarrow> 'x FldInStream \<Rightarrow> 'w world \<Rightarrow> ('x, 'w) handled" where
  "nimbleClientOnJoinGameParticipantOutOfSpaceResponse L self inStream w =
     (let (err, nonce, inStream) = nimbleSerializeInNonce L inStream
      in if err < 0 then Some (err, self, inStream, w)
         else Some (0, self\<lparr>joinParticipantPhase := NimbleJoiningStateOutOfParticipantSlots\<rparr>,
                inStream, w))"

definition nimbleClientOnDownloadGameStateResponse ::
    "('x, 'w) nimble_lib \<Rightarrow> 'x NimbleClient \<Rightarrow> 'x FldInStream \<Rightarrow> 'w world \<Rightarrow> ('x, 'w) handled" where
  "nimbleClientOnDownloadGameStateResponse L self inStream w =
     (let (e1, requestId, inStream) = fldInStreamReadUInt8 L inStream;
          (e2, stateId, inStream) = nimbleSerializeInStateId L inStream;
          (errorCode, channelId, inStream) = nimbleSerializeInBlobStreamChannelId L inStream
      in if errorCode < 0 then Some (errorCode, self, inStream, w)
         else if requestId \<noteq> downloadStateClientRequestId self then Some (0, self, inStream, w)
         else if channelId = joinStateChannel self then Some (0, self, inStream, w)
         else
           let self = self\<lparr>joinStateChannel := channelId\<rparr>;
               self = self\<lparr>joinedGameState := (joinedGameState self)\<lparr>stepId := stateId\<rparr>\<rparr>;
               self = self\<lparr>joinStateId := stateId\<rparr>;
               self = self\<lparr>outSteps := nbsStepsReInit L (outSteps self) stateId\<rparr>;
               self = self\<lparr>state := NimbleClientStateJoiningDownloadingState\<rparr>;
               self = self\<lparr>waitTime := 0\<rparr>
           in Some (0, self, inStream, w))"

definition trySetInitialGameState ::
    "('x, 'w) nimble_lib \<Rightarrow> 'x NimbleClient \<Rightarrow> 'w world \<Rightarrow> ('x NimbleClient \<times> 'w world) option" where
  "trySetInitialGameState L self w =
     (if state self = NimbleClientStateSynced then Some (self, w)
      else
        let self = self\<lparr>state := NimbleClientStateSynced\<rparr>
        in do {
          (g, w) \<leftarrow> nimbleClientGameStateInit L (joinedGameState self) (blobStreamAllocator self)
            (joinStateId self) (blob (blobStreamIn self)) (octetCount (blobStreamIn self)) w;
          let self = self\<lparr>joinedGameState := g\<rparr>;
          let self = self\<lparr>authoritativePendingStepsFromServer := nbsPendingStepsReset L
            (authoritativePendingStepsFromServer self) (stepId (joinedGameState self))\<rparr>;
          let self = self\<lparr>authoritativeStepsFromServer := nbsStepsReInit L
            (authoritativeStepsFromServer self) (stepId (joinedGameState self))\<rparr>;
          let self = self\<lparr>outSteps := nbsStepsReInit L (outSteps self) (stepId (joinedGameState self))\<rparr>;
          Some (self, w)
        })"

text \<open>The result of reading the channel id is not checked.\<close>

definition nimbleClientOnDownloadGameStatePart ::
    "('x, 'w) nimble_lib \<Rightarrow> 'x NimbleClient \<Rightarrow> 'x FldInStream \<Rightarrow> 'w world \<Rightarrow> ('x, 'w) handled" where
  "nimbleClientOnDownloadGameStatePart L self inStream w =
     (let (e, channelId, inStream) = nimbleSerializeInBlobStreamChannelId L inStream
      in if channelId \<noteq> joinStateChannel self then Some (0, self, inStream, w)
         else
           let self = self\<lparr>joinStateChannel := channelId\<rparr>;
               (result, logic, blobIn, inStream) =
                 blobStreamLogicInReceive L (blobStreamInLogic self) (blobStreamIn self) inStream;
               self = self\<lparr>blobStreamInLogic := logic, blobStreamIn := blobIn\<rparr>
           in if result < 0 then Some (result, self, inStream, w)
              else if blobStreamInIsComplete L (blobStreamIn self)
              then do { (self, w) \<leftarrow> trySetInitialGameState L self w;
                        Some (0, self, inStream, w) }
              else Some (0, self, inStream, w))"

text \<open>The three numbers at the head of a step response, then the steps themselves.\<close>

definition readStepResponseHead ::
    "('x, 'w) nimble_lib \<Rightarrow> 'x NimbleClient \<Rightarrow> 'x FldInStream \<Rightarrow> 'x NimbleClient \<times> 'x FldInStream" where
  "readStepResponseHead L self inStream =
     (let (e1, stepCountInIncomingBufferOnServer, inStream) = fldInStreamReadUInt8 L inStream;
          self = (if useStats self
                  then self\<lparr>stepCountInIncomingBufferOnServerStat := statsIntAdd L
                         (stepCountInIncomingBufferOnServerStat self)
                         (uint stepCountInIncomingBufferOnServer)\<rparr>
                  else self);
          (e2, deltaAgainstServerAuthoritativeBuffer, inStream) = fldInStreamReadInt8 L inStream;
          self = (if useStats self
                  then self\<lparr>authoritativeBufferDeltaStat := statsIntAdd L
                         (authoritativeBufferDeltaStat self)
                         (sint deltaAgainstServerAuthoritativeBuffer)\<rparr>
                  else self);
          packet = \<lparr>packetStatus = LagometerPacketStatusReceived, packetLatencyMs = latencyMs self,
                    packetOctetCount = inSize inStream\<rparr>;
          self = self\<lparr>lagometer := lagometerAddPacket L (lagometer self) packet\<rparr>;
          (e3, serverReceivedPredictedStepId, inStream) = fldInStreamReadUInt32 L inStream;
          self = (if serverReceivedPredictedStepId \<noteq> receivedStepIdByServerOnlyForDebug self
                  then self\<lparr>receivedStepIdByServerOnlyForDebug := serverReceivedPredictedStepId\<rparr>
                  else self)
      in (self\<lparr>outSteps := nbsStepsDiscardUpTo L (outSteps self) (serverReceivedPredictedStepId + 1)\<rparr>,
          inStream))"

definition nimbleClientOnGameStepResponse ::
    "('x, 'w) nimble_lib \<Rightarrow> 'x NimbleClient \<Rightarrow> 'x FldInStream \<Rightarrow> 'w world \<Rightarrow> ('x, 'w) handled" where
  "nimbleClientOnGameStepResponse L self inStream w =
     (let (self, inStream) = readStepResponseHead L self inStream;
          (stepCount, inStream, pending) =
            nbsPendingStepsInSerialize L inStream (authoritativePendingStepsFromServer self);
          self = self\<lparr>authoritativePendingStepsFromServer := pending\<rparr>
      in if stepCount < 0 then Some (stepCount, self, inStream, w)
         else
           let (copyResult, steps, pending) = nbsPendingStepsCopy L
                 (authoritativeStepsFromServer self) (authoritativePendingStepsFromServer self);
               self = self\<lparr>authoritativeStepsFromServer := steps,
                           authoritativePendingStepsFromServer := pending\<rparr>;
               self = self\<lparr>waitingStepsFromServer := statsIntAdd L (waitingStepsFromServer self)
                        (int_of_size (stepsCount (authoritativeStepsFromServer self)))\<rparr>;
               self = self\<lparr>quality := nimbleClientConnectionQualityReceivedAuthoritativeSteps
                        (size_of_int stepCount) (quality self)\<rparr>;
               self = self\<lparr>simulationStepsPerSecond :=
                        statsIntPerSecondAdd L (simulationStepsPerSecond self) (wrap_s32 stepCount)\<rparr>
           in Some (stepCount, self, inStream, w))"

section \<open>incoming.c\<close>

definition readAndCheckOrderedDatagram ::
    "('x, 'w) nimble_lib \<Rightarrow> 'x \<Rightarrow> 'x FldInStream \<Rightarrow> int \<times> 'x \<times> 'x FldInStream" where
  "readAndCheckOrderedDatagram L inLogic inStream =
     (let (idDelta, inLogic, inStream) = orderedDatagramInLogicReceive L inLogic inStream
      in (if idDelta \<le> 0 then -91 else idDelta, inLogic, inStream))"

text \<open>A gap in the sequence: one dropped packet for the lagometer per missing datagram.\<close>

definition noteDroppedDatagrams ::
    "('x, 'w) nimble_lib \<Rightarrow> int \<Rightarrow> 'x NimbleClient \<Rightarrow> 'x NimbleClient" where
  "noteDroppedDatagrams L delta self =
     (let droppedPacket = \<lparr>packetStatus = LagometerPacketStatusDropped, packetLatencyMs = 0,
                           packetOctetCount = 0\<rparr>;
          self = self\<lparr>lagometer :=
            ((\<lambda>l. lagometerAddPacket L l droppedPacket) ^^ nat (delta - 1)) (lagometer self)\<rparr>
      in self\<lparr>quality := nimbleClientConnectionQualityDroppedDatagrams L
                (size_of_int (delta - 1)) (quality self)\<rparr>)"

text \<open>The switch on the command; its last case is the unknown command.\<close>

definition dispatchCommand ::
    "('x, 'w) nimble_lib \<Rightarrow> u8 \<Rightarrow> 'x NimbleClient \<Rightarrow> 'x FldInStream \<Rightarrow> 'w world \<Rightarrow> ('x, 'w) handled" where
  "dispatchCommand L cmd self inStream w =
     (if cmd = NimbleSerializeCmdConnectResponse L
      then nimbleClientOnConnectResponse L self inStream w
      else if cmd = NimbleSerializeCmdServerOutBlobStream L
      then nimbleClientOnDownloadGameStatePart L self inStream w
      else if cmd = NimbleSerializeCmdGameStepResponse L
      then do { (r, self, inStream, w) \<leftarrow> nimbleClientOnGameStepResponse L self inStream w;
                Some (wrap_s32 r, self, inStream, w) }
      else if cmd = NimbleSerializeCmdJoinGameResponse L
      then nimbleClientOnJoinGameResponse L self inStream w
      else if cmd = NimbleSerializeCmdGameStateResponse L
      then nimbleClientOnDownloadGameStateResponse L self inStream w
      else if cmd = NimbleSerializeCmdJoinGameOutOfParticipantSlotsResponse L
      then nimbleClientOnJoinGameParticipantOutOfSpaceResponse L self inStream w
      else Some (-1, self, inStream, w))"

definition nimbleClientFeed ::
    "('x, 'w) nimble_lib \<Rightarrow> 'x NimbleClient \<Rightarrow> octets \<Rightarrow> size_t \<Rightarrow> 'w world
     \<Rightarrow> (int \<times> 'x NimbleClient \<times> 'w world) option" where
  "nimbleClientFeed L self data len w =
     (let inStream = (fldInStreamInit L data len)\<lparr>readDebugInfo := True\<rparr>
      in if len < 1 then Some (-1, self, w)
         else if state self = NimbleClientStateDisconnected then Some (0, self, w)
         else
           let (delta, inLogic, inStream) =
                 readAndCheckOrderedDatagram L (orderedDatagramIn self) inStream;
               self = self\<lparr>orderedDatagramIn := inLogic\<rparr>
           in if delta < 0 then Some (delta, self, w)
              else
                let self = (if delta > 1 then noteDroppedDatagrams L delta self else self)
                in do {
                  (err, self, inStream, w) \<leftarrow> nimbleClientReceivePong L self inStream w;
                  if err < 0 then Some (err, self, w)
                  else do {
                    let (e, cmd, inStream) = fldInStreamReadUInt8 L inStream;
                    (result, self, inStream, w) \<leftarrow> dispatchCommand L cmd self inStream w;
                    Some (result, self, w)
                  }
                })"

section \<open>receive_transport.c\<close>

text \<open>
  The loop runs until the transport has nothing more, a datagram is refused or the transport
  fails. It may not return when the transport never runs dry: that too is \<open>None\<close>.
\<close>

partial_function (option) receiveDatagrams ::
    "('x, 'w) nimble_lib \<Rightarrow> size_t \<Rightarrow> 'x NimbleClient \<Rightarrow> 'w world
     \<Rightarrow> (int \<times> 'x NimbleClient \<times> 'w world) option" where
  "receiveDatagrams L count self w =
     (case transport_receive L (transport self) (DATAGRAM_TRANSPORT_MAX_SIZE L) w of
        (n, receiveBuf, w) \<Rightarrow>
          if n > 0 then
            Option.bind
              (nimbleClientFeed L
                (if useStats self
                 then self\<lparr>packetsPerSecondIn := statsIntPerSecondAdd L (packetsPerSecondIn self) 1\<rparr>
                 else self)
                receiveBuf (size_of_int n) w)
              (\<lambda>r. case r of (err, self, w) \<Rightarrow>
                 if err < 0 then Some (err, self, w)
                 else receiveDatagrams L (count + 1)
                   (self\<lparr>quality := nimbleClientConnectionQualityReceivedUsableDatagram L (quality self)\<rparr>)
                   w)
          else if n < 0 then Some (n, self, w)
          else Some (int_of_size count, self, w))"

definition nimbleClientReceiveAllDatagramsFromTransport ::
    "('x, 'w) nimble_lib \<Rightarrow> 'x NimbleClient \<Rightarrow> 'w world
     \<Rightarrow> (int \<times> 'x NimbleClient \<times> 'w world) option" where
  "nimbleClientReceiveAllDatagramsFromTransport L self w = receiveDatagrams L 0 self w"

end
