(* ===== verification/IncomingContracts.thy ===== *)
theory IncomingContracts
  imports Incoming
begin

text \<open>
  What receiving can do to a client. First the effect of each handler, as an elimination
  rule; then a locale for any relation that the handlers respect, in which the dispatch and
  the receive loop are shown to respect it too; then its interpretations.
\<close>

section \<open>The effect of each handler\<close>

lemma pong_effect:
  assumes "nimbleClientReceivePong L c s w = Some (r, c', s', w')"
  obtains (refused) "r < 0" "c' = c" "w' = w"
  | (taken) l m now where "r = 0" "time_now L w = (now, w')"
      "c' = c\<lparr>latencyMs := l, quality := nimbleClientConnectionQualityGameStepLatency L l (quality c),
              latencyMsStat := m\<rparr>"
proof -
  obtain e t s1 where rd: "fldInStreamReadUInt16 L (fldInStreamCheckMarker L s 0xdd) = (e, t, s1)"
    by (cases "fldInStreamReadUInt16 L (fldInStreamCheckMarker L s 0xdd)") auto
  obtain now w1 where nw: "time_now L w = (now, w1)" by fastforce
  show thesis
  proof (cases "e < 0")
    case True
    then show thesis using assms by (intro refused) (auto simp: nimbleClientReceivePong_def rd)
  next
    case False
    let ?l = "if now < monotonicTimeMsFromLowerBits L now t then latencyMs c
              else size_of_int (wrap_s64 (now - monotonicTimeMsFromLowerBits L now t))"
    let ?m = "if useStats c then statsIntAdd L (latencyMsStat c) (int_of_size ?l) else latencyMsStat c"
    have "r = 0 \<and> w' = w1 \<and> c' = c\<lparr>latencyMs := ?l,
        quality := nimbleClientConnectionQualityGameStepLatency L ?l (quality c), latencyMsStat := ?m\<rparr>"
      using assms False by (auto simp: nimbleClientReceivePong_def rd nw Let_def)
    then show thesis using nw by (intro taken [where now = now and l = ?l and m = ?m]) auto
  qed
qed

lemma connect_effect:
  assumes "nimbleClientOnConnectResponse L c s w = Some (r, c', s', w')"
  obtains (ignored) "c' = c" "w' = w"
  | (connected) d i where "r = 0" "state c = NimbleClientStateRequestingConnect"
      "c' = c\<lparr>state := NimbleClientStateConnected, useDebugStreams := d, remoteConnectionId := i\<rparr>"
      "w' = clog_assert (i \<noteq> 0) ''remote connection assigned can not be zero'' w"
proof -
  obtain e resp s1 where rd: "nimbleSerializeClientInConnectResponse L s = (e, resp, s1)"
    by (cases "nimbleSerializeClientInConnectResponse L s") auto
  show thesis
  proof (cases "e < 0 \<or> state c \<noteq> NimbleClientStateRequestingConnect")
    case True
    then have "nimbleClientOnConnectResponse L c s w = Some (if e < 0 then e else 0, c, s1, w)"
      by (auto simp: nimbleClientOnConnectResponse_def rd)
    with assms show thesis by (intro ignored) simp_all
  next
    case False
    with assms show thesis
      by (intro connected [where d = "responseUseDebugStreams resp" and i = "of_nat (connectionId resp)"])
         (simp_all add: nimbleClientOnConnectResponse_def rd Let_def)
  qed
qed

lemma join_effect:
  assumes "nimbleClientOnJoinGameResponse L c s w = Some (r, c', s', w')"
  obtains (ignored) "c' = c" "w' = w"
  | (joined) ps n es sec where "r = 0" "w' = w"
      "joinParticipantPhase c = NimbleJoiningStateJoiningParticipant"
      "storeParticipantsFrom ps n 0 (localParticipantLookup c) = Some es"
      "c' = c\<lparr>partyAndSessionSecret := sec, localParticipantCount := n, localParticipantLookup := es,
              joinParticipantPhase := NimbleJoiningStateJoinedParticipant, waitTime := 0,
              joinStateChannel := 0\<rparr>"
proof -
  obtain e resp s1 where rd: "nimbleSerializeClientInJoinGameResponse L s = (e, resp, s1)"
    by (cases "nimbleSerializeClientInJoinGameResponse L s") auto
  show thesis
  proof (cases "e < 0 \<or> joinParticipantPhase c \<noteq> NimbleJoiningStateJoiningParticipant")
    case True
    then have "nimbleClientOnJoinGameResponse L c s w = Some (if e < 0 then e else 0, c, s1, w)"
      by (auto simp: nimbleClientOnJoinGameResponse_def rd)
    with assms show thesis by (intro ignored) simp_all
  next
    case False
    then obtain es where es: "storeParticipantsFrom (participants resp) (participantCount resp) 0
        (localParticipantLookup c) = Some es"
      using assms by (auto simp: nimbleClientOnJoinGameResponse_def rd Let_def)
    with False show thesis using assms
      by (intro joined [OF _ _ _ es]) (auto simp: nimbleClientOnJoinGameResponse_def rd Let_def)
  qed
qed

lemma slots_effect:
  assumes "nimbleClientOnJoinGameParticipantOutOfSpaceResponse L c s w = Some (r, c', s', w')"
  obtains (ignored) "c' = c" "w' = w"
  | (full) "r = 0" "w' = w"
      "c' = c\<lparr>joinParticipantPhase := NimbleJoiningStateOutOfParticipantSlots\<rparr>"
  using assms
  by (auto simp: nimbleClientOnJoinGameParticipantOutOfSpaceResponse_def split: prod.splits if_splits)

lemma state_response_effect:
  assumes "nimbleClientOnDownloadGameStateResponse L c s w = Some (r, c', s', w')"
  obtains (ignored) "c' = c" "w' = w"
  | (accepted) ch i where "r = 0" "w' = w" "ch \<noteq> joinStateChannel c"
      "c' = c\<lparr>joinStateChannel := ch, joinedGameState := (joinedGameState c)\<lparr>stepId := i\<rparr>,
              joinStateId := i, outSteps := nbsStepsReInit L (outSteps c) i,
              state := NimbleClientStateJoiningDownloadingState, waitTime := 0\<rparr>"
proof -
  obtain e1 q s1 where 1: "fldInStreamReadUInt8 L s = (e1, q, s1)"
    by (cases "fldInStreamReadUInt8 L s") auto
  obtain e2 i s2 where 2: "nimbleSerializeInStateId L s1 = (e2, i, s2)"
    by (cases "nimbleSerializeInStateId L s1") auto
  obtain e3 ch s3 where 3: "nimbleSerializeInBlobStreamChannelId L s2 = (e3, ch, s3)"
    by (cases "nimbleSerializeInBlobStreamChannelId L s2") auto
  show thesis
  proof (cases "e3 < 0 \<or> q \<noteq> downloadStateClientRequestId c \<or> ch = joinStateChannel c")
    case True
    then have "nimbleClientOnDownloadGameStateResponse L c s w = Some (if e3 < 0 then e3 else 0, c, s3, w)"
      by (auto simp: nimbleClientOnDownloadGameStateResponse_def 1 2 3)
    with assms show thesis by (intro ignored) simp_all
  next
    case False
    with assms show thesis
      by (intro accepted [where ch = ch and i = i])
         (simp_all add: nimbleClientOnDownloadGameStateResponse_def 1 2 3 Let_def)
  qed
qed

lemma state_part_effect:
  assumes "nimbleClientOnDownloadGameStatePart L c s w = Some (r, c', s', w')"
  obtains (ignored) "c' = c" "w' = w"
  | (chunk) l b where "w' = w" "c' = c\<lparr>blobStreamInLogic := l, blobStreamIn := b\<rparr>"
  | (complete) l b g where "r = 0" "state c \<noteq> NimbleClientStateSynced" "blobStreamInIsComplete L b"
      "nimbleClientGameStateInit L (joinedGameState c) (blobStreamAllocator c) (joinStateId c)
         (blob b) (octetCount b) w = Some (g, w')"
      "c' = c\<lparr>blobStreamInLogic := l, blobStreamIn := b, state := NimbleClientStateSynced,
              joinedGameState := g,
              authoritativePendingStepsFromServer :=
                nbsPendingStepsReset L (authoritativePendingStepsFromServer c) (stepId g),
              authoritativeStepsFromServer :=
                nbsStepsReInit L (authoritativeStepsFromServer c) (stepId g),
              outSteps := nbsStepsReInit L (outSteps c) (stepId g)\<rparr>"
proof -
  obtain e ch s1 where rd: "nimbleSerializeInBlobStreamChannelId L s = (e, ch, s1)"
    by (cases "nimbleSerializeInBlobStreamChannelId L s") auto
  obtain res l b s2 where blob: "blobStreamLogicInReceive L (blobStreamInLogic c) (blobStreamIn c) s1
      = (res, l, b, s2)"
    by (cases "blobStreamLogicInReceive L (blobStreamInLogic c) (blobStreamIn c) s1") auto
  consider "ch \<noteq> joinStateChannel c"
    | "ch = joinStateChannel c" "res < 0 \<or> \<not> blobStreamInIsComplete L b \<or> state c = NimbleClientStateSynced"
    | "ch = joinStateChannel c" "\<not> res < 0" "blobStreamInIsComplete L b" "state c \<noteq> NimbleClientStateSynced"
    by blast
  then show thesis
  proof cases
    case 1
    then show thesis using assms by (intro ignored) (auto simp: nimbleClientOnDownloadGameStatePart_def rd)
  next
    case 2
    then show thesis using assms
      by (intro chunk [where l = l and b = b])
         (auto simp: nimbleClientOnDownloadGameStatePart_def rd blob trySetInitialGameState_def
           Let_def split: if_splits)
  next
    case 3
    then show thesis using assms
      by (auto simp: nimbleClientOnDownloadGameStatePart_def rd blob trySetInitialGameState_def
           Let_def intro: complete)
  qed
qed

lemma step_head_effect:
  obtains a b l i o' where
    "fst (readStepResponseHead L c s) = c\<lparr>stepCountInIncomingBufferOnServerStat := a,
       authoritativeBufferDeltaStat := b, lagometer := l, receivedStepIdByServerOnlyForDebug := i,
       outSteps := o'\<rparr>"
proof -
  obtain e1 v1 s1 where 1: "fldInStreamReadUInt8 L s = (e1, v1, s1)" by (cases "fldInStreamReadUInt8 L s") auto
  obtain e2 v2 s2 where 2: "fldInStreamReadInt8 L s1 = (e2, v2, s2)" by (cases "fldInStreamReadInt8 L s1") auto
  obtain e3 v3 s3 where 3: "fldInStreamReadUInt32 L s2 = (e3, v3, s3)" by (cases "fldInStreamReadUInt32 L s2") auto
  show thesis
    by (rule that [where
        a = "if useStats c then statsIntAdd L (stepCountInIncomingBufferOnServerStat c) (uint v1)
             else stepCountInIncomingBufferOnServerStat c" and
        b = "if useStats c then statsIntAdd L (authoritativeBufferDeltaStat c) (sint v2)
             else authoritativeBufferDeltaStat c" and
        l = "lagometerAddPacket L (lagometer c) \<lparr>packetStatus = LagometerPacketStatusReceived,
               packetLatencyMs = latencyMs c, packetOctetCount = inSize s2\<rparr>" and
        i = v3 and o' = "nbsStepsDiscardUpTo L (outSteps c) (v3 + 1)"])
       (simp add: readStepResponseHead_def 1 2 3 Let_def)
qed

lemma step_response_effect:
  assumes "nimbleClientOnGameStepResponse L c s w = Some (r, c', s', w')"
  obtains (refused) a b l i o' p where "r < 0" "w' = w"
      "c' = c\<lparr>stepCountInIncomingBufferOnServerStat := a, authoritativeBufferDeltaStat := b,
              lagometer := l, receivedStepIdByServerOnlyForDebug := i, outSteps := o',
              authoritativePendingStepsFromServer := p\<rparr>"
  | (taken) a b l i o' p q v m where "0 \<le> r" "w' = w"
      "c' = c\<lparr>stepCountInIncomingBufferOnServerStat := a, authoritativeBufferDeltaStat := b,
              lagometer := l, receivedStepIdByServerOnlyForDebug := i, outSteps := o',
              authoritativeStepsFromServer := q, authoritativePendingStepsFromServer := p,
              waitingStepsFromServer := v,
              quality := nimbleClientConnectionQualityReceivedAuthoritativeSteps (size_of_int r) (quality c),
              simulationStepsPerSecond := m\<rparr>"
proof -
  obtain c1 s1 where hd: "readStepResponseHead L c s = (c1, s1)" by fastforce
  obtain a b l i o' where c1: "c1 = c\<lparr>stepCountInIncomingBufferOnServerStat := a,
       authoritativeBufferDeltaStat := b, lagometer := l, receivedStepIdByServerOnlyForDebug := i,
       outSteps := o'\<rparr>"
    using step_head_effect [of L c s] hd by (metis fst_conv)
  obtain k s2 p where ser: "nbsPendingStepsInSerialize L s1 (authoritativePendingStepsFromServer c) = (k, s2, p)"
    by (cases "nbsPendingStepsInSerialize L s1 (authoritativePendingStepsFromServer c)") auto
  obtain cr q p' where cp: "nbsPendingStepsCopy L (authoritativeStepsFromServer c) p = (cr, q, p')"
    by (cases "nbsPendingStepsCopy L (authoritativeStepsFromServer c) p") auto
  show thesis
  proof (cases "k < 0")
    case True
    then show thesis using assms
      by (intro refused) (auto simp: nimbleClientOnGameStepResponse_def hd c1 ser)
  next
    case False
    then show thesis using assms
      by (intro taken) (auto simp: nimbleClientOnGameStepResponse_def hd c1 ser cp Let_def)
  qed
qed

lemmas handler_effects =
  connect_effect join_effect slots_effect state_response_effect state_part_effect step_response_effect

section \<open>The contract of a relation on clients and worlds\<close>

text \<open>
  A relation that holds across every handler of a client that is not disconnected, and across
  the bookkeeping around them, holds across the dispatch, the feed and the receive loop.
\<close>

locale incoming_contract =
  fixes L :: "('x, 'w) nimble_lib"
    and R :: "'x NimbleClient \<times> 'w world \<Rightarrow> 'x NimbleClient \<times> 'w world \<Rightarrow> bool"
  assumes refl: "R s s"
    and trans: "R s t \<Longrightarrow> R t u \<Longrightarrow> R s u"
    and pong: "nimbleClientReceivePong L c i w = Some (r, c', i', w') \<Longrightarrow> R (c, w) (c', w')"
    and connect: "nimbleClientOnConnectResponse L c i w = Some (r, c', i', w') \<Longrightarrow> R (c, w) (c', w')"
    and join: "nimbleClientOnJoinGameResponse L c i w = Some (r, c', i', w') \<Longrightarrow> R (c, w) (c', w')"
    and slots: "nimbleClientOnJoinGameParticipantOutOfSpaceResponse L c i w = Some (r, c', i', w')
      \<Longrightarrow> R (c, w) (c', w')"
    and state_response: "state c \<noteq> NimbleClientStateDisconnected \<Longrightarrow>
      nimbleClientOnDownloadGameStateResponse L c i w = Some (r, c', i', w') \<Longrightarrow> R (c, w) (c', w')"
    and state_part: "state c \<noteq> NimbleClientStateDisconnected \<Longrightarrow>
      nimbleClientOnDownloadGameStatePart L c i w = Some (r, c', i', w') \<Longrightarrow> R (c, w) (c', w')"
    and steps: "nimbleClientOnGameStepResponse L c i w = Some (r, c', i', w') \<Longrightarrow> R (c, w) (c', w')"
    and ordered: "R (c, w) (c\<lparr>orderedDatagramIn := x\<rparr>, w)"
    and dropped: "R (c, w) (noteDroppedDatagrams L d c, w)"
begin

lemma dispatch:
  assumes "state c \<noteq> NimbleClientStateDisconnected"
    and "dispatchCommand L cmd c i w = Some (r, c', i', w')"
  shows "R (c, w) (c', w')"
  using assms connect join slots state_response state_part steps refl
  by (auto simp: dispatchCommand_def split: if_splits)

end

lemma pong_keeps_state:
  "nimbleClientReceivePong L c i w = Some (r, c', i', w') \<Longrightarrow> state c' = state c"
  by (elim pong_effect) simp_all

lemma noteDropped_keeps_state [simp]: "state (noteDroppedDatagrams L d c) = state c"
  by (simp add: noteDroppedDatagrams_def Let_def)

text \<open>The stages of a feed: what it does to the client is one of four things.\<close>

lemma feed_effect:
  assumes "nimbleClientFeed L c d n w = Some (r, c', w')"
  obtains (ignored) "c' = c" "w' = w" "n < 1 \<or> state c = NimbleClientStateDisconnected"
  | (stale) x where "r = -91" "c' = c\<lparr>orderedDatagramIn := x\<rparr>" "w' = w"
      "state c \<noteq> NimbleClientStateDisconnected"
  | (no_time) x delta i i' where "state c \<noteq> NimbleClientStateDisconnected" "0 < delta"
      "nimbleClientReceivePong L
        (if delta > 1 then noteDroppedDatagrams L delta (c\<lparr>orderedDatagramIn := x\<rparr>)
         else c\<lparr>orderedDatagramIn := x\<rparr>) i w = Some (r, c', i', w')" "r < 0"
  | (dispatched) x delta i e c1 i1 w1 cmd i2 i3 where "state c \<noteq> NimbleClientStateDisconnected"
      "0 < delta"
      "nimbleClientReceivePong L
        (if delta > 1 then noteDroppedDatagrams L delta (c\<lparr>orderedDatagramIn := x\<rparr>)
         else c\<lparr>orderedDatagramIn := x\<rparr>) i w = Some (e, c1, i1, w1)" "0 \<le> e"
      "dispatchCommand L cmd c1 i2 w1 = Some (r, c', i3, w')"
proof -
  let ?i = "(fldInStreamInit L d n)\<lparr>readDebugInfo := True\<rparr>"
  obtain k x i where ord: "orderedDatagramInLogicReceive L (orderedDatagramIn c) ?i = (k, x, i)"
    by (cases "orderedDatagramInLogicReceive L (orderedDatagramIn c) ?i") auto
  let ?c = "if k > 1 then noteDroppedDatagrams L k (c\<lparr>orderedDatagramIn := x\<rparr>)
            else c\<lparr>orderedDatagramIn := x\<rparr>"
  consider "n < 1 \<or> state c = NimbleClientStateDisconnected"
    | "\<not> n < 1" "state c \<noteq> NimbleClientStateDisconnected" "k \<le> 0"
    | "\<not> n < 1" "state c \<noteq> NimbleClientStateDisconnected" "0 < k"
    by linarith
  then show thesis
  proof cases
    case 1
    then have "nimbleClientFeed L c d n w = Some (if n < 1 then -1 else 0, c, w)"
      by (auto simp: nimbleClientFeed_def Let_def)
    with assms 1 show thesis by (intro ignored) simp_all
  next
    case 2
    then have "nimbleClientFeed L c d n w = Some (-91, c\<lparr>orderedDatagramIn := x\<rparr>, w)"
      by (simp add: nimbleClientFeed_def readAndCheckOrderedDatagram_def ord Let_def)
    with assms 2 show thesis by (intro stale [of x]) simp_all
  next
    case 3
    from 3 assms obtain e c1 i1 w1 where p: "nimbleClientReceivePong L ?c i w = Some (e, c1, i1, w1)"
      and rest: "(if e < 0 then Some (e, c1, w1)
        else (let (e', cmd, i2) = fldInStreamReadUInt8 L i1 in
          Option.bind (dispatchCommand L cmd c1 i2 w1) (\<lambda>(r, c, i, w). Some (r, c, w)))) = Some (r, c', w')"
      by (auto simp: nimbleClientFeed_def readAndCheckOrderedDatagram_def ord Let_def)
    show thesis
    proof (cases "e < 0")
      case True
      with rest p 3 show thesis by (intro no_time [of k x i i1]) auto
    next
      case False
      obtain e' cmd i2 where rd: "fldInStreamReadUInt8 L i1 = (e', cmd, i2)"
        by (cases "fldInStreamReadUInt8 L i1") auto
      from rest False obtain i3 where "dispatchCommand L cmd c1 i2 w1 = Some (r, c', i3, w')"
        by (auto simp: rd)
      with p 3 False show thesis by (intro dispatched [of k x i e c1 i1 w1 cmd i2 i3]) auto
    qed
  qed
qed

context incoming_contract
begin

lemma prepared:
  "R (c, w) (if delta > 1 then noteDroppedDatagrams L delta (c\<lparr>orderedDatagramIn := x\<rparr>)
             else c\<lparr>orderedDatagramIn := x\<rparr>, w)"
  using ordered [of c w x] dropped trans by (cases "delta > 1") auto

lemma feed:
  assumes "nimbleClientFeed L c d n w = Some (r, c', w')"
  shows "R (c, w) (c', w')"
  using assms
proof (cases rule: feed_effect)
  case ignored
  then show ?thesis using refl by simp
next
  case (stale x)
  then show ?thesis using ordered by simp
next
  case no_time
  then show ?thesis using prepared pong trans by blast
next
  case (dispatched x delta i e c1 i1 w1 cmd i2 i3)
  from pong_keeps_state [OF dispatched(3)] dispatched(1)
  have "state c1 \<noteq> NimbleClientStateDisconnected" by (simp split: if_splits)
  from dispatch [OF this dispatched(5)] pong [OF dispatched(3)] show ?thesis
    using prepared trans by blast
qed

end

text \<open>Induction over the receive loop: it ends without a datagram, ends in a refused one, or goes on.\<close>

definition count_in :: "('x, 'w) nimble_lib \<Rightarrow> 'x NimbleClient \<Rightarrow> 'x NimbleClient" where
  "count_in L c =
     (if useStats c then c\<lparr>packetsPerSecondIn := statsIntPerSecondAdd L (packetsPerSecondIn c) 1\<rparr> else c)"

lemma receive_induct [consumes 1, case_names finish refuse continue]:
  assumes ret: "receiveDatagrams L count c w = Some z"
    and finish: "\<And>count c w k b w1.
      transport_receive L (transport c) (DATAGRAM_TRANSPORT_MAX_SIZE L) w = (k, b, w1) \<Longrightarrow> k \<le> 0 \<Longrightarrow>
      Q c w (if k < 0 then k else int_of_size count, c, w1)"
    and refuse: "\<And>c w k b w1 e c2 w2.
      transport_receive L (transport c) (DATAGRAM_TRANSPORT_MAX_SIZE L) w = (k, b, w1) \<Longrightarrow> 0 < k \<Longrightarrow>
      nimbleClientFeed L (count_in L c) b (size_of_int k) w1 = Some (e, c2, w2) \<Longrightarrow> e < 0 \<Longrightarrow>
      Q c w (e, c2, w2)"
    and continue: "\<And>c w k b w1 e c2 w2 z.
      transport_receive L (transport c) (DATAGRAM_TRANSPORT_MAX_SIZE L) w = (k, b, w1) \<Longrightarrow> 0 < k \<Longrightarrow>
      nimbleClientFeed L (count_in L c) b (size_of_int k) w1 = Some (e, c2, w2) \<Longrightarrow> 0 \<le> e \<Longrightarrow>
      Q (c2\<lparr>quality := nimbleClientConnectionQualityReceivedUsableDatagram L (quality c2)\<rparr>) w2 z \<Longrightarrow>
      Q c w z"
  shows "Q c w z"
proof -
  have "L' = L \<longrightarrow> Q c w z" if "receiveDatagrams L' count c w = Some z" for L' count c w z
  proof (rule receiveDatagrams.raw_induct
      [where P = "\<lambda>L' count c w z. L' = L \<longrightarrow> Q c w z", OF _ that], rule impI)
    fix f :: "('a, 'b) nimble_lib \<Rightarrow> size_t \<Rightarrow> 'a NimbleClient \<Rightarrow> 'b world \<Rightarrow> (int \<times> 'a NimbleClient \<times> 'b world) option"
      and L' count c w z
    assume IH: "\<And>L' count c w z. f L' count c w = Some z \<Longrightarrow> L' = L \<longrightarrow> Q c w z" and "L' = L"
      and body: "(case transport_receive L' (transport c) (DATAGRAM_TRANSPORT_MAX_SIZE L') w of
        (n, receiveBuf, w) \<Rightarrow>
          if n > 0 then
            Option.bind
              (nimbleClientFeed L'
                (if useStats c
                 then c\<lparr>packetsPerSecondIn := statsIntPerSecondAdd L' (packetsPerSecondIn c) 1\<rparr>
                 else c)
                receiveBuf (size_of_int n) w)
              (\<lambda>r. case r of (err, self, w) \<Rightarrow>
                 if err < 0 then Some (err, self, w)
                 else f L' (count + 1)
                   (self\<lparr>quality := nimbleClientConnectionQualityReceivedUsableDatagram L' (quality self)\<rparr>)
                   w)
          else if n < 0 then Some (n, c, w)
          else Some (int_of_size count, c, w)) = Some z"
    note body = body [unfolded \<open>L' = L\<close>]
    obtain k b w1 where rc: "transport_receive L (transport c) (DATAGRAM_TRANSPORT_MAX_SIZE L) w = (k, b, w1)"
      by (cases "transport_receive L (transport c) (DATAGRAM_TRANSPORT_MAX_SIZE L) w") auto
    show "Q c w z"
    proof (cases "0 < k")
      case False
      then have "z = (if k < 0 then k else int_of_size count, c, w1)"
        using body by (auto simp: rc split: if_splits)
      then show ?thesis using finish [OF rc, of count] False by simp
    next
      case True
      obtain e c2 w2 where feed: "nimbleClientFeed L (count_in L c) b (size_of_int k) w1 = Some (e, c2, w2)"
        and rest: "(if e < 0 then Some (e, c2, w2) else f L (count + 1)
            (c2\<lparr>quality := nimbleClientConnectionQualityReceivedUsableDatagram L (quality c2)\<rparr>) w2) = Some z"
        using body True by (auto simp: rc count_in_def)
      show ?thesis
      proof (cases "e < 0")
        case True
        then show ?thesis using refuse [OF rc \<open>0 < k\<close> feed] rest by simp
      next
        case False
        then have "f L (count + 1)
            (c2\<lparr>quality := nimbleClientConnectionQualityReceivedUsableDatagram L (quality c2)\<rparr>) w2 = Some z"
          using rest by simp
        from IH [OF this] continue [OF rc \<open>0 < k\<close> feed] False show ?thesis by simp
      qed
    qed
  qed
  with ret show ?thesis by blast
qed

locale receive_contract = incoming_contract +
  assumes received: "transport_receive L tr n w = (k, b, w') \<Longrightarrow> R (c, w) (c, w')"
    and counted: "R (c, w) (c\<lparr>packetsPerSecondIn := y\<rparr>, w)"
    and usable: "R (c, w)
      (c\<lparr>quality := nimbleClientConnectionQualityReceivedUsableDatagram L (quality c)\<rparr>, w)"
begin

lemma count_in: "R (c, w) (count_in L c, w)"
  using counted refl by (simp add: count_in_def)

lemma receive_feed:
  assumes "transport_receive L (transport c) n w = (k, b, w1)"
    and "nimbleClientFeed L (count_in L c) b m w1 = Some (e, c2, w2)"
  shows "R (c, w) (c2, w2)"
  using received [OF assms(1)] count_in feed [OF assms(2)] trans by blast

lemma loop:
  assumes "receiveDatagrams L count c w = Some z"
  shows "R (c, w) (snd z)"
  using assms
proof (induction rule: receive_induct)
  case (finish count c w k b w1)
  then show ?case using received by simp
next
  case (refuse c w k b w1 e c2 w2)
  then show ?case using receive_feed by simp
next
  case (continue c w k b w1 e c2 w2 z)
  show ?case by (rule trans [OF receive_feed [OF continue(1,3)] trans [OF usable continue(5)]])
qed

lemma receive_all:
  "nimbleClientReceiveAllDatagramsFromTransport L c w = Some (r, c', w') \<Longrightarrow> R (c, w) (c', w')"
  unfolding nimbleClientReceiveAllDatagramsFromTransport_def by (drule loop) simp

text \<open>A coarser transitive relation has the contract too.\<close>

lemma coarser:
  assumes "\<And>s t. R s t \<Longrightarrow> R' s t" "\<And>s t u. R' s t \<Longrightarrow> R' t u \<Longrightarrow> R' s u"
  shows "receive_contract L R'"
  by unfold_locales
     (blast intro: assms refl pong connect join slots state_response state_part steps ordered
       dropped received counted usable)+

end

section \<open>Frame: what receiving leaves alone\<close>

text \<open>
  The configuration, the outgoing side, the watchdog's level and verdict, and everything sent.
\<close>

definition config_kept ::
    "'x NimbleClient \<times> 'w world \<Rightarrow> 'x NimbleClient \<times> 'w world \<Rightarrow> bool" where
  "config_kept s t \<longleftrightarrow> (case s of (c, w) \<Rightarrow> case t of (c', w') \<Rightarrow>
     transport c' = transport c \<and> useStats c' = useStats c
     \<and> expectedTickDurationMs c' = expectedTickDurationMs c
     \<and> downloadStateClientRequestId c' = downloadStateClientRequestId c
     \<and> blobStreamAllocator c' = blobStreamAllocator c
     \<and> orderedDatagramOut c' = orderedDatagramOut c
     \<and> packetsPerSecondOut c' = packetsPerSecondOut c
     \<and> sentStepsDatagramCountPerSecond c' = sentStepsDatagramCountPerSecond c
     \<and> joinGameRequest c' = joinGameRequest c
     \<and> lastUpdateMonotonicMsIsSet c' = lastUpdateMonotonicMsIsSet c
     \<and> lastUpdateMonotonicMs c' = lastUpdateMonotonicMs c
     \<and> tickDuration c' = tickDuration c
     \<and> consideringDisconnectCounter (quality c') = consideringDisconnectCounter (quality c)
     \<and> reason (quality c') = reason (quality c)
     \<and> sent w' = sent w)"

lemma quality_reports_frame [simp]:
  "consideringDisconnectCounter (nimbleClientConnectionQualityGameStepLatency L n q)
     = consideringDisconnectCounter q"
  "reason (nimbleClientConnectionQualityGameStepLatency L n q) = reason q"
  "consideringDisconnectCounter (nimbleClientConnectionQualityReceivedAuthoritativeSteps k q)
     = consideringDisconnectCounter q"
  "reason (nimbleClientConnectionQualityReceivedAuthoritativeSteps k q) = reason q"
  "consideringDisconnectCounter (nimbleClientConnectionQualityReceivedUsableDatagram L q)
     = consideringDisconnectCounter q"
  "reason (nimbleClientConnectionQualityReceivedUsableDatagram L q) = reason q"
  "consideringDisconnectCounter (nimbleClientConnectionQualityDroppedDatagrams L n q)
     = consideringDisconnectCounter q"
  "reason (nimbleClientConnectionQualityDroppedDatagrams L n q) = reason q"
  by (simp_all add: nimbleClientConnectionQualityGameStepLatency_def
      nimbleClientConnectionQualityReceivedAuthoritativeSteps_def
      nimbleClientConnectionQualityReceivedUsableDatagram_def
      nimbleClientConnectionQualityDroppedDatagrams_def Let_def)

lemma time_now_sent: "time_now L w = (now, w') \<Longrightarrow> sent w' = sent w"
  by (auto simp: time_now_def split: prod.splits)

interpretation config: receive_contract L config_kept
  for L :: "('x, 'w) nimble_lib"
proof (unfold_locales, goal_cases)
  case 3
  then show ?case by (elim pong_effect) (simp_all add: config_kept_def time_now_sent)
next
  case 8
  then show ?case by (elim state_part_effect init_SomeE) (simp_all add: config_kept_def)
next
  case 9
  then show ?case by (elim step_response_effect) (simp_all add: config_kept_def)
next
  case 12
  then show ?case by (auto simp: config_kept_def transport_receive_def split: prod.splits)
qed (auto simp: config_kept_def noteDroppedDatagrams_def Let_def elim!: handler_effects)

section \<open>The state machine the server drives\<close>

text \<open>The transitions of the client's state that a datagram can cause.\<close>

inductive server_step :: "NimbleClientState \<Rightarrow> NimbleClientState \<Rightarrow> bool" where
  connected: "server_step NimbleClientStateRequestingConnect NimbleClientStateConnected"
| downloading: "st \<noteq> NimbleClientStateDisconnected \<Longrightarrow>
    server_step st NimbleClientStateJoiningDownloadingState"
| downloaded: "st \<noteq> NimbleClientStateDisconnected \<Longrightarrow> st \<noteq> NimbleClientStateSynced \<Longrightarrow>
    server_step st NimbleClientStateSynced"

inductive_cases server_step_fromE: "server_step NimbleClientStateDisconnected t"

inductive_simps server_step_iff: "server_step s t"

definition server_steps ::
    "'x NimbleClient \<times> 'w world \<Rightarrow> 'x NimbleClient \<times> 'w world \<Rightarrow> bool" where
  "server_steps s t \<longleftrightarrow> server_step\<^sup>*\<^sup>* (state (fst s)) (state (fst t))"

interpretation server: receive_contract L server_steps
  for L :: "('x, 'w) nimble_lib"
proof (unfold_locales, goal_cases)
  case (2 s t u)
  then show ?case by (simp add: server_steps_def)
next
  case 3
  then show ?case by (elim pong_effect) (simp_all add: server_steps_def)
next
  case 4
  then show ?case
    by (elim connect_effect) (auto simp: server_steps_def intro: server_step.connected)
next
  case 7
  then show ?case
    by (elim state_response_effect) (auto simp: server_steps_def intro: server_step.downloading)
next
  case 8
  then show ?case
    by (elim state_part_effect) (auto simp: server_steps_def intro: server_step.downloaded)
next
  case 9
  then show ?case by (elim step_response_effect) (simp_all add: server_steps_def)
qed (auto simp: server_steps_def elim!: handler_effects)

section \<open>The invariant\<close>

lemma storeParticipants_lengths:
  "storeParticipantsFrom ps n i es = Some es' \<Longrightarrow>
     length es' = length es \<and> (i \<le> unat n \<longrightarrow> unat n \<le> length es \<or> i = unat n)"
proof (induction ps n i es rule: storeParticipantsFrom.induct)
  case (1 ps n i es)
  show ?case
  proof (cases "i < unat n")
    case True
    then have "i < length ps \<and> i < length es"
      using "1.prems" by (subst (asm) storeParticipantsFrom.simps) (simp split: if_splits)
    with True 1 show ?thesis
      by (subst (asm) (2) storeParticipantsFrom.simps) auto
  next
    case False
    then show ?thesis using "1.prems" by (subst (asm) storeParticipantsFrom.simps) simp
  qed
qed

lemma storeParticipants_bound:
  assumes "storeParticipantsFrom ps n 0 es = Some es'"
  shows "length es' = length es" "unat n \<le> length es"
  using storeParticipants_lengths [OF assms] by auto

lemma storeParticipants_bound':
  "storeParticipantsFrom ps n 0 es = Some es' \<Longrightarrow> length es = k \<Longrightarrow> unat n \<le> k"
  using storeParticipants_bound by blast

definition ok_kept ::
    "'x NimbleClient \<times> 'w world \<Rightarrow> 'x NimbleClient \<times> 'w world \<Rightarrow> bool" where
  "ok_kept s t \<longleftrightarrow> (client_ok (fst s) (heap (snd s)) \<longrightarrow> client_ok (fst t) (heap (snd t)))"

lemma game_state_ok_stepId [simp]: "game_state_ok (g\<lparr>stepId := i\<rparr>) h \<longleftrightarrow> game_state_ok g h"
  by (auto simp: game_state_ok_def split: option.splits)

interpretation invariant: receive_contract L ok_kept
  for L :: "('x, 'w) nimble_lib"
proof (unfold_locales, goal_cases)
  case 3
  then show ?case
    by (elim pong_effect) (simp_all add: ok_kept_def client_ok_def time_now_frame)
next
  case 5
  then show ?case
    by (elim join_effect) (auto simp: ok_kept_def client_ok_def dest: storeParticipants_bound storeParticipants_bound')
next
  case 8
  then show ?case
    by (elim state_part_effect)
       (auto simp: ok_kept_def client_ok_def dest: game_state_ok_init)
next
  case 9
  then show ?case by (elim step_response_effect) (simp_all add: ok_kept_def client_ok_def)
next
  case (12 tr n w k b w' c)
  then show ?case by (simp add: ok_kept_def transport_receive_frame)
qed (auto simp: ok_kept_def client_ok_def noteDroppedDatagrams_def Let_def elim!: handler_effects)

end
