(* ===== verification/IncomingProperties.thy ===== *)
theory IncomingProperties
  imports IncomingContracts
begin

text \<open>
  Properties of the receiving side: it returns and has no undefined behaviour, it refuses
  what it must refuse without a trace, and each message has the effect that it stands for.
\<close>

section \<open>The world's part in receiving\<close>

text \<open>
  A handler only reads the clock and allocates: the outside world goes through a sequence of
  these two calls.
\<close>

inductive library_calls :: "('x, 'w) nimble_lib \<Rightarrow> 'w \<Rightarrow> 'w \<Rightarrow> bool" for L where
  none: "library_calls L o' o'"
| clock: "library_calls L o1 o2 \<Longrightarrow> library_calls L o1 (snd (monotonicTimeMsNow L o2))"
| alloc: "library_calls L o1 o2 \<Longrightarrow> library_calls L o1 (snd (imprintAlloc L a n o2))"

lemma library_calls_trans:
  "library_calls L o2 o3 \<Longrightarrow> library_calls L o1 o2 \<Longrightarrow> library_calls L o1 o3"
  by (induction rule: library_calls.induct) (auto intro: library_calls.intros)

lemma library_calls_measure:
  assumes "\<And>x. m (snd (monotonicTimeMsNow L x)) \<le> (m x :: nat)"
    and "\<And>a n x. m (snd (imprintAlloc L a n x)) \<le> m x"
  shows "library_calls L x y \<Longrightarrow> m y \<le> m x"
  by (induction rule: library_calls.induct) (auto intro: assms order_trans)

definition calls_only ::
    "('x, 'w) nimble_lib \<Rightarrow> 'x NimbleClient \<times> 'w world \<Rightarrow> 'x NimbleClient \<times> 'w world \<Rightarrow> bool" where
  "calls_only L s t \<longleftrightarrow> library_calls L (outside (snd s)) (outside (snd t))"

lemma calls_now: "time_now L w = (now, w') \<Longrightarrow> library_calls L (outside w) (outside w')"
  using library_calls.clock [OF library_calls.none, of L "outside w"]
  by (auto simp: time_now_def split: prod.splits)

lemma calls_init:
  assumes "nimbleClientGameStateInit L g a step src count w = Some (g', w')"
  shows "library_calls L (outside w) (outside w')"
  using assms library_calls.alloc [OF library_calls.none, of L "outside w" a count]
  by (elim init_SomeE) simp

interpretation calls: incoming_contract L "calls_only L"
  for L :: "('x, 'w) nimble_lib"
proof (unfold_locales, goal_cases)
  case (1 s)
  then show ?case by (simp add: calls_only_def library_calls.none)
next
  case (2 s t u)
  then show ?case by (auto simp: calls_only_def intro: library_calls_trans)
next
  case 3
  then show ?case
    by (elim pong_effect) (simp_all add: calls_only_def library_calls.none calls_now)
next
  case 8
  then show ?case
    by (elim state_part_effect) (simp_all add: calls_only_def library_calls.none calls_init)
qed (auto simp: calls_only_def library_calls.none elim!: handler_effects)

section \<open>No undefined behaviour\<close>

text \<open>
  What the client relies on but does not check. \<open>join_answers_ok\<close>: a join answer has at most eight
  participants and as many as it counts. \<open>blob_streams_ok\<close>: the blob stream library works on the streams
  that \<open>G\<close> describes, those that were set up, with a logic that leads to its stream; it leaves them
  so, and when one is complete it has as many octets as it counts. Nothing is said of any other
  stream, for instance one of memory that was never set up.
\<close>

definition join_answers_ok :: "('x, 'w) nimble_lib \<Rightarrow> bool" where
  "join_answers_ok L \<longleftrightarrow>
     (\<forall>s. case nimbleSerializeClientInJoinGameResponse L s of (e, resp, s') \<Rightarrow>
        e < 0 \<or> (unat (participantCount resp) \<le> NIMBLE_CLIENT_MAX_LOCAL_USERS_COUNT
                 \<and> unat (participantCount resp) \<le> length (participants resp)))"

definition blob_streams_ok :: "('x, 'w) nimble_lib \<Rightarrow> ('x \<Rightarrow> 'x BlobStreamIn \<Rightarrow> bool) \<Rightarrow> bool" where
  "blob_streams_ok L G \<longleftrightarrow>
     (\<forall>l b s t. G l b \<longrightarrow>
        (case blobStreamLogicInReceive L l b s of (e, l', b', s') \<Rightarrow> G l' b')
        \<and> (case blobStreamLogicInSend L l t of (e, l', t') \<Rightarrow> G l' b)
        \<and> (blobStreamInIsComplete L b \<longrightarrow> unat (octetCount b) \<le> length (blob b)))"

definition holds_stream :: "('x \<Rightarrow> 'x BlobStreamIn \<Rightarrow> bool) \<Rightarrow> 'x NimbleClient \<Rightarrow> bool" where
  "holds_stream G c \<longleftrightarrow> G (blobStreamInLogic c) (blobStreamIn c)"

text \<open>The two at once, for a library that works on every stream that there can be.\<close>

definition answers_ok :: "('x, 'w) nimble_lib \<Rightarrow> bool" where
  "answers_ok L \<longleftrightarrow>
     (\<forall>s. case nimbleSerializeClientInJoinGameResponse L s of (e, resp, s') \<Rightarrow>
        e < 0 \<or> (unat (participantCount resp) \<le> NIMBLE_CLIENT_MAX_LOCAL_USERS_COUNT
                 \<and> unat (participantCount resp) \<le> length (participants resp)))
     \<and> (\<forall>b. blobStreamInIsComplete L b \<longrightarrow> unat (octetCount b) \<le> length (blob b))"

lemma answers_ok_parts:
  assumes "answers_ok L"
  shows "join_answers_ok L" "blob_streams_ok L (\<lambda>l b. True)"
  using assms by (simp_all add: answers_ok_def join_answers_ok_def blob_streams_ok_def)

lemma holds_some_stream [simp]: "holds_stream (\<lambda>l b. True) c"
  by (simp add: holds_stream_def)

lemma join_answer_ok:
  assumes "join_answers_ok L" "nimbleSerializeClientInJoinGameResponse L s = (e, resp, s')" "\<not> e < 0"
  shows "unat (participantCount resp) \<le> NIMBLE_CLIENT_MAX_LOCAL_USERS_COUNT"
    and "unat (participantCount resp) \<le> length (participants resp)"
  using assms(1) [unfolded join_answers_ok_def, THEN spec, of s] assms(2,3) by simp_all

lemma blob_stream_received:
  "blob_streams_ok L G \<Longrightarrow> G l b \<Longrightarrow> blobStreamLogicInReceive L l b s = (e, l', b', s') \<Longrightarrow> G l' b'"
  unfolding blob_streams_ok_def by (metis (no_types, lifting) case_prod_conv)

lemma blob_stream_sent:
  "blob_streams_ok L G \<Longrightarrow> G l b \<Longrightarrow> blobStreamLogicInSend L l t = (e, l', t') \<Longrightarrow> G l' b"
  unfolding blob_streams_ok_def by (metis (no_types, lifting) case_prod_conv)

lemma blob_ok: "blob_streams_ok L G \<Longrightarrow> G l b \<Longrightarrow> blobStreamInIsComplete L b \<Longrightarrow> unat (octetCount b) \<le> length (blob b)"
  by (simp add: blob_streams_ok_def)

text \<open>A client that holds such a stream holds one after everything that receiving does.\<close>

definition stream_held ::
    "('x, 'w) nimble_lib \<Rightarrow> ('x \<Rightarrow> 'x BlobStreamIn \<Rightarrow> bool)
     \<Rightarrow> 'x NimbleClient \<times> 'w world \<Rightarrow> 'x NimbleClient \<times> 'w world \<Rightarrow> bool" where
  "stream_held L G s t \<longleftrightarrow> (blob_streams_ok L G \<longrightarrow> holds_stream G (fst s) \<longrightarrow> holds_stream G (fst t))"

lemma state_part_stream:
  assumes "nimbleClientOnDownloadGameStatePart L c s w = Some (r, c', s', w')"
  shows "stream_held L G (c, w) (c', w')"
proof -
  obtain e ch s1 where rd: "nimbleSerializeInBlobStreamChannelId L s = (e, ch, s1)"
    by (cases "nimbleSerializeInBlobStreamChannelId L s") auto
  obtain res l b s2 where blob: "blobStreamLogicInReceive L (blobStreamInLogic c) (blobStreamIn c) s1
      = (res, l, b, s2)"
    by (cases "blobStreamLogicInReceive L (blobStreamInLogic c) (blobStreamIn c) s1") auto
  have "blobStreamInLogic c' = blobStreamInLogic c \<and> blobStreamIn c' = blobStreamIn c
    \<or> blobStreamInLogic c' = l \<and> blobStreamIn c' = b"
    using assms
    by (auto simp: nimbleClientOnDownloadGameStatePart_def rd blob trySetInitialGameState_def Let_def
        split: if_splits)
  then show ?thesis by (auto simp: stream_held_def holds_stream_def dest: blob_stream_received [OF _ _ blob])
qed

interpretation held_receives: receive_contract L "stream_held L G"
  for L :: "('x, 'w) nimble_lib"
proof (unfold_locales, goal_cases)
  case 3
  then show ?case by (elim pong_effect) (simp_all add: stream_held_def holds_stream_def)
next
  case 8
  from 8(2) show ?case by (rule state_part_stream)
next
  case 9
  then show ?case by (elim step_response_effect) (simp_all add: stream_held_def holds_stream_def)
qed (auto simp: stream_held_def holds_stream_def noteDroppedDatagrams_def Let_def elim!: handler_effects)

text \<open>Storing the participants, written without a loop.\<close>

definition entry_of ::
    "NimbleSerializeJoinGameResponseParticipant \<Rightarrow> NimbleClientParticipantEntry" where
  "entry_of p = \<lparr>isUsed = True, localUserDeviceIndex = of_nat (localIndex p),
                 participantId = of_nat (responseParticipantId p)\<rparr>"

lemma storeParticipants_result:
  assumes "unat n \<le> length ps" "unat n \<le> length es" "i \<le> unat n"
  shows "storeParticipantsFrom ps n i es =
    Some (take i es @ map entry_of (drop i (take (unat n) ps)) @ drop (unat n) es)"
  using assms
proof (induction ps n i es rule: storeParticipantsFrom.induct)
  case (1 ps n i es)
  show ?case
  proof (cases "i < unat n")
    case True
    let ?e = "(es ! i)\<lparr>localUserDeviceIndex := of_nat (localIndex (ps ! i)),
                 participantId := of_nat (responseParticipantId (ps ! i)), isUsed := True\<rparr>"
    have e: "?e = entry_of (ps ! i)" by (simp add: entry_of_def)
    have "drop i (take (unat n) ps) = ps ! i # drop (Suc i) (take (unat n) ps)"
      using True "1.prems" by (simp add: Cons_nth_drop_Suc [symmetric])
    moreover have "take (Suc i) (es[i := ?e]) = take i es @ [entry_of (ps ! i)]"
      using True "1.prems" e by (simp add: take_Suc_conv_app_nth)
    ultimately show ?thesis
      using 1 True by (subst storeParticipantsFrom.simps) (simp add: e)
  next
    case False
    with "1.prems" have "i = unat n" by simp
    then show ?thesis by (subst storeParticipantsFrom.simps) simp
  qed
qed

lemma trySet_defined:
  assumes "unat (octetCount (blobStreamIn c)) \<le> length (blob (blobStreamIn c))"
  shows "\<exists>c' w'. trySetInitialGameState L c w = Some (c', w')"
proof -
  obtain g w1 where "nimbleClientGameStateInit L (joinedGameState c) (blobStreamAllocator c)
      (joinStateId c) (blob (blobStreamIn c)) (octetCount (blobStreamIn c)) w = Some (g, w1)"
    using init_result [OF assms, of L "joinedGameState c" "blobStreamAllocator c" "joinStateId c" w]
    by (auto split: prod.splits)
  then show ?thesis by (simp add: trySetInitialGameState_def Let_def)
qed

lemma state_part_defined:
  assumes "blob_streams_ok L G" "holds_stream G c"
  shows "\<exists>r. nimbleClientOnDownloadGameStatePart L c s w = Some r"
proof -
  obtain e ch s1 where rd: "nimbleSerializeInBlobStreamChannelId L s = (e, ch, s1)"
    by (cases "nimbleSerializeInBlobStreamChannelId L s") auto
  obtain res l b s2 where bl: "blobStreamLogicInReceive L (blobStreamInLogic c) (blobStreamIn c) s1
      = (res, l, b, s2)"
    by (cases "blobStreamLogicInReceive L (blobStreamInLogic c) (blobStreamIn c) s1") auto
  let ?c = "c\<lparr>blobStreamInLogic := l, blobStreamIn := b\<rparr>"
  have eq: "nimbleClientOnDownloadGameStatePart L c s w =
    (if ch \<noteq> joinStateChannel c then Some (0, c, s1, w)
     else if res < 0 then Some (res, ?c, s2, w)
     else if blobStreamInIsComplete L b
     then Option.bind (trySetInitialGameState L ?c w) (\<lambda>(c, w). Some (0, c, s2, w))
     else Some (0, ?c, s2, w))"
    by (simp add: nimbleClientOnDownloadGameStatePart_def rd bl Let_def)
  show ?thesis
  proof (cases "blobStreamInIsComplete L b")
    case True
    have "G l b" using blob_stream_received [OF assms(1) _ bl] assms(2) by (simp add: holds_stream_def)
    then have "unat (octetCount (blobStreamIn ?c)) \<le> length (blob (blobStreamIn ?c))"
      using blob_ok [OF assms(1) _ True] by simp
    from trySet_defined [OF this, of L w] obtain c' w' where "trySetInitialGameState L ?c w = Some (c', w')"
      by blast
    then show ?thesis by (simp add: eq)
  qed (simp add: eq)
qed

lemma join_defined:
  assumes "join_answers_ok L" "length (localParticipantLookup c) = NIMBLE_CLIENT_MAX_LOCAL_USERS_COUNT"
  shows "\<exists>r. nimbleClientOnJoinGameResponse L c s w = Some r"
proof -
  obtain e resp s1 where rd: "nimbleSerializeClientInJoinGameResponse L s = (e, resp, s1)"
    by (cases "nimbleSerializeClientInJoinGameResponse L s") auto
  show ?thesis
    using join_answer_ok [OF assms(1) rd] assms(2)
    by (cases "e < 0") (auto simp: nimbleClientOnJoinGameResponse_def rd storeParticipants_result Let_def)
qed

lemma pong_defined: "\<exists>r. nimbleClientReceivePong L c s w = Some r"
  by (cases "fldInStreamReadUInt16 L (fldInStreamCheckMarker L s 0xdd)"; cases "time_now L w")
     (auto simp: nimbleClientReceivePong_def Let_def)

lemma step_response_defined: "\<exists>r. nimbleClientOnGameStepResponse L c s w = Some r"
proof -
  obtain c1 s1 where hd: "readStepResponseHead L c s = (c1, s1)" by fastforce
  obtain k s2 p where ser: "nbsPendingStepsInSerialize L s1 (authoritativePendingStepsFromServer c1) = (k, s2, p)"
    by (cases "nbsPendingStepsInSerialize L s1 (authoritativePendingStepsFromServer c1)") auto
  obtain cr q p' where cp: "nbsPendingStepsCopy L (authoritativeStepsFromServer c1) p = (cr, q, p')"
    by (cases "nbsPendingStepsCopy L (authoritativeStepsFromServer c1) p") auto
  show ?thesis by (simp add: nimbleClientOnGameStepResponse_def hd ser cp Let_def)
qed

lemma dispatch_defined:
  assumes "join_answers_ok L" "blob_streams_ok L G" "holds_stream G c"
    and "length (localParticipantLookup c) = NIMBLE_CLIENT_MAX_LOCAL_USERS_COUNT"
  shows "\<exists>r. dispatchCommand L cmd c s w = Some r"
proof -
  have "\<exists>r. nimbleClientOnConnectResponse L c s w = Some r"
    "\<exists>r. nimbleClientOnDownloadGameStateResponse L c s w = Some r"
    "\<exists>r. nimbleClientOnJoinGameParticipantOutOfSpaceResponse L c s w = Some r"
    by (auto simp: nimbleClientOnConnectResponse_def nimbleClientOnDownloadGameStateResponse_def
        nimbleClientOnJoinGameParticipantOutOfSpaceResponse_def Let_def split: prod.split)
  then show ?thesis
    using state_part_defined [OF assms(2,3), of s w] join_defined [OF assms(1,4), of s w]
      step_response_defined [of L c s w]
    unfolding dispatchCommand_def by (simp split: if_split) (auto split: prod.split)
qed

lemma feed_defined_on:
  assumes "join_answers_ok L" "blob_streams_ok L G" "holds_stream G c"
    and "length (localParticipantLookup c) = NIMBLE_CLIENT_MAX_LOCAL_USERS_COUNT"
  shows "\<exists>r. nimbleClientFeed L c d n w = Some r"
proof -
  let ?i = "(fldInStreamInit L d n)\<lparr>readDebugInfo := True\<rparr>"
  obtain k x i where ord: "orderedDatagramInLogicReceive L (orderedDatagramIn c) ?i = (k, x, i)"
    by (cases "orderedDatagramInLogicReceive L (orderedDatagramIn c) ?i") auto
  let ?c = "if k > 1 then noteDroppedDatagrams L k (c\<lparr>orderedDatagramIn := x\<rparr>)
            else c\<lparr>orderedDatagramIn := x\<rparr>"
  have len: "length (localParticipantLookup ?c) = NIMBLE_CLIENT_MAX_LOCAL_USERS_COUNT"
    and held: "holds_stream G ?c"
    using assms(3,4) by (simp_all add: noteDroppedDatagrams_def holds_stream_def Let_def)
  obtain e c1 i1 w1 where p: "nimbleClientReceivePong L ?c i w = Some (e, c1, i1, w1)"
    using pong_defined [of L ?c i w] by auto
  obtain e' cmd i2 where rd: "fldInStreamReadUInt8 L i1 = (e', cmd, i2)"
    by (cases "fldInStreamReadUInt8 L i1") auto
  have "length (localParticipantLookup c1) = NIMBLE_CLIENT_MAX_LOCAL_USERS_COUNT"
    "holds_stream G c1"
    using p len held by (elim pong_effect; simp add: holds_stream_def)+
  from dispatch_defined [OF assms(1,2) this(2,1)] obtain z where "dispatchCommand L cmd c1 i2 w1 = Some z"
    by blast
  then show ?thesis
    using p by (cases z)
      (auto simp: nimbleClientFeed_def readAndCheckOrderedDatagram_def ord rd Let_def)
qed

lemma feed_defined:
  assumes "answers_ok L" "length (localParticipantLookup c) = NIMBLE_CLIENT_MAX_LOCAL_USERS_COUNT"
  shows "\<exists>r. nimbleClientFeed L c d n w = Some r"
  by (rule feed_defined_on [OF answers_ok_parts [OF assms(1)] holds_some_stream assms(2)])

section \<open>The receive loop returns\<close>

lemma feed_lookup_length:
  assumes "nimbleClientFeed L c d n w = Some (e, c', w')" "client_ok c (heap w)"
  shows "client_ok c' (heap w')"
  using invariant.feed [OF assms(1)] assms(2) by (simp add: ok_kept_def)

text \<open>A measure of what the transport still holds: receiving takes from it, the clock and the
  allocator do not add to it.\<close>

definition drains :: "('x, 'w) nimble_lib \<Rightarrow> ('w \<Rightarrow> nat) \<Rightarrow> bool" where
  "drains L m \<longleftrightarrow>
     (\<forall>tr n x. case datagramTransportReceive L tr n x of (k, b, y) \<Rightarrow> m y \<le> m x \<and> (0 < k \<longrightarrow> m y < m x))
     \<and> (\<forall>x. m (snd (monotonicTimeMsNow L x)) \<le> m x)
     \<and> (\<forall>a n x. m (snd (imprintAlloc L a n x)) \<le> m x)"

lemma drains_receive:
  assumes "drains L m" "transport_receive L tr n w = (k, b, w')" "0 < k"
  shows "m (outside w') < m (outside w)"
  using assms(1) [unfolded drains_def, THEN conjunct1, THEN spec, of tr, THEN spec, of n, THEN spec,
      of "outside w"] assms(2,3)
  by (auto simp: transport_receive_def split: prod.splits)

lemma drains_calls: "drains L m \<Longrightarrow> library_calls L x y \<Longrightarrow> m y \<le> m x"
  by (rule library_calls_measure) (auto simp: drains_def)

lemma loop_defined_on:
  assumes "join_answers_ok L" "blob_streams_ok L G" "drains L m"
  shows "client_ok c (heap w) \<Longrightarrow> holds_stream G c \<Longrightarrow> \<exists>r c' w'. receiveDatagrams L count c w = Some (r, c', w')"
proof (induction "m (outside w)" arbitrary: count c w rule: less_induct)
  case less
  obtain k b w1 where rc: "transport_receive L (transport c) (DATAGRAM_TRANSPORT_MAX_SIZE L) w = (k, b, w1)"
    by (cases "transport_receive L (transport c) (DATAGRAM_TRANSPORT_MAX_SIZE L) w") auto
  have heap1: "heap w1 = heap w" using rc by (rule transport_receive_frame)
  show ?case
  proof (cases "0 < k")
    case False
    then show ?thesis by (subst receiveDatagrams.simps) (simp add: rc)
  next
    case True
    have ok1: "client_ok (count_in L c) (heap w1)"
      using less.prems(1) by (simp add: heap1 count_in_def client_ok_def)
    then have len: "length (localParticipantLookup (count_in L c)) = NIMBLE_CLIENT_MAX_LOCAL_USERS_COUNT"
      by (simp add: client_ok_def)
    have held1: "holds_stream G (count_in L c)"
      using less.prems(2) by (simp add: holds_stream_def count_in_def)
    obtain e c2 w2 where feed: "nimbleClientFeed L (count_in L c) b (size_of_int k) w1 = Some (e, c2, w2)"
      using feed_defined_on [OF assms(1,2) held1 len, of b "size_of_int k" w1] by auto
    let ?c3 = "c2\<lparr>quality := nimbleClientConnectionQualityReceivedUsableDatagram L (quality c2)\<rparr>"
    have "m (outside w2) < m (outside w)"
      using drains_calls [OF assms(3), of "outside w1" "outside w2"] calls.feed [OF feed]
        drains_receive [OF assms(3) rc True] by (simp add: calls_only_def)
    moreover have "client_ok ?c3 (heap w2)"
      using feed_lookup_length [OF feed ok1] by (simp add: client_ok_def)
    moreover have "holds_stream G ?c3"
      using held_receives.feed [OF feed, of G] assms(2) held1 by (simp add: stream_held_def holds_stream_def)
    ultimately obtain r c' w' where "receiveDatagrams L (count + 1) ?c3 w2 = Some (r, c', w')"
      using less.hyps [of w2 ?c3 "count + 1"] by auto
    then show ?thesis
      using True feed by (subst receiveDatagrams.simps) (simp add: rc count_in_def)
  qed
qed

lemma loop_defined:
  assumes "answers_ok L" "drains L m" "client_ok c (heap w)"
  shows "\<exists>r c' w'. receiveDatagrams L count c w = Some (r, c', w')"
  by (rule loop_defined_on [OF answers_ok_parts [OF assms(1)] assms(2,3) holds_some_stream])

section \<open>Properties\<close>

text \<open>
  C15. Receiving is total and safe: from a client that satisfies its invariant, with a transport
  that hands out finitely many datagrams, \<open>nimbleClientReceiveAllDatagramsFromTransport\<close>
  returns without undefined behaviour whatever octets the datagrams hold; it keeps the
  invariant, moves the state only along the transitions that a server may cause, sends
  nothing, and leaves the verdict of the connection watchdog alone.
\<close>

theorem receive_total_and_safe:
  assumes "client_ok c (heap w)" "answers_ok L" "drains L m"
  shows "\<exists>r c' w'. nimbleClientReceiveAllDatagramsFromTransport L c w = Some (r, c', w')
    \<and> client_ok c' (heap w') \<and> server_step\<^sup>*\<^sup>* (state c) (state c')
    \<and> sent w' = sent w \<and> reason (quality c') = reason (quality c)"
proof -
  obtain r c' w' where rc: "nimbleClientReceiveAllDatagramsFromTransport L c w = Some (r, c', w')"
    using loop_defined [OF assms(2,3,1), of 0]
    by (auto simp: nimbleClientReceiveAllDatagramsFromTransport_def)
  show ?thesis
    using rc invariant.receive_all [OF rc] server.receive_all [OF rc] config.receive_all [OF rc] assms(1)
    by (simp add: ok_kept_def server_steps_def config_kept_def)
qed

lemma sample_answers_ok: "answers_ok sampleLib"
proof -
  have "unat (of_nat (min n 8) :: size_t) = min n 8" for n
    by (simp add: unat_of_nat)
  then show ?thesis
    by (simp add: answers_ok_def sampleLib_def sample_join_response_def Let_def
        NIMBLE_CLIENT_MAX_LOCAL_USERS_COUNT_def)
qed

lemma sample_drains: "drains sampleLib (\<lambda>(ds, t, p). length ds)"
  by (auto simp: drains_def sampleLib_def sample_receive_def split: prod.splits list.splits)

theorem receive_total_and_safe_witness:
  "\<exists>r c' w'. nimbleClientReceiveAllDatagramsFromTransport sampleLib
      (sample_client NimbleClientStateSynced NimbleJoiningStateJoiningParticipant 0 0)
      (sample_world [[1, 0, 50, 14, 7, 3], [9]]) = Some (r, c', w') \<and> client_ok c' (heap w')"
  using receive_total_and_safe [of
      "sample_client NimbleClientStateSynced NimbleJoiningStateJoiningParticipant 0 0"
      "sample_world [[1, 0, 50, 14, 7, 3], [9]]", OF _ sample_answers_ok sample_drains]
  by (auto simp: sample_client_ok game_state_ok_def)

end
