(* ===== verification/MessageProperties.thy ===== *)
theory MessageProperties
  imports IncomingProperties
begin

text \<open>
  What each message from the server does, stated over the fields that the rest of the program
  reads: the sequence of datagrams and its gaps, the latency, the connection, the participants,
  the downloaded game state, the authoritative steps.
\<close>

section \<open>Datagrams in order\<close>

definition in_stream :: "('x, 'w) nimble_lib \<Rightarrow> octets \<Rightarrow> size_t \<Rightarrow> 'x FldInStream" where
  "in_stream L d n = (fldInStreamInit L d n)\<lparr>readDebugInfo := True\<rparr>"

definition prepared_client ::
    "('x, 'w) nimble_lib \<Rightarrow> int \<Rightarrow> 'x \<Rightarrow> 'x NimbleClient \<Rightarrow> 'x NimbleClient" where
  "prepared_client L delta x c =
     (if delta > 1 then noteDroppedDatagrams L delta (c\<lparr>orderedDatagramIn := x\<rparr>)
      else c\<lparr>orderedDatagramIn := x\<rparr>)"

lemma feed_accepted:
  assumes "orderedDatagramInLogicReceive L (orderedDatagramIn c) (in_stream L d n) = (delta, x, i)"
    and "0 < delta" "\<not> n < 1" "state c \<noteq> NimbleClientStateDisconnected"
  shows "nimbleClientFeed L c d n w = do {
      (err, c, i, w) \<leftarrow> nimbleClientReceivePong L (prepared_client L delta x c) i w;
      if err < 0 then Some (err, c, w)
      else do {
        let (e, cmd, i) = fldInStreamReadUInt8 L i;
        (r, c, i, w) \<leftarrow> dispatchCommand L cmd c i w;
        Some (r, c, w)
      }
    }"
  using assms
  by (simp add: nimbleClientFeed_def readAndCheckOrderedDatagram_def in_stream_def
      prepared_client_def Let_def)

text \<open>
  A datagram that is refused leaves no trace: an empty one gives -1, any datagram for a
  disconnected client gives 0, and one that is not newer than the last accepted one gives -91.
  In each case the client, but for the bookkeeping of the sequence logic, and the world are as
  they were.
\<close>

theorem refused_datagrams:
  assumes "orderedDatagramInLogicReceive L (orderedDatagramIn c) (in_stream L d n) = (delta, x, i)"
    and "n < 1 \<or> state c = NimbleClientStateDisconnected \<or> delta \<le> 0"
  shows "nimbleClientFeed L c d n w =
    Some (if n < 1 then (-1, c, w)
          else if state c = NimbleClientStateDisconnected then (0, c, w)
          else (-91, c\<lparr>orderedDatagramIn := x\<rparr>, w))"
  using assms
  by (cases "n < 1"; cases "state c = NimbleClientStateDisconnected")
     (auto simp: nimbleClientFeed_def readAndCheckOrderedDatagram_def in_stream_def Let_def)

theorem refused_datagrams_witness:
  "nimbleClientFeed sampleLib
     ((sample_client NimbleClientStateSynced NimbleJoiningStateJoinedParticipant 0 0)\<lparr>orderedDatagramIn := [9]\<rparr>)
     [9, 0, 50, 13] 4 (sample_world []) =
   Some (-91, (sample_client NimbleClientStateSynced NimbleJoiningStateJoinedParticipant 0 0)
     \<lparr>orderedDatagramIn := [9]\<rparr>, sample_world [])"
proof -
  let ?c = "(sample_client NimbleClientStateSynced NimbleJoiningStateJoinedParticipant 0 0)
    \<lparr>orderedDatagramIn := [9]\<rparr>"
  have o: "orderedDatagramInLogicReceive sampleLib (orderedDatagramIn ?c)
      (in_stream sampleLib [9, 0, 50, 13] 4) = (0, [9], \<lparr>inPos = 1, inSize = 4, readDebugInfo = True,
        inRest = [0, 50, 13]\<rparr>)"
    by (simp add: sample_fields in_stream_def sample_ordered_receive_def sample_read8_def)
  from refused_datagrams [OF o, of "sample_world []"] show ?thesis by (simp add: sample_client_def)
qed

lemma pong_keeps_sequence:
  "nimbleClientReceivePong L c i w = Some (r, c', i', w') \<Longrightarrow>
     droppedDatagramCounter (quality c') = droppedDatagramCounter (quality c)
     \<and> orderedDatagramIn c' = orderedDatagramIn c"
  by (elim pong_effect) (simp_all add: nimbleClientConnectionQualityGameStepLatency_def)

lemma dispatch_keeps_sequence:
  assumes "dispatchCommand L cmd c i w = Some (r, c', i', w')"
  shows "droppedDatagramCounter (quality c') = droppedDatagramCounter (quality c)
    \<and> orderedDatagramIn c' = orderedDatagramIn c"
proof -
  have *: "droppedDatagramCounter (quality c') = droppedDatagramCounter (quality c)
    \<and> orderedDatagramIn c' = orderedDatagramIn c"
    if "nimbleClientOnGameStepResponse L c i w = Some (r, c', i', w')" for r
    using that
    by (elim step_response_effect)
       (simp_all add: nimbleClientConnectionQualityReceivedAuthoritativeSteps_def)
  show ?thesis
    using assms * unfolding dispatchCommand_def
    by (auto split: if_splits elim!: connect_effect join_effect slots_effect state_response_effect
        state_part_effect)
qed

lemma prepared_client_fields [simp]:
  "orderedDatagramIn (prepared_client L delta x c) = x"
  "state (prepared_client L delta x c) = state c"
  by (simp_all add: prepared_client_def noteDroppedDatagrams_def Let_def)

lemma prepared_client_dropped:
  "0 < delta \<Longrightarrow> droppedDatagramCounter (quality (prepared_client L delta x c)) =
     droppedDatagramCounter (quality c) + size_of_int (delta - 1)"
  by (cases "delta = 1")
     (auto simp: prepared_client_def noteDroppedDatagrams_def Let_def size_of_int_def
      nimbleClientConnectionQualityDroppedDatagrams_def)

text \<open>
  C18. Missing datagrams are accounted for exactly once: an accepted datagram that is \<open>delta\<close>
  ahead of the last one adds \<open>delta - 1\<close> to the count of dropped datagrams and moves the
  sequence on, whatever its command is and whether or not its handler fails.
\<close>

theorem gap_accounting:
  assumes "orderedDatagramInLogicReceive L (orderedDatagramIn c) (in_stream L d n) = (delta, x, i)"
    and "0 < delta" "\<not> n < 1" "state c \<noteq> NimbleClientStateDisconnected"
    and feed: "nimbleClientFeed L c d n w = Some (r, c', w')"
  shows "droppedDatagramCounter (quality c') = droppedDatagramCounter (quality c) + size_of_int (delta - 1)
    \<and> orderedDatagramIn c' = x"
proof -
  obtain e c1 i1 w1 where p: "nimbleClientReceivePong L (prepared_client L delta x c) i w = Some (e, c1, i1, w1)"
    using pong_defined [of L "prepared_client L delta x c" i w] by auto
  have "droppedDatagramCounter (quality c') = droppedDatagramCounter (quality c1)
      \<and> orderedDatagramIn c' = orderedDatagramIn c1"
    using feed unfolding feed_accepted [OF assms(1-4)]
    by (cases "e < 0") (auto simp: p split: prod.splits dest: dispatch_keeps_sequence)
  then show ?thesis
    using pong_keeps_sequence [OF p] prepared_client_dropped [OF assms(2), of L x c] by simp_all
qed

theorem gap_accounting_witness:
  "\<exists>r c' w'. nimbleClientFeed sampleLib
       ((sample_client NimbleClientStateSynced NimbleJoiningStateJoinedParticipant 0 0)\<lparr>orderedDatagramIn := [9]\<rparr>)
       [12, 0, 50, 99] 4 (sample_world []) = Some (r, c', w')
     \<and> droppedDatagramCounter (quality c') = 2"
proof -
  let ?c = "(sample_client NimbleClientStateSynced NimbleJoiningStateJoinedParticipant 0 0)
    \<lparr>orderedDatagramIn := [9]\<rparr>"
  have o: "orderedDatagramInLogicReceive sampleLib (orderedDatagramIn ?c)
      (in_stream sampleLib [12, 0, 50, 99] 4) = (3, [12], \<lparr>inPos = 1, inSize = 4, readDebugInfo = True,
        inRest = [0, 50, 99]\<rparr>)"
    by (simp add: sample_fields in_stream_def sample_ordered_receive_def sample_read8_def)
  obtain r c' w' where f: "nimbleClientFeed sampleLib ?c [12, 0, 50, 99] 4 (sample_world []) = Some (r, c', w')"
    using feed_defined [OF sample_answers_ok, of ?c "[12, 0, 50, 99]" 4 "sample_world []"]
    by (auto simp: sample_client_def NIMBLE_CLIENT_MAX_LOCAL_USERS_COUNT_def)
  show ?thesis
    using gap_accounting [OF o _ _ _ f] f
    by (simp add: sample_client_def sample_quality_def size_of_int_def)
qed

section \<open>Latency\<close>

text \<open>
  C29. The round trip time is measured right: when the 16 bits that come back stand for the time
  \<open>t\<close> at which the client sent them and at most 2147483647 ms have passed, the latency is the
  time that has passed, and it is added to the client's statistics, if these are used, and to
  those of the connection quality; a pong from the future changes no latency, so that the last one
  is added again, and one that cannot be read changes nothing.
\<close>

theorem pong_measures_latency:
  assumes "fldInStreamReadUInt16 L (fldInStreamCheckMarker L i 0xdd) = (e, v, i')"
    and "time_now L w = (now, w')"
    and "monotonicTimeMsFromLowerBits L now v = t"
    and "now - t < 2147483648" "-2147483648 \<le> now - t"
  shows "\<exists>c'. nimbleClientReceivePong L c i w =
      Some (if e < 0 then (e, c, i', w) else (0, c', i', w'))
    \<and> latencyMs c' = (if now < t then latencyMs c else size_of_int (now - t))
    \<and> (t \<le> now \<longrightarrow> unat (latencyMs c') = nat (now - t))
    \<and> qualityLatencyMsStat (quality c') =
        statsIntAdd L (qualityLatencyMsStat (quality c)) (int_of_size (latencyMs c'))
    \<and> latencyMsStat c' =
        (if useStats c then statsIntAdd L (latencyMsStat c) (int_of_size (latencyMs c')) else latencyMsStat c)
    \<and> state c' = state c"
proof -
  have wrap: "wrap_s64 (now - t) = now - t" using assms(4,5) by simp
  define l where "l = (if now < t then latencyMs c else size_of_int (now - t))"
  define m where "m = (if useStats c then statsIntAdd L (latencyMsStat c) (int_of_size l) else latencyMsStat c)"
  define c' where "c' = c\<lparr>latencyMs := l,
    quality := nimbleClientConnectionQualityGameStepLatency L l (quality c), latencyMsStat := m\<rparr>"
  have "nimbleClientReceivePong L c i w = Some (if e < 0 then (e, c, i', w) else (0, c', i', w'))"
    by (cases "e < 0"; cases "useStats c"; cases "now < t")
       (simp_all add: nimbleClientReceivePong_def assms(1-3) wrap c'_def l_def m_def Let_def)
  moreover have "t \<le> now \<longrightarrow> unat l = nat (now - t)"
    using assms(4) by (auto simp: l_def unat_size_of_int)
  ultimately show ?thesis
    by (intro exI [of _ c']) (simp add: c'_def l_def m_def nimbleClientConnectionQualityGameStepLatency_def)
qed

theorem pong_measures_latency_witness:
  "\<exists>c'. nimbleClientReceivePong sampleLib (sample_client NimbleClientStateSynced NimbleJoiningStateJoinedParticipant 0 0)
       \<lparr>inPos = 0, inSize = 3, readDebugInfo = True, inRest = [0, 58, 13]\<rparr> (sample_world [])
     = Some (0, c', \<lparr>inPos = 2, inSize = 3, readDebugInfo = True, inRest = [13]\<rparr>,
         (sample_world [])\<lparr>outside := ([], 101, 0)\<rparr>)
   \<and> latencyMs c' = 42"
  using pong_measures_latency [where L = sampleLib and now = 100 and t = 58 and e = 0 and v = 58
      and c = "sample_client NimbleClientStateSynced NimbleJoiningStateJoinedParticipant 0 0"
      and i = "\<lparr>inPos = 0, inSize = 3, readDebugInfo = True, inRest = [0, 58, 13]\<rparr>"
      and i' = "\<lparr>inPos = 2, inSize = 3, readDebugInfo = True, inRest = [13]\<rparr>"
      and w = "sample_world []" and w' = "(sample_world [])\<lparr>outside := ([], 101, 0)\<rparr>"]
  by (auto simp: sample_fields sample_read16_def sample_read8_def time_now_def sample_world_def
      size_of_int_def)

section \<open>Connection\<close>

text \<open>
  A connection is accepted exactly once: in the state RequestingConnect a readable connect
  response stores the low eight bits of the connection id, takes over the debug flag and
  connects, and the assertion that the id is not zero fails exactly when those bits are zero;
  in every other state, and so for every repetition of the response, nothing changes.
\<close>

theorem connect_response_accepted_once:
  assumes "nimbleSerializeClientInConnectResponse L i = (e, resp, i')" "0 \<le> e"
    and "nimbleSerializeClientInConnectResponse L j = (f, again, j')" "0 \<le> f"
  shows "\<exists>c' w'. nimbleClientOnConnectResponse L c i w = Some (0, c', i', w')
    \<and> (if state c = NimbleClientStateRequestingConnect
       then c' = c\<lparr>state := NimbleClientStateConnected,
                   useDebugStreams := responseUseDebugStreams resp,
                   remoteConnectionId := of_nat (connectionId resp)\<rparr>
         \<and> trace w' = (if connectionId resp mod 256 = 0
                        then [AssertFailed ''remote connection assigned can not be zero''] else [])
                      @ trace w
       else c' = c \<and> w' = w)
    \<and> nimbleClientOnConnectResponse L c' j w' = Some (0, c', j', w')"
proof -
  have "(of_nat (connectionId resp) :: u8) = 0 \<longleftrightarrow> connectionId resp mod 256 = 0"
    by (simp add: word_eq_iff_unsigned [where 'a = nat] unsigned_of_nat take_bit_eq_mod)
  then show ?thesis
    using assms
    by (cases "state c = NimbleClientStateRequestingConnect")
       (simp_all add: nimbleClientOnConnectResponse_def clog_assert_def Let_def)
qed

theorem connect_response_accepted_once_witness:
  "\<exists>c' w'. nimbleClientOnConnectResponse sampleLib
      (sample_client NimbleClientStateRequestingConnect NimbleJoiningStateJoiningParticipant 0 0)
      \<lparr>inPos = 0, inSize = 1, readDebugInfo = True, inRest = [5]\<rparr> (sample_world [])
    = Some (0, c', \<lparr>inPos = 1, inSize = 1, readDebugInfo = True, inRest = []\<rparr>, w')
    \<and> remoteConnectionId c' = 5"
  using connect_response_accepted_once [where L = sampleLib and e = 0 and f = 0
      and i = "\<lparr>inPos = 0, inSize = 1, readDebugInfo = True, inRest = [5]\<rparr>"
      and j = "\<lparr>inPos = 0, inSize = 1, readDebugInfo = True, inRest = [5]\<rparr>"
      and i' = "\<lparr>inPos = 1, inSize = 1, readDebugInfo = True, inRest = []\<rparr>"
      and j' = "\<lparr>inPos = 1, inSize = 1, readDebugInfo = True, inRest = []\<rparr>"
      and resp = "\<lparr>responseUseDebugStreams = False, connectionId = 5\<rparr>"
      and again = "\<lparr>responseUseDebugStreams = False, connectionId = 5\<rparr>"
      and c = "sample_client NimbleClientStateRequestingConnect NimbleJoiningStateJoiningParticipant 0 0"
      and w = "sample_world []"]
  by (auto simp: sample_fields sample_read8_def sample_client_def)

section \<open>Joining\<close>

lemma entry_of_fields [simp]:
  "localUserDeviceIndex (entry_of p) = of_nat (localIndex p)"
  "participantId (entry_of p) = of_nat (responseParticipantId p)"
  by (simp_all add: entry_of_def)

text \<open>Looking up in the stored answer is looking up in the answer.\<close>

lemma lookup_stored:
  assumes "distinct (map (\<lambda>p. localIndex p mod 256) ps)" "p \<in> set ps"
  shows "lookup_spec (map entry_of ps) (of_nat (localIndex p)) = (1, of_nat (responseParticipantId p))"
  using assms
proof (induction ps)
  case (Cons q qs)
  have eq: "(of_nat m :: u8) = of_nat n \<longleftrightarrow> m mod 256 = n mod 256" for m n
    by (simp add: word_eq_iff_unsigned [where 'a = nat] unsigned_of_nat take_bit_eq_mod)
  show ?case
  proof (cases "localIndex q mod 256 = localIndex p mod 256")
    case True
    then have "p = q" using Cons.prems by (auto simp: image_iff)
    then show ?thesis by (simp add: lookup_spec_def)
  next
    case False
    then have "p \<in> set qs" using Cons.prems by auto
    with Cons.IH Cons.prems have
      "lookup_spec (map entry_of qs) (of_nat (localIndex p)) = (1, of_nat (responseParticipantId p))"
      by simp
    with False show ?thesis by (simp add: lookup_spec_def eq)
  qed
qed simp

text \<open>
  C12. Joining gives the participants their ids: after a join answer in the joining phase whose
  counted participants fit the lookup and have different local device indices, the client has
  joined, sends no more join requests to wait for, and \<open>nimbleClientFindParticipantId\<close>
  finds for the local device of every participant of the answer exactly the id it was given,
  and no id for any other device. An answer in another phase changes nothing.
\<close>

theorem join_answer_gives_participant_ids:
  assumes "client_ok c (heap w)"
    and rd: "nimbleSerializeClientInJoinGameResponse L i = (e, resp, i')" "0 \<le> e"
    and n: "unat (participantCount resp) \<le> NIMBLE_CLIENT_MAX_LOCAL_USERS_COUNT"
      "unat (participantCount resp) \<le> length (participants resp)"
    and ps: "ps = take (unat (participantCount resp)) (participants resp)"
      "distinct (map (\<lambda>p. localIndex p mod 256) ps)"
  shows "\<exists>c'. nimbleClientOnJoinGameResponse L c i w = Some (0, c', i', w)
    \<and> (if joinParticipantPhase c = NimbleJoiningStateJoiningParticipant
       then joinParticipantPhase c' = NimbleJoiningStateJoinedParticipant \<and> waitTime c' = 0
         \<and> partyAndSessionSecret c' = responsePartyAndSessionSecret resp
         \<and> (\<forall>p \<in> set ps. nimbleClientFindParticipantId c' (of_nat (localIndex p))
               = Some (1, of_nat (responseParticipantId p)))
         \<and> (\<forall>index. index \<notin> set (map (\<lambda>p. of_nat (localIndex p)) ps) \<longrightarrow>
               nimbleClientFindParticipantId c' index = Some (-1, 0xff))
       else c' = c)"
proof (cases "joinParticipantPhase c = NimbleJoiningStateJoiningParticipant")
  case False
  then show ?thesis using rd by (simp add: nimbleClientOnJoinGameResponse_def)
next
  case True
  let ?n = "participantCount resp"
  let ?es = "map entry_of ps @ drop (unat ?n) (localParticipantLookup c)"
  have len: "length (localParticipantLookup c) = NIMBLE_CLIENT_MAX_LOCAL_USERS_COUNT"
    using assms(1) by (simp add: client_ok_def)
  have st: "storeParticipantsFrom (participants resp) ?n 0 (localParticipantLookup c) = Some ?es"
    using n len by (simp add: storeParticipants_result ps(1))
  define c' where "c' = c\<lparr>partyAndSessionSecret := responsePartyAndSessionSecret resp,
    localParticipantCount := ?n, localParticipantLookup := ?es,
    joinParticipantPhase := NimbleJoiningStateJoinedParticipant, waitTime := 0, joinStateChannel := 0\<rparr>"
  have run: "nimbleClientOnJoinGameResponse L c i w = Some (0, c', i', w)"
    using rd True st by (simp add: nimbleClientOnJoinGameResponse_def c'_def Let_def)
  have "length ps = unat ?n" using n(2) by (simp add: ps(1))
  then have find: "nimbleClientFindParticipantId c' index = Some (lookup_spec (map entry_of ps) index)" for index
    using n(1) len findParticipantFrom_spec [of ?n ?es index 0]
    by (simp add: nimbleClientFindParticipantId_def c'_def)
  have "lookup_spec (map entry_of ps) index = (-1, 0xff)"
    if "index \<notin> set (map (\<lambda>p. of_nat (localIndex p)) ps)" for index
    using that by (induction ps) (auto simp: lookup_spec_def)
  with find lookup_stored [OF ps(2)] run True show ?thesis
    by (intro exI [of _ c']) (simp add: c'_def)
qed

theorem join_answer_gives_participant_ids_witness:
  "\<exists>c'. nimbleClientOnJoinGameResponse sampleLib
      (sample_client NimbleClientStateSynced NimbleJoiningStateJoiningParticipant 0 0)
      \<lparr>inPos = 0, inSize = 4, readDebugInfo = True, inRest = [7, 3, 2, 5]\<rparr> (sample_world [])
    = Some (0, c', \<lparr>inPos = 4, inSize = 4, readDebugInfo = True, inRest = []\<rparr>, sample_world [])
    \<and> nimbleClientFindParticipantId c' 2 = Some (1, 5)
    \<and> nimbleClientFindParticipantId c' 9 = Some (-1, 0xff)"
proof -
  let ?c = "sample_client NimbleClientStateSynced NimbleJoiningStateJoiningParticipant 0 0"
  let ?ps = "[\<lparr>localIndex = 7, responseParticipantId = 3\<rparr>, \<lparr>localIndex = 2, responseParticipantId = 5\<rparr>]"
  have ok: "client_ok ?c (heap (sample_world []))" by (simp add: sample_client_ok game_state_ok_def)
  have "nimbleSerializeClientInJoinGameResponse sampleLib
      \<lparr>inPos = 0, inSize = 4, readDebugInfo = True, inRest = [7, 3, 2, 5]\<rparr>
    = (0, \<lparr>responsePartyAndSessionSecret = [], participants = ?ps, participantCount = 2\<rparr>,
       \<lparr>inPos = 4, inSize = 4, readDebugInfo = True, inRest = []\<rparr>)"
    by (simp add: sample_fields sample_join_response_def)
  from join_answer_gives_participant_ids [OF ok this, where ps = ?ps] show ?thesis
    by (auto simp: NIMBLE_CLIENT_MAX_LOCAL_USERS_COUNT_def sample_client_def)
qed

section \<open>Downloading the game state\<close>

text \<open>
  C10. A download installs the state that was announced. When the answer to the client's request
  opens a new channel for state \<open>s\<close> and a part on that channel completes the blob, then,
  whatever state the client was in, it first goes to JoiningDownloadingState and then to Synced;
  the game state is a new buffer with exactly the octets of the blob and step id \<open>s\<close>; the
  outgoing, the authoritative and the pending steps all start again at \<open>s\<close>; the rest of the
  heap is as it was. No further part installs it again.
\<close>

theorem download_installs_state:
  assumes "fldInStreamReadUInt8 L i = (e1, downloadStateClientRequestId c, i1)"
    and "nimbleSerializeInStateId L i1 = (e2, s, i2)"
    and "nimbleSerializeInBlobStreamChannelId L i2 = (e3, ch, i3)" "0 \<le> e3" "ch \<noteq> joinStateChannel c"
    and "nimbleSerializeInBlobStreamChannelId L j = (e4, ch, j1)"
    and "blobStreamLogicInReceive L (blobStreamInLogic c) (blobStreamIn c) j1 = (res, l, b, j2)"
      "0 \<le> res"
    and "blobStreamInIsComplete L b" "unat (octetCount b) \<le> length (blob b)"
    and "imprintAlloc L (blobStreamAllocator c) (octetCount b) (outside w) = (p, o')"
  shows "\<exists>c1 c2 w2. nimbleClientOnDownloadGameStateResponse L c i w = Some (0, c1, i3, w)
    \<and> state c1 = NimbleClientStateJoiningDownloadingState
    \<and> nimbleClientOnDownloadGameStatePart L c1 j w = Some (0, c2, j2, w2)
    \<and> state c2 = NimbleClientStateSynced
    \<and> gameState (joinedGameState c2) = p \<and> stepId (joinedGameState c2) = s
    \<and> gameStateOctetCount (joinedGameState c2) = octetCount b
    \<and> heap w2 = (heap w)(p \<mapsto> take (unat (octetCount b)) (blob b)) \<and> trace w2 = trace w
    \<and> outSteps c2 = nbsStepsReInit L (nbsStepsReInit L (outSteps c) s) s
    \<and> authoritativeStepsFromServer c2 = nbsStepsReInit L (authoritativeStepsFromServer c) s
    \<and> authoritativePendingStepsFromServer c2 =
        nbsPendingStepsReset L (authoritativePendingStepsFromServer c) s
    \<and> (\<forall>k r c3 k' w3. nimbleClientOnDownloadGameStatePart L c2 k w2 = Some (r, c3, k', w3) \<longrightarrow>
        state c3 = NimbleClientStateSynced \<and> joinedGameState c3 = joinedGameState c2 \<and> w3 = w2)"
proof -
  define c1 where "c1 = c\<lparr>joinStateChannel := ch, joinedGameState := (joinedGameState c)\<lparr>stepId := s\<rparr>,
    joinStateId := s, outSteps := nbsStepsReInit L (outSteps c) s,
    state := NimbleClientStateJoiningDownloadingState, waitTime := 0\<rparr>"
  define g where "g = (joinedGameState c)\<lparr>gameState := p, gameStateOctetCount := octetCount b,
    stepId := s, blobAllocator := blobStreamAllocator c\<rparr>"
  define w2 where "w2 = w\<lparr>outside := o', heap := (heap w)(p \<mapsto> take (unat (octetCount b)) (blob b))\<rparr>"
  define c2 where "c2 = c1\<lparr>blobStreamInLogic := l, blobStreamIn := b, state := NimbleClientStateSynced,
    joinedGameState := g,
    authoritativePendingStepsFromServer := nbsPendingStepsReset L (authoritativePendingStepsFromServer c) s,
    authoritativeStepsFromServer := nbsStepsReInit L (authoritativeStepsFromServer c) s,
    outSteps := nbsStepsReInit L (outSteps c1) s\<rparr>"
  have resp: "nimbleClientOnDownloadGameStateResponse L c i w = Some (0, c1, i3, w)"
    using assms(1-5) by (simp add: nimbleClientOnDownloadGameStateResponse_def c1_def Let_def)
  have part: "nimbleClientOnDownloadGameStatePart L c1 j w = Some (0, c2, j2, w2)"
    using assms(6-11)
    by (simp add: nimbleClientOnDownloadGameStatePart_def trySetInitialGameState_def init_result
        c1_def c2_def g_def w2_def Let_def)
  have again: "state c3 = NimbleClientStateSynced \<and> joinedGameState c3 = joinedGameState c2 \<and> w3 = w2"
    if "nimbleClientOnDownloadGameStatePart L c2 k w2 = Some (r, c3, k', w3)" for k r c3 k' w3
    using that by (elim state_part_effect) (simp_all add: c2_def)
  have "state c1 = NimbleClientStateJoiningDownloadingState" by (simp add: c1_def)
  moreover have "state c2 = NimbleClientStateSynced" "gameState (joinedGameState c2) = p"
    "stepId (joinedGameState c2) = s" "gameStateOctetCount (joinedGameState c2) = octetCount b"
    "heap w2 = (heap w)(p \<mapsto> take (unat (octetCount b)) (blob b))" "trace w2 = trace w"
    "outSteps c2 = nbsStepsReInit L (nbsStepsReInit L (outSteps c) s) s"
    "authoritativeStepsFromServer c2 = nbsStepsReInit L (authoritativeStepsFromServer c) s"
    "authoritativePendingStepsFromServer c2 =
       nbsPendingStepsReset L (authoritativePendingStepsFromServer c) s"
    by (simp_all add: c1_def c2_def g_def w2_def)
  ultimately show ?thesis using resp part again by blast
qed

text \<open>A request answered on channel 4 for state 9, and a part with the blob \<open>[1, 2]\<close>.\<close>

theorem download_installs_state_witness:
  "\<exists>c1 c2 w2. nimbleClientOnDownloadGameStatePart sampleLib c1
        \<lparr>inPos = 0, inSize = 3, readDebugInfo = True, inRest = [4, 1, 2]\<rparr> (sample_world [])
      = Some (0, c2, \<lparr>inPos = 3, inSize = 3, readDebugInfo = True, inRest = []\<rparr>, w2)
    \<and> state c2 = NimbleClientStateSynced \<and> heap w2 = [1 \<mapsto> [1, 2]]"
proof -
  let ?c = "sample_client NimbleClientStateJoiningRequestingState NimbleJoiningStateJoiningParticipant 0 0"
  let ?i = "\<lambda>n xs. \<lparr>inPos = n, inSize = 3, readDebugInfo = True, inRest = xs\<rparr>"
  let ?b = "\<lparr>blob = [1, 2], octetCount = 2, blobStreamInRest = [1]\<rparr>"
  note read = sample_fields sample_read8_def sample_client_def
  have 1: "fldInStreamReadUInt8 sampleLib (?i 0 [1, 9, 4]) =
      (0, downloadStateClientRequestId ?c, ?i 1 [9, 4])" by (simp add: read)
  have 2: "nimbleSerializeInStateId sampleLib (?i 1 [9, 4]) = (0, 9, ?i 2 [4])" by (simp add: read)
  have 3: "nimbleSerializeInBlobStreamChannelId sampleLib (?i 2 [4]) = (0, 4, ?i 3 [])"
    by (simp add: read)
  have 4: "4 \<noteq> joinStateChannel ?c" by (simp add: sample_client_def)
  have 5: "nimbleSerializeInBlobStreamChannelId sampleLib (?i 0 [4, 1, 2]) = (0, 4, ?i 1 [1, 2])"
    by (simp add: read)
  have 6: "blobStreamLogicInReceive sampleLib (blobStreamInLogic ?c) (blobStreamIn ?c) (?i 1 [1, 2]) =
      (0, [], ?b, ?i 3 [])" by (simp add: read sample_blob_receive_def)
  have 7: "blobStreamInIsComplete sampleLib ?b" by (simp add: read)
  have 8: "imprintAlloc sampleLib (blobStreamAllocator ?c) (octetCount ?b) (outside (sample_world [])) =
      (1, ([], 100, 1))" by (simp add: read sample_world_def)
  from download_installs_state [OF 1 2 3 _ 4 5 6 _ 7 _ 8] obtain c1 c2 w2
    where "nimbleClientOnDownloadGameStatePart sampleLib c1 (?i 0 [4, 1, 2]) (sample_world []) =
        Some (0, c2, ?i 3 [], w2)"
      "state c2 = NimbleClientStateSynced"
      "heap w2 = (heap (sample_world []))(1 \<mapsto> take (unat (octetCount ?b)) (blob ?b))"
    by auto
  then show ?thesis
    by (intro exI [of _ c1] exI [of _ c2] exI [of _ w2]) (simp add: sample_world_def)
qed

text \<open>
  C38. A repeated download leaks the old game state: when a client that holds a game state takes
  a new answer to its request and completes that download too, the old buffer is still allocated
  and the client has lost the only pointer to it.
\<close>

theorem redownload_leaks_old_state:
  assumes "client_ok c (heap w)" "gameState (joinedGameState c) \<noteq> 0"
    and "nimbleClientOnDownloadGameStateResponse L c i w = Some (r1, c1, i', w1)"
    and "nimbleClientOnDownloadGameStatePart L c1 j w1 = Some (r2, c2, j', w2)"
    and "state c1 = NimbleClientStateJoiningDownloadingState" "state c2 = NimbleClientStateSynced"
    and "fst (imprintAlloc L (blobStreamAllocator c) (octetCount (blobStreamIn c2)) (outside w))
      \<notin> dom (heap w)"
  shows "gameState (joinedGameState c) \<in> dom (heap w2)
    \<and> gameState (joinedGameState c2) \<noteq> gameState (joinedGameState c)
    \<and> card (dom (heap w2) - dom (heap w)) = 1"
proof -
  from assms(3) have c1: "gameState (joinedGameState c1) = gameState (joinedGameState c)"
    "blobStreamAllocator c1 = blobStreamAllocator c" "w1 = w"
    by (elim state_response_effect; simp)+
  from assms(1,2) have dom: "gameState (joinedGameState c) \<in> dom (heap w)"
    by (auto simp: client_ok_def game_state_ok_def split: option.splits)
  from assms(4) show ?thesis
  proof (cases rule: state_part_effect)
    case (complete l b g)
    from complete(4) show ?thesis
    proof (cases rule: init_SomeE)
      case (1 p o')
      have p: "p \<notin> dom (heap w)" using assms(7) 1(1) complete(5) by (simp add: c1)
      have "dom (heap w2) - dom (heap w) = {p}" using 1(4) p by (auto simp: c1)
      then show ?thesis using 1 complete(5) dom p by (auto simp: c1)
    qed
  qed (use assms(5,6) in simp_all)
qed

theorem redownload_leaks_old_state_witness:
  "\<exists>c1 i' w1 c2 j' w2.
    nimbleClientOnDownloadGameStateResponse sampleLib
      (sample_client NimbleClientStateSynced NimbleJoiningStateJoinedParticipant 7 2)
      \<lparr>inPos = 0, inSize = 3, readDebugInfo = True, inRest = [1, 9, 4]\<rparr>
      ((sample_world [])\<lparr>heap := [7 \<mapsto> [5, 6]]\<rparr>) = Some (0, c1, i', w1)
    \<and> nimbleClientOnDownloadGameStatePart sampleLib c1
      \<lparr>inPos = 0, inSize = 3, readDebugInfo = True, inRest = [4, 1, 2]\<rparr> w1 = Some (0, c2, j', w2)
    \<and> 7 \<in> dom (heap w2) \<and> gameState (joinedGameState c2) \<noteq> 7"
proof -
  let ?c = "sample_client NimbleClientStateSynced NimbleJoiningStateJoinedParticipant 7 2"
  let ?w = "(sample_world [])\<lparr>heap := [7 \<mapsto> [5, 6]]\<rparr>"
  let ?i = "\<lparr>inPos = 0, inSize = 3, readDebugInfo = True, inRest = [1, 9, 4]\<rparr>"
  let ?j = "\<lparr>inPos = 0, inSize = 3, readDebugInfo = True, inRest = [4, 1, 2]\<rparr>"
  define c1 where "c1 = ?c\<lparr>joinStateChannel := 4, joinedGameState := (joinedGameState ?c)\<lparr>stepId := 9\<rparr>,
    joinStateId := 9, outSteps := nbsStepsReInit sampleLib (outSteps ?c) 9,
    state := NimbleClientStateJoiningDownloadingState, waitTime := 0\<rparr>"
  have ok: "client_ok ?c (heap ?w)" by (simp add: sample_client_ok game_state_ok_def)
  have ptr: "gameState (joinedGameState ?c) = 7" by (simp add: sample_client_def)
  have 1: "\<exists>i'. nimbleClientOnDownloadGameStateResponse sampleLib ?c ?i ?w = Some (0, c1, i', ?w)"
    by (simp add: nimbleClientOnDownloadGameStateResponse_def sample_fields sample_read8_def
        sample_client_def c1_def Let_def)
  have c1: "state c1 = NimbleClientStateJoiningDownloadingState" "joinStateChannel c1 = 4"
    "blobStreamInLogic c1 = []" "blobStreamIn c1 = \<lparr>blob = [], octetCount = 0, blobStreamInRest = []\<rparr>"
    by (simp_all add: c1_def sample_client_def)
  have 2: "\<exists>c2 j' w2. nimbleClientOnDownloadGameStatePart sampleLib c1 ?j ?w = Some (0, c2, j', w2)
      \<and> state c2 = NimbleClientStateSynced"
    by (simp add: nimbleClientOnDownloadGameStatePart_def trySetInitialGameState_def c1 sample_fields
        sample_read8_def sample_blob_receive_def init_result Let_def split: prod.split)
  have fresh: "fst (imprintAlloc sampleLib a n (outside ?w)) \<notin> dom (heap ?w)" for a n
    by (simp add: sample_fields sample_world_def)
  from 1 2 obtain i' c2 j' w2
    where "nimbleClientOnDownloadGameStateResponse sampleLib ?c ?i ?w = Some (0, c1, i', ?w)"
      and "nimbleClientOnDownloadGameStatePart sampleLib c1 ?j ?w = Some (0, c2, j', w2)"
      and "state c2 = NimbleClientStateSynced" by blast
  with redownload_leaks_old_state [OF ok _ this(1,2) c1(1) this(3) fresh] ptr show ?thesis by auto
qed

section \<open>Authoritative steps\<close>

text \<open>
  C17. A step response acknowledges and delivers. The predicted steps that the server has are
  discarded from the outgoing ones up to and including the one it names, in every case. When the
  steps of the response can be read (\<open>0 \<le> count\<close>), they go through the pending steps to the
  authoritative ones, the count is returned and the watchdog's tick count of missing steps starts
  again at 0; when they cannot, the error is returned, and neither the authoritative steps nor
  the connection quality change.
\<close>

theorem step_response_acknowledges_and_delivers:
  assumes "fldInStreamReadUInt8 L i = (e1, v, i1)" "fldInStreamReadInt8 L i1 = (e2, d, i2)"
    and "fldInStreamReadUInt32 L i2 = (e3, received, i3)"
    and "nbsPendingStepsInSerialize L i3 (authoritativePendingStepsFromServer c) = (count, i4, p)"
    and "nbsPendingStepsCopy L (authoritativeStepsFromServer c) p = (e4, steps, p')"
  shows "\<exists>c'. nimbleClientOnGameStepResponse L c i w = Some (count, c', i4, w)
    \<and> outSteps c' = nbsStepsDiscardUpTo L (outSteps c) (received + 1)
    \<and> lagometer c' = lagometerAddPacket L (lagometer c)
        \<lparr>packetStatus = LagometerPacketStatusReceived, packetLatencyMs = latencyMs c,
         packetOctetCount = inSize i2\<rparr>
    \<and> state c' = state c
    \<and> (if count < 0
       then authoritativeStepsFromServer c' = authoritativeStepsFromServer c
         \<and> authoritativePendingStepsFromServer c' = p \<and> quality c' = quality c
       else authoritativeStepsFromServer c' = steps \<and> authoritativePendingStepsFromServer c' = p'
         \<and> ticksWithoutAuthoritativeStepsFromInSerialize (quality c') = 0
         \<and> ticksWithoutIncomingDatagrams (quality c') = ticksWithoutIncomingDatagrams (quality c))"
proof -
  obtain c1 where head: "readStepResponseHead L c i = (c1, i3)"
    and c1: "outSteps c1 = nbsStepsDiscardUpTo L (outSteps c) (received + 1)"
      "lagometer c1 = lagometerAddPacket L (lagometer c)
        \<lparr>packetStatus = LagometerPacketStatusReceived, packetLatencyMs = latencyMs c,
         packetOctetCount = inSize i2\<rparr>"
      "state c1 = state c" "quality c1 = quality c"
      "authoritativeStepsFromServer c1 = authoritativeStepsFromServer c"
      "authoritativePendingStepsFromServer c1 = authoritativePendingStepsFromServer c"
    using assms(1-3) by (simp add: readStepResponseHead_def Let_def)
  show ?thesis
    using assms(4,5)
    by (cases "count < 0")
       (simp_all add: nimbleClientOnGameStepResponse_def head c1 Let_def
         nimbleClientConnectionQualityReceivedAuthoritativeSteps_def)
qed

theorem step_response_acknowledges_and_delivers_witness:
  "\<exists>c'. nimbleClientOnGameStepResponse sampleLib
      (sample_client NimbleClientStateSynced NimbleJoiningStateJoinedParticipant 0 0)
      \<lparr>inPos = 0, inSize = 7, readDebugInfo = True, inRest = [3, 1, 0, 0, 0, 6, 9]\<rparr> (sample_world [])
    = Some (1, c', \<lparr>inPos = 7, inSize = 7, readDebugInfo = True, inRest = []\<rparr>, sample_world [])
    \<and> expectedReadId (outSteps c') = 7"
proof -
  let ?i = "\<lambda>n xs. \<lparr>inPos = n, inSize = 7, readDebugInfo = True, inRest = xs\<rparr>"
  let ?c = "sample_client NimbleClientStateSynced NimbleJoiningStateJoinedParticipant 0 0"
  note read = sample_fields sample_read8_def sample_read16_def sample_read32_def sample_client_def
    sample_steps_def
  have 1: "fldInStreamReadUInt8 sampleLib (?i 0 [3, 1, 0, 0, 0, 6, 9]) = (0, 3, ?i 1 [1, 0, 0, 0, 6, 9])"
    by (simp add: read)
  have 2: "fldInStreamReadInt8 sampleLib (?i 1 [1, 0, 0, 0, 6, 9]) = (0, 1, ?i 2 [0, 0, 0, 6, 9])"
    by (simp add: read)
  have 3: "fldInStreamReadUInt32 sampleLib (?i 2 [0, 0, 0, 6, 9]) = (0, 6, ?i 6 [9])"
    by (simp add: read)
  have 4: "nbsPendingStepsInSerialize sampleLib (?i 6 [9]) (authoritativePendingStepsFromServer ?c) =
      (1, ?i 7 [], [])" by (simp add: read)
  have 5: "nbsPendingStepsCopy sampleLib (authoritativeStepsFromServer ?c) [] =
      (0, (authoritativeStepsFromServer ?c)\<lparr>expectedWriteId := 1\<rparr>, [])" by (simp add: read)
  show ?thesis
    using step_response_acknowledges_and_delivers [OF 1 2 3 4 5, of "sample_world []"]
    by (auto simp: sample_fields)
qed

end
