(* ===== verification/Outgoing.thy ===== *)
theory Outgoing
  imports ClientLifecycle
begin

text \<open>
  The messages to the server: the datagram header of \<open>prepare_header.c\<close>, the predicted steps
  of \<open>send_steps.c\<close> and the message of the current state of \<open>outgoing.c\<close>. A function that
  writes to a stream gives the stream changed; logging is left out. The transport is the
  handle \<open>'x\<close> whose \<open>send\<close> the code calls.
\<close>

section \<open>prepare_header.c\<close>

definition nimbleClientWriteHeader ::
    "('x, 'w) nimble_lib \<Rightarrow> 'x NimbleClient \<Rightarrow> 'x FldOutStream \<Rightarrow> 'w world
     \<Rightarrow> int \<times> 'x NimbleClient \<times> 'x FldOutStream \<times> 'w world" where
  "nimbleClientWriteHeader L self outStream w =
     (let w = clog_assert (remoteConnectionId self \<noteq> 0) ''must have a valid remote conneciton ID'' w;
          (outLogic, outStream) = orderedDatagramOutLogicPrepare L (orderedDatagramOut self) outStream;
          self = self\<lparr>orderedDatagramOut := outLogic\<rparr>;
          (now, w) = time_now L w;
          lowerBitsMs = monotonicTimeMsToLowerBits L now;
          (result, outStream) = fldOutStreamWriteUInt16 L outStream lowerBitsMs
      in (result, self, outStream, w))"

definition nimbleClientCommitHeader :: "('x, 'w) nimble_lib \<Rightarrow> 'x NimbleClient \<Rightarrow> 'x NimbleClient" where
  "nimbleClientCommitHeader L self =
     self\<lparr>orderedDatagramOut := orderedDatagramOutLogicCommit L (orderedDatagramOut self)\<rparr>"

section \<open>send_steps.c\<close>

definition sendStepsToStream ::
    "('x, 'w) nimble_lib \<Rightarrow> 'x NimbleClient \<Rightarrow> 'x FldOutStream \<Rightarrow> int \<times> 'x NimbleClient \<times> 'x FldOutStream" where
  "sendStepsToStream L self stream =
     (let stream = nimbleSerializeWriteCommand L stream (NimbleSerializeCmdGameStep L);
          (clientReceiveMask, expectedStepIdFromServer) =
            nbsPendingStepsReceiveMask L (authoritativePendingStepsFromServer self);
          (serializeOutErr, stream) = nbsPendingStepsSerializeOutHeader L stream
            expectedStepIdFromServer clientReceiveMask
      in if serializeOutErr < 0 then (serializeOutErr, self, stream)
         else
           let (stepsActuallySent, stream) = nbsStepsOutSerialize L stream (outSteps self)
           in if stepsActuallySent < 0 then (stepsActuallySent, self, stream)
              else
                let stepsInBuffer = wrap_s32 (int_of_size (stepsCount (outSteps self))
                      - int_of_size (NimbleSerializeMaxRedundancyCount L));
                    stepsInBuffer = (if stepsInBuffer < 0 then 0 else stepsInBuffer);
                    self = self\<lparr>outgoingStepsInQueue :=
                      statsIntAdd L (outgoingStepsInQueue self) stepsInBuffer\<rparr>;
                    self = self\<lparr>waitTime := 0\<rparr>
                in (stepsActuallySent, self, stream))"

definition nimbleClientSendStepsToServer ::
    "('x, 'w) nimble_lib \<Rightarrow> 'x NimbleClient \<Rightarrow> 'x \<Rightarrow> 'w world \<Rightarrow> int \<times> 'x NimbleClient \<times> 'w world" where
  "nimbleClientSendStepsToServer L self transportOut w =
     (let outStream = (fldOutStreamInit L (DATAGRAM_TRANSPORT_MAX_SIZE L))\<lparr>writeDebugInfo := True\<rparr>;
          (_, self, outStream, w) = nimbleClientWriteHeader L self outStream w;
          (stepsSent, self, outStream) = sendStepsToStream L self outStream
      in if stepsSent \<le> 0 then (wrap_s32 stepsSent, self, w)
         else
           let self = nimbleClientCommitHeader L self;
               self = self\<lparr>sentStepsDatagramCountPerSecond :=
                 statsIntPerSecondAdd L (sentStepsDatagramCountPerSecond self) 1\<rparr>;
               self = self\<lparr>packetsPerSecondOut := statsIntPerSecondAdd L (packetsPerSecondOut self) 1\<rparr>;
               (r, w) = transport_send L transportOut (outOctets outStream) (outPos outStream) w
           in (r, self, w))"

section \<open>outgoing.c\<close>

type_synonym 'x written = "int \<times> 'x NimbleClient \<times> 'x FldOutStream"

definition sendBlobStreamCommands ::
    "('x, 'w) nimble_lib \<Rightarrow> 'x NimbleClient \<Rightarrow> 'x FldOutStream \<Rightarrow> 'x written" where
  "sendBlobStreamCommands L self stream =
     (let stream = nimbleSerializeWriteCommand L stream (NimbleSerializeCmdClientOutBlobStream L);
          (errorCode, logic, stream) = blobStreamLogicInSend L (blobStreamInLogic self) stream;
          self = self\<lparr>blobStreamInLogic := logic\<rparr>
      in if errorCode < 0 then (errorCode, self, stream)
         else (0, self\<lparr>waitTime := 0\<rparr>, stream))"

definition sendConnectRequest ::
    "('x, 'w) nimble_lib \<Rightarrow> 'x NimbleClient \<Rightarrow> 'x FldOutStream \<Rightarrow> 'x written" where
  "sendConnectRequest L self stream =
     (let connectRequest = \<lparr>requestApplicationVersion = applicationVersion self,
                            requestUseDebugStreams = wantsDebugStreams self,
                            clientRequestId = connectRequestId self\<rparr>;
          stream = nimbleSerializeClientOutConnectRequest L stream connectRequest
      in (0, self\<lparr>waitTime := 4\<rparr>, stream))"

definition sendStartDownloadStateRequest ::
    "('x, 'w) nimble_lib \<Rightarrow> 'x NimbleClient \<Rightarrow> 'x FldOutStream \<Rightarrow> 'x written" where
  "sendStartDownloadStateRequest L self stream =
     (let stream = nimbleSerializeWriteCommand L stream (NimbleSerializeCmdDownloadGameStateRequest L);
          stream = fldOutStreamWriteUInt8 L stream (downloadStateClientRequestId self)
      in (0, self\<lparr>waitTime := 4\<rparr>, stream))"

definition sendJoinGameRequest ::
    "('x, 'w) nimble_lib \<Rightarrow> 'x NimbleClient \<Rightarrow> 'x FldOutStream \<Rightarrow> 'x written" where
  "sendJoinGameRequest L self stream =
     (let stream = nimbleSerializeClientOutJoinGameRequest L stream (joinGameRequest self)
      in (0, self\<lparr>waitTime := 4\<rparr>, stream))"

definition updateSyncedSubState ::
    "('x, 'w) nimble_lib \<Rightarrow> 'x NimbleClient \<Rightarrow> 'x FldOutStream \<Rightarrow> 'x written" where
  "updateSyncedSubState L self outStream =
     (case joinParticipantPhase self of
        NimbleJoiningStateJoiningParticipant \<Rightarrow> sendJoinGameRequest L self outStream
      | NimbleJoiningStateJoinedParticipant \<Rightarrow> (0, self, outStream)
      | NimbleJoiningStateOutOfParticipantSlots \<Rightarrow> (0, self, outStream))"

definition sendMessageUsingStream ::
    "('x, 'w) nimble_lib \<Rightarrow> 'x NimbleClient \<Rightarrow> 'x FldOutStream \<Rightarrow> 'x written" where
  "sendMessageUsingStream L self outStream =
     (case state self of
        NimbleClientStateRequestingConnect \<Rightarrow> sendConnectRequest L self outStream
      | NimbleClientStateConnected \<Rightarrow> (0, self, outStream)
      | NimbleClientStateJoiningRequestingState \<Rightarrow> sendStartDownloadStateRequest L self outStream
      | NimbleClientStateJoiningDownloadingState \<Rightarrow> sendBlobStreamCommands L self outStream
      | NimbleClientStateIdle \<Rightarrow> (0, self, outStream)
      | NimbleClientStateDisconnected \<Rightarrow> (0, self, outStream)
      | NimbleClientStateSynced \<Rightarrow> updateSyncedSubState L self outStream)"

text \<open>
  The message of the state, from the header on: the header is written and, when the message
  could be built, committed, but a datagram of at most ten octets is not sent. Then the whole
  of \<open>handleState\<close>, which sends the predicted steps first when the client is synced.
\<close>

definition sendStateMessage ::
    "('x, 'w) nimble_lib \<Rightarrow> 'x NimbleClient \<Rightarrow> 'x \<Rightarrow> 'w world \<Rightarrow> int \<times> 'x NimbleClient \<times> 'w world" where
  "sendStateMessage L self transportOut w =
     (let outStream = (fldOutStreamInit L (DATAGRAM_TRANSPORT_MAX_SIZE L))\<lparr>writeDebugInfo := True\<rparr>;
          (_, self, outStream, w) = nimbleClientWriteHeader L self outStream w;
          (result, self, outStream) = sendMessageUsingStream L self outStream
      in if result < 0 then (result, self, w)
         else
           let self = nimbleClientCommitHeader L self
           in if outPos outStream \<le> 10 then (0, self, w)
              else
                let self = self\<lparr>packetsPerSecondOut :=
                      statsIntPerSecondAdd L (packetsPerSecondOut self) 1\<rparr>;
                    (r, w) = transport_send L transportOut (outOctets outStream) (outPos outStream) w
                in (r, self, w))"

definition handleState ::
    "('x, 'w) nimble_lib \<Rightarrow> 'x NimbleClient \<Rightarrow> 'x \<Rightarrow> 'w world \<Rightarrow> int \<times> 'x NimbleClient \<times> 'w world" where
  "handleState L self transportOut w =
     (if state self = NimbleClientStateIdle then (0, self, w)
      else if state self \<in> {NimbleClientStateConnected, NimbleClientStateDisconnected} then (0, self, w)
      else if state self = NimbleClientStateSynced then
        let (sendStepsError, self, w) = nimbleClientSendStepsToServer L self transportOut w
        in if sendStepsError < 0 then (sendStepsError, self, w)
           else sendStateMessage L self transportOut w
      else sendStateMessage L self transportOut w)"

definition nimbleClientOutgoing ::
    "('x, 'w) nimble_lib \<Rightarrow> 'x NimbleClient \<Rightarrow> 'x \<Rightarrow> 'w world \<Rightarrow> int \<times> 'x NimbleClient \<times> 'w world" where
  "nimbleClientOutgoing L self transportOut w =
     (let (result, self, w) = handleState L self transportOut w
      in if result < 0 then (result, self, w)
         else (0, self\<lparr>frame := frame self + 1\<rparr>, w))"

end
