(* ===== verification/OutgoingContracts.thy ===== *)
theory OutgoingContracts
  imports Outgoing
begin

text \<open>
  What sending does: an elimination rule per sender, and the contract of a relation that holds
  across the two senders of \<open>outgoing.c\<close> and \<open>send_steps.c\<close>, with the frame of sending
  and the invariant as its instances.
\<close>

section \<open>Effects of the senders\<close>

lemma header_effect:
  assumes "nimbleClientWriteHeader L c s w = (r, c', s', w')"
  shows "c' = c\<lparr>orderedDatagramOut := fst (orderedDatagramOutLogicPrepare L (orderedDatagramOut c) s)\<rparr>"
    and "heap w' = heap w" "sent w' = sent w"
    and "trace w' = (if remoteConnectionId c = 0
           then AssertFailed ''must have a valid remote conneciton ID'' # trace w else trace w)"
    and "s' = snd (fldOutStreamWriteUInt16 L
           (snd (orderedDatagramOutLogicPrepare L (orderedDatagramOut c) s))
           (monotonicTimeMsToLowerBits L (fst (monotonicTimeMsNow L (outside w)))))"
    and "outside w' = snd (monotonicTimeMsNow L (outside w))"
  using assms
  by (auto simp: nimbleClientWriteHeader_def Let_def time_now_def clog_assert_def sent_def
      split: prod.splits if_splits)

lemma message_effect:
  assumes "sendMessageUsingStream L c s = (r, c', s')"
  obtains wt lg where "c' = c\<lparr>waitTime := wt, blobStreamInLogic := lg\<rparr>"
proof -
  have "\<exists>wt lg. c' = c\<lparr>waitTime := wt, blobStreamInLogic := lg\<rparr>"
  proof (cases "state c = NimbleClientStateJoiningDownloadingState")
    case True
    obtain e lg s2 where b: "blobStreamLogicInSend L (blobStreamInLogic c)
        (nimbleSerializeWriteCommand L s (NimbleSerializeCmdClientOutBlobStream L)) = (e, lg, s2)"
      by (cases "blobStreamLogicInSend L (blobStreamInLogic c)
        (nimbleSerializeWriteCommand L s (NimbleSerializeCmdClientOutBlobStream L))") auto
    have "c' = c\<lparr>waitTime := if e < 0 then waitTime c else 0, blobStreamInLogic := lg\<rparr>"
      using assms True
      by (cases "e < 0") (auto simp: sendMessageUsingStream_def sendBlobStreamCommands_def b Let_def)
    then show ?thesis by blast
  next
    case False
    then have "c' = c \<or> c' = c\<lparr>waitTime := 4\<rparr>"
      using assms
      by (cases "state c"; cases "joinParticipantPhase c")
         (auto simp: sendMessageUsingStream_def sendConnectRequest_def
           sendStartDownloadStateRequest_def updateSyncedSubState_def sendJoinGameRequest_def Let_def)
    moreover have "c = c\<lparr>waitTime := waitTime c, blobStreamInLogic := blobStreamInLogic c\<rparr>"
      "c\<lparr>waitTime := 4\<rparr> = c\<lparr>waitTime := 4, blobStreamInLogic := blobStreamInLogic c\<rparr>" by simp_all
    ultimately show ?thesis by metis
  qed
  with that show thesis by blast
qed

lemma steps_stream_effect:
  assumes "sendStepsToStream L c s = (r, c', s')"
  obtains wt q where "c' = c\<lparr>waitTime := wt, outgoingStepsInQueue := q\<rparr>"
proof -
  let ?s1 = "nimbleSerializeWriteCommand L s (NimbleSerializeCmdGameStep L)"
  obtain m i where rm: "nbsPendingStepsReceiveMask L (authoritativePendingStepsFromServer c) = (m, i)"
    by fastforce
  obtain e s2 where h: "nbsPendingStepsSerializeOutHeader L ?s1 i m = (e, s2)" by fastforce
  obtain k s3 where o: "nbsStepsOutSerialize L s2 (outSteps c) = (k, s3)" by fastforce
  have "c' = c \<or> (\<exists>q. c' = c\<lparr>outgoingStepsInQueue := q, waitTime := 0\<rparr>)"
    using assms
    by (cases "e < 0"; cases "k < 0") (auto simp: sendStepsToStream_def rm h o Let_def)
  moreover have "c = c\<lparr>waitTime := waitTime c, outgoingStepsInQueue := outgoingStepsInQueue c\<rparr>"
    "\<And>q. c\<lparr>outgoingStepsInQueue := q, waitTime := 0\<rparr> = c\<lparr>waitTime := 0, outgoingStepsInQueue := q\<rparr>"
    by simp_all
  ultimately show thesis using that by metis
qed

text \<open>What sending does to the blob stream: at most its logic answers in the course of it.\<close>

lemma message_stream:
  assumes "sendMessageUsingStream L c s = (r, c', s')"
  shows "blobStreamIn c' = blobStreamIn c"
    and "blobStreamInLogic c' = blobStreamInLogic c
      \<or> (\<exists>t e t'. blobStreamLogicInSend L (blobStreamInLogic c) t = (e, blobStreamInLogic c', t'))"
proof -
  show "blobStreamIn c' = blobStreamIn c" using assms by (elim message_effect) simp
  show "blobStreamInLogic c' = blobStreamInLogic c
      \<or> (\<exists>t e t'. blobStreamLogicInSend L (blobStreamInLogic c) t = (e, blobStreamInLogic c', t'))"
  proof (cases "state c = NimbleClientStateJoiningDownloadingState")
    case True
    with assms show ?thesis
      by (auto simp: sendMessageUsingStream_def sendBlobStreamCommands_def Let_def split: prod.splits if_splits)
  next
    case False
    with assms show ?thesis
      by (cases "state c"; cases "joinParticipantPhase c")
         (auto simp: sendMessageUsingStream_def sendConnectRequest_def sendStartDownloadStateRequest_def
           updateSyncedSubState_def sendJoinGameRequest_def Let_def)
  qed
qed

lemma stream_steps:
  "sendStepsToStream L c s = (r, c', s') \<Longrightarrow> blobStreamIn c' = blobStreamIn c"
  "sendStepsToStream L c s = (r, c', s') \<Longrightarrow> blobStreamInLogic c' = blobStreamInLogic c"
  by (elim steps_stream_effect, simp)+

text \<open>
  A sender writes the header and the message into a fresh stream; then it gives up, commits
  without sending, or commits and sends the stream. \<open>header_on\<close> and \<open>fresh_out\<close> name the parts.
\<close>

definition fresh_out :: "('x, 'w) nimble_lib \<Rightarrow> 'x FldOutStream" where
  "fresh_out L = (fldOutStreamInit L (DATAGRAM_TRANSPORT_MAX_SIZE L))\<lparr>writeDebugInfo := True\<rparr>"

lemma send_message_effect:
  assumes "sendStateMessage L c tr w = (r, c', w')"
  obtains (stopped) e c1 s1 w1 k c2 s2
    where "nimbleClientWriteHeader L c (fresh_out L) w = (e, c1, s1, w1)"
      "sendMessageUsingStream L c1 s1 = (k, c2, s2)" "k < 0" "r = k" "c' = c2" "w' = w1"
  | (short) e c1 s1 w1 k c2 s2
    where "nimbleClientWriteHeader L c (fresh_out L) w = (e, c1, s1, w1)"
      "sendMessageUsingStream L c1 s1 = (k, c2, s2)" "0 \<le> k" "outPos s2 \<le> 10"
      "r = 0" "c' = nimbleClientCommitHeader L c2" "w' = w1"
  | (sending) e c1 s1 w1 k c2 s2
    where "nimbleClientWriteHeader L c (fresh_out L) w = (e, c1, s1, w1)"
      "sendMessageUsingStream L c1 s1 = (k, c2, s2)" "0 \<le> k" "10 < outPos s2"
      "c' = (nimbleClientCommitHeader L c2)\<lparr>packetsPerSecondOut :=
               statsIntPerSecondAdd L (packetsPerSecondOut c2) 1\<rparr>"
      "transport_send L tr (outOctets s2) (outPos s2) w1 = (r, w')"
proof -
  obtain e c1 s1 w1 where h: "nimbleClientWriteHeader L c (fresh_out L) w = (e, c1, s1, w1)"
    by (cases "nimbleClientWriteHeader L c (fresh_out L) w") auto
  obtain k c2 s2 where m: "sendMessageUsingStream L c1 s1 = (k, c2, s2)"
    by (cases "sendMessageUsingStream L c1 s1") auto
  note eq = assms [unfolded sendStateMessage_def, folded fresh_out_def]
  consider "k < 0" | "0 \<le> k" "outPos s2 \<le> 10" | "0 \<le> k" "10 < outPos s2"
    by (metis linorder_not_le)
  then show thesis
  proof cases
    case 1
    with eq show thesis by (intro stopped [OF h m]) (simp_all add: h m Let_def)
  next
    case 2
    with eq show thesis by (intro short [OF h m]) (simp_all add: h m Let_def)
  next
    case 3
    obtain q v where t: "transport_send L tr (outOctets s2) (outPos s2) w1 = (q, v)" by fastforce
    from 3 have "\<not> outPos s2 \<le> 10" by simp
    with 3 eq show thesis
      by (intro sending [OF h m]) (simp_all add: h m t Let_def nimbleClientCommitHeader_def)
  qed
qed

lemma send_steps_effect:
  assumes "nimbleClientSendStepsToServer L c tr w = (r, c', w')"
  obtains (stopped) e c1 s1 w1 k c2 s2
    where "nimbleClientWriteHeader L c (fresh_out L) w = (e, c1, s1, w1)"
      "sendStepsToStream L c1 s1 = (k, c2, s2)" "k \<le> 0" "r = wrap_s32 k" "c' = c2" "w' = w1"
  | (sending) e c1 s1 w1 k c2 s2
    where "nimbleClientWriteHeader L c (fresh_out L) w = (e, c1, s1, w1)"
      "sendStepsToStream L c1 s1 = (k, c2, s2)" "0 < k"
      "c' = (nimbleClientCommitHeader L c2)\<lparr>sentStepsDatagramCountPerSecond :=
               statsIntPerSecondAdd L (sentStepsDatagramCountPerSecond c2) 1,
             packetsPerSecondOut := statsIntPerSecondAdd L (packetsPerSecondOut c2) 1\<rparr>"
      "transport_send L tr (outOctets s2) (outPos s2) w1 = (r, w')"
proof -
  obtain e c1 s1 w1 where h: "nimbleClientWriteHeader L c (fresh_out L) w = (e, c1, s1, w1)"
    by (cases "nimbleClientWriteHeader L c (fresh_out L) w") auto
  obtain k c2 s2 where m: "sendStepsToStream L c1 s1 = (k, c2, s2)"
    by (cases "sendStepsToStream L c1 s1") auto
  note eq = assms [unfolded nimbleClientSendStepsToServer_def, folded fresh_out_def]
  show thesis
  proof (cases "k \<le> 0")
    case True
    with eq show thesis by (intro stopped [OF h m]) (simp_all add: h m Let_def)
  next
    case False
    obtain q v where t: "transport_send L tr (outOctets s2) (outPos s2) w1 = (q, v)" by fastforce
    from False eq show thesis
      by (intro sending [OF h m]) (simp_all add: h m t Let_def nimbleClientCommitHeader_def)
  qed
qed

section \<open>The contract of a relation on clients and worlds\<close>

locale outgoing_contract =
  fixes L :: "('x, 'w) nimble_lib"
    and R :: "'x NimbleClient \<times> 'w world \<Rightarrow> 'x NimbleClient \<times> 'w world \<Rightarrow> bool"
  assumes refl: "R s s"
    and trans: "R s t \<Longrightarrow> R t u \<Longrightarrow> R s u"
    and send_message: "sendStateMessage L c tr w = (r, c', w') \<Longrightarrow> R (c, w) (c', w')"
    and send_steps: "nimbleClientSendStepsToServer L c tr w = (r, c', w') \<Longrightarrow> R (c, w) (c', w')"
    and framed: "R (c, w) (c\<lparr>frame := n\<rparr>, w)"
begin

lemma handle_state:
  assumes "handleState L c tr w = (r, c', w')"
  shows "R (c, w) (c', w')"
proof (cases "state c = NimbleClientStateSynced")
  case True
  obtain e c1 w1 where s: "nimbleClientSendStepsToServer L c tr w = (e, c1, w1)"
    by (cases "nimbleClientSendStepsToServer L c tr w") auto
  have "R (c1, w1) (c', w')"
    using assms True send_message refl
    by (cases "e < 0") (simp_all add: handleState_def s Let_def)
  with send_steps [OF s] show ?thesis by (rule trans)
next
  case False
  then show ?thesis using assms send_message refl by (simp add: handleState_def split: if_splits)
qed

lemma outgoing:
  assumes "nimbleClientOutgoing L c tr w = (r, c', w')"
  shows "R (c, w) (c', w')"
proof -
  obtain e c1 w1 where h: "handleState L c tr w = (e, c1, w1)" by (cases "handleState L c tr w") auto
  have "R (c1, w1) (c', w')"
    using assms framed refl by (cases "e < 0") (auto simp: nimbleClientOutgoing_def h)
  with handle_state [OF h] show ?thesis by (rule trans)
qed

end

section \<open>Frame: what sending leaves alone\<close>

definition sending_kept ::
    "'x NimbleClient \<times> 'w world \<Rightarrow> 'x NimbleClient \<times> 'w world \<Rightarrow> bool" where
  "sending_kept s t \<longleftrightarrow> (case s of (c, w) \<Rightarrow> case t of (c', w') \<Rightarrow>
     state c' = state c \<and> joinParticipantPhase c' = joinParticipantPhase c
     \<and> localParticipantLookup c' = localParticipantLookup c
     \<and> localParticipantCount c' = localParticipantCount c
     \<and> transport c' = transport c \<and> outSteps c' = outSteps c
     \<and> authoritativePendingStepsFromServer c' = authoritativePendingStepsFromServer c
     \<and> authoritativeStepsFromServer c' = authoritativeStepsFromServer c
     \<and> joinedGameState c' = joinedGameState c \<and> joinStateChannel c' = joinStateChannel c
     \<and> joinStateId c' = joinStateId c
     \<and> expectedTickDurationMs c' = expectedTickDurationMs c \<and> useStats c' = useStats c
     \<and> lastUpdateMonotonicMsIsSet c' = lastUpdateMonotonicMsIsSet c
     \<and> lastUpdateMonotonicMs c' = lastUpdateMonotonicMs c \<and> tickDuration c' = tickDuration c
     \<and> downloadStateClientRequestId c' = downloadStateClientRequestId c
     \<and> joinGameRequest c' = joinGameRequest c
     \<and> remoteConnectionId c' = remoteConnectionId c
     \<and> orderedDatagramIn c' = orderedDatagramIn c
     \<and> quality c' = quality c \<and> heap w' = heap w)"

lemma message_keeps:
  assumes "sendMessageUsingStream L c s = (r, c', s')"
  shows "sending_kept (c, w) (c', w)" "orderedDatagramOut c' = orderedDatagramOut c"
  by (insert assms; elim message_effect; simp add: sending_kept_def)+

lemma steps_stream_keeps:
  assumes "sendStepsToStream L c s = (r, c', s')"
  shows "sending_kept (c, w) (c', w)" "orderedDatagramOut c' = orderedDatagramOut c"
  by (insert assms; elim steps_stream_effect; simp add: sending_kept_def)+

lemma header_keeps:
  "nimbleClientWriteHeader L c s w = (r, c', s', w') \<Longrightarrow> sending_kept (c, w) (c', w')"
  using header_effect [of L c s w r c' s' w'] by (simp add: sending_kept_def)

lemma commit_keeps [simp]:
  "sending_kept (c, w) (nimbleClientCommitHeader L c, w') \<longleftrightarrow> heap w' = heap w"
  by (auto simp: sending_kept_def nimbleClientCommitHeader_def)

lemma sending_kept_trans: "sending_kept s t \<Longrightarrow> sending_kept t u \<Longrightarrow> sending_kept s u"
  by (cases s; cases t; cases u) (simp add: sending_kept_def)

interpretation out_frame: outgoing_contract L sending_kept
  for L :: "('x, 'w) nimble_lib"
proof (unfold_locales, goal_cases)
  case (3 c tr w r c' w')
  then show ?case
  proof (cases rule: send_message_effect)
    case (sending e c1 s1 w1 k c2 s2)
    from sending_kept_trans [OF header_keeps [OF sending(1)] message_keeps(1) [OF sending(2)]]
    show ?thesis using sending(5) transport_send_frame(1) [OF sending(6)]
      by (simp add: sending_kept_def nimbleClientCommitHeader_def)
  next
    case (short e c1 s1 w1 k c2 s2)
    from sending_kept_trans [OF header_keeps [OF short(1)] message_keeps(1) [OF short(2)]]
    show ?thesis using short by (simp add: sending_kept_def nimbleClientCommitHeader_def)
  next
    case (stopped e c1 s1 w1 k c2 s2)
    from sending_kept_trans [OF header_keeps [OF stopped(1)] message_keeps(1) [OF stopped(2)]]
    show ?thesis using stopped by simp
  qed
next
  case (4 c tr w r c' w')
  then show ?case
  proof (cases rule: send_steps_effect)
    case (sending e c1 s1 w1 k c2 s2)
    from sending_kept_trans [OF header_keeps [OF sending(1)] steps_stream_keeps(1) [OF sending(2)]]
    show ?thesis using sending(4) transport_send_frame(1) [OF sending(5)]
      by (simp add: sending_kept_def nimbleClientCommitHeader_def)
  next
    case (stopped e c1 s1 w1 k c2 s2)
    from sending_kept_trans [OF header_keeps [OF stopped(1)] steps_stream_keeps(1) [OF stopped(2)]]
    show ?thesis using stopped by simp
  qed
qed (auto simp: sending_kept_def)

text \<open>A relation that does not see what sending changes holds across sending.\<close>

locale send_blind =
  fixes L :: "('x, 'w) nimble_lib"
    and R :: "'x NimbleClient \<times> 'w world \<Rightarrow> 'x NimbleClient \<times> 'w world \<Rightarrow> bool"
  assumes blind_refl: "R s s"
    and blind_trans: "R s t \<Longrightarrow> R t u \<Longrightarrow> R s u"
    and blind: "sending_kept s t \<Longrightarrow> R s t"

sublocale send_blind \<subseteq> outgoing_contract L R
proof (unfold_locales, goal_cases)
  case 1
  show ?case by (rule blind_refl)
next
  case 2
  then show ?case by (rule blind_trans)
next
  case 3
  then show ?case by (rule blind [OF out_frame.send_message])
next
  case 4
  then show ?case by (rule blind [OF out_frame.send_steps])
next
  case 5
  show ?case by (rule blind [OF out_frame.framed])
qed

end
