(* ===== verification/ClientUpdate.thy ===== *)
theory ClientUpdate
  imports IncomingContracts OutgoingContracts
begin

text \<open>
  One update of the client (the second half of \<open>client.c\<close>): the tick bookkeeping, receiving
  all that has arrived, judging the connection, and sending unless a wait is running. The
  report of the statistics is in \<open>StatsReport\<close>.
\<close>

definition showStats :: "'x NimbleClient \<Rightarrow> 'x NimbleClient" where
  "showStats self = self\<lparr>statsCounter := statsCounter self + 1\<rparr>"

definition calcStats :: "('x, 'w) nimble_lib \<Rightarrow> 'x NimbleClient \<Rightarrow> int \<Rightarrow> 'x NimbleClient" where
  "calcStats L self now = self\<lparr>
     packetsPerSecondOut := statsIntPerSecondUpdate L (packetsPerSecondOut self) now,
     packetsPerSecondIn := statsIntPerSecondUpdate L (packetsPerSecondIn self) now,
     simulationStepsPerSecond := statsIntPerSecondUpdate L (simulationStepsPerSecond self) now,
     sentStepsDatagramCountPerSecond :=
       statsIntPerSecondUpdate L (sentStepsDatagramCountPerSecond self) now\<rparr>"

definition sendPackets ::
    "('x, 'w) nimble_lib \<Rightarrow> 'x NimbleClient \<Rightarrow> 'w world \<Rightarrow> int \<times> 'x NimbleClient \<times> 'w world" where
  "sendPackets L self w =
     (if state self = NimbleClientStateIdle \<or> state self = NimbleClientStateDisconnected
      then (0, self, w)
      else
        let (errorCode, self, w) = nimbleClientOutgoing L self (transport self) w
        in if errorCode < 0 then (errorCode, self, w) else (0, self, w))"

definition checkTickInterval ::
    "('x, 'w) nimble_lib \<Rightarrow> 'x NimbleClient \<Rightarrow> int \<Rightarrow> 'x NimbleClient" where
  "checkTickInterval L self now =
     (if lastUpdateMonotonicMsIsSet self then
        let encounteredTickDuration = wrap_s64 (now - lastUpdateMonotonicMs self)
        in if wrap_s64 (encounteredTickDuration + 10) < int_of_size (expectedTickDurationMs self)
           then self
           else
             let self = self\<lparr>tickDuration :=
                   statsIntAdd L (tickDuration self) (wrap_s32 encounteredTickDuration)\<rparr>
             in self\<lparr>lastUpdateMonotonicMs := now\<rparr>
      else
        let self = self\<lparr>lastUpdateMonotonicMsIsSet := True\<rparr>
        in self\<lparr>lastUpdateMonotonicMs := now\<rparr>)"

definition checkIfDisconnectIsNeeded :: "'x NimbleClient \<Rightarrow> 'x NimbleClient" where
  "checkIfDisconnectIsNeeded self =
     (if state self \<noteq> NimbleClientStateSynced then self
      else if nimbleClientConnectionQualityShouldDisconnect (quality self)
      then self\<lparr>state := NimbleClientStateDisconnected\<rparr>
      else self)"

text \<open>
  The update, from the judging of the connection on, and then whole. The result of
  \<open>sendPackets\<close> is dropped; what is returned is the number of received datagrams.
\<close>

definition updateAfterReceive ::
    "('x, 'w) nimble_lib \<Rightarrow> 'x NimbleClient \<Rightarrow> int \<Rightarrow> int \<Rightarrow> 'w world \<Rightarrow> int \<times> 'x NimbleClient \<times> 'w world" where
  "updateAfterReceive L self now errorCode w =
     (let self = self\<lparr>quality := nimbleClientConnectionQualityUpdate L (state self) (quality self)\<rparr>;
          self = checkIfDisconnectIsNeeded self
      in if waitTime self > 0 then (0, self\<lparr>waitTime := waitTime self - 1\<rparr>, w)
         else
           let self = calcStats L self now;
               self = showStats self;
               (_, self, w) = sendPackets L self w
           in (wrap_s32 errorCode, self, w))"

definition nimbleClientUpdate ::
    "('x, 'w) nimble_lib \<Rightarrow> 'x NimbleClient \<Rightarrow> int \<Rightarrow> 'w world
     \<Rightarrow> (int \<times> 'x NimbleClient \<times> 'w world) option" where
  "nimbleClientUpdate L self now w =
     (let self = self\<lparr>loggingTickCount := loggingTickCount self + 1\<rparr>;
          self = checkTickInterval L self now
      in do {
        (errorCode, self, w) \<leftarrow> nimbleClientReceiveAllDatagramsFromTransport L self w;
        if errorCode < 0 then Some (wrap_s32 errorCode, self, w)
        else Some (updateAfterReceive L self now errorCode w)
      })"

end
