(* ===== verification/NetworkRealizer.thy ===== *)
theory NetworkRealizer
  imports ClientUpdate
begin

text \<open>
  The realizer of \<open>network_realizer.c\<close>: it holds a client and a target state and steers the
  client to it, one step per update.
\<close>

record 'x NimbleClientRealizeSettings =
  settingsTransport :: 'x
  settingsMemory :: 'x
  settingsBlobMemory :: 'x
  settingsMaximumSingleParticipantStepOctetCount :: size_t
  settingsMaximumNumberOfParticipants :: size_t
  settingsApplicationVersion :: 'x
  settingsWantsDebugStreams :: bool

record 'x NimbleClientRealize =
  targetState :: NimbleClientRealizeState
  realizeState :: NimbleClientRealizeState
  client :: "'x NimbleClient"
  settings :: "'x NimbleClientRealizeSettings"
  joinGameRequestNonce :: u64

definition nimbleClientRealizeInit ::
    "('x, 'w) nimble_lib \<Rightarrow> 'x NimbleClientRealize \<Rightarrow> 'x NimbleClientRealizeSettings \<Rightarrow> 'w world
     \<Rightarrow> ('x NimbleClientRealize \<times> 'w world) option" where
  "nimbleClientRealizeInit L self s w =
     (let self = self\<lparr>targetState := NimbleClientRealizeStateInit,
                   realizeState := NimbleClientRealizeStateInit, settings := s\<rparr>
      in do {
        (_, c, w) \<leftarrow> nimbleClientInit L (client self) (settingsMemory s) (settingsBlobMemory s)
          (settingsTransport (settings self)) (settingsMaximumSingleParticipantStepOctetCount s)
          (settingsMaximumNumberOfParticipants s) (settingsApplicationVersion s)
          (settingsWantsDebugStreams s) w;
        Some (self\<lparr>client := c\<rparr>, w)
      })"

definition nimbleClientRealizeReInit ::
    "('x, 'w) nimble_lib \<Rightarrow> 'x NimbleClientRealize \<Rightarrow> 'x NimbleClientRealizeSettings \<Rightarrow> 'w world
     \<Rightarrow> ('x NimbleClientRealize \<times> 'w world) option" where
  "nimbleClientRealizeReInit L self s w =
     (let self = self\<lparr>targetState := NimbleClientRealizeStateInit,
                   realizeState := NimbleClientRealizeStateReInit, settings := s\<rparr>
      in do {
        (c, w) \<leftarrow> nimbleClientReInit L (client self) (settingsTransport (settings self)) w;
        Some (self\<lparr>client := c\<rparr>, w)
      })"

definition nimbleClientRealizeDestroy ::
    "('x, 'w) nimble_lib \<Rightarrow> 'x NimbleClientRealize \<Rightarrow> 'w world
     \<Rightarrow> ('x NimbleClientRealize \<times> 'w world) option" where
  "nimbleClientRealizeDestroy L self w =
     do { (c, w) \<leftarrow> nimbleClientDestroy L (client self) w; Some (self\<lparr>client := c\<rparr>, w) }"

definition nimbleClientRealizeReset ::
    "('x, 'w) nimble_lib \<Rightarrow> 'x NimbleClientRealize \<Rightarrow> 'w world
     \<Rightarrow> ('x NimbleClientRealize \<times> 'w world) option" where
  "nimbleClientRealizeReset L self w =
     do { (c, w) \<leftarrow> nimbleClientReset L (client self) w;
          Some (self\<lparr>client := c, realizeState := NimbleClientRealizeStateCleared,
                     joinGameRequestNonce := 0\<rparr>, w) }"

definition nimbleClientRealizeJoinGame ::
    "'x NimbleClientRealize \<Rightarrow> 'x NimbleSerializeJoinGameRequest \<Rightarrow> 'x NimbleClientRealize" where
  "nimbleClientRealizeJoinGame self request =
     (let request = request\<lparr>nonce := joinGameRequestNonce self\<rparr>;
          self = self\<lparr>joinGameRequestNonce := joinGameRequestNonce self + 1\<rparr>;
          self = self\<lparr>client := (client self)\<lparr>joinGameRequest := request\<rparr>\<rparr>;
          self = self\<lparr>targetState := NimbleClientRealizeStateSynced\<rparr>
      in self\<lparr>client := (client self)\<lparr>joinParticipantPhase := NimbleJoiningStateJoiningParticipant\<rparr>\<rparr>)"

definition nimbleClientRealizeQuitGame :: "'x NimbleClientRealize \<Rightarrow> 'x NimbleClientRealize" where
  "nimbleClientRealizeQuitGame self =
     (let self = self\<lparr>client := nimbleClientDisconnect (client self)\<rparr>
      in self\<lparr>targetState := NimbleClientRealizeStateCleared\<rparr>)"

text \<open>
  The switch on the target state (the two nested switches), then the update: it follows a
  disconnected client, updates the client unless the realizer is cleared or has no target,
  and steers.
\<close>

definition steerToSynced :: "'x NimbleClientRealize \<Rightarrow> 'x NimbleClientRealize" where
  "steerToSynced self =
     (case state (client self) of
        NimbleClientStateIdle \<Rightarrow>
          self\<lparr>client := (client self)\<lparr>state := NimbleClientStateRequestingConnect, waitTime := 0\<rparr>\<rparr>
      | NimbleClientStateConnected \<Rightarrow>
          self\<lparr>client := (client self)\<lparr>state := NimbleClientStateJoiningRequestingState,
                     joinParticipantPhase := NimbleJoiningStateJoiningParticipant, waitTime := 0\<rparr>\<rparr>
      | NimbleClientStateSynced \<Rightarrow>
          self\<lparr>realizeState := NimbleClientRealizeStateSynced, client := (client self)\<lparr>waitTime := 0\<rparr>\<rparr>
      | NimbleClientStateRequestingConnect \<Rightarrow> self
      | NimbleClientStateJoiningRequestingState \<Rightarrow> self
      | NimbleClientStateJoiningDownloadingState \<Rightarrow> self
      | NimbleClientStateDisconnected \<Rightarrow> self)"

definition steer :: "'x NimbleClientRealize \<Rightarrow> 'x NimbleClientRealize" where
  "steer self =
     (case targetState self of
        NimbleClientRealizeStateInit \<Rightarrow> self
      | NimbleClientRealizeStateReInit \<Rightarrow> self
      | NimbleClientRealizeStateDisconnected \<Rightarrow> self
      | NimbleClientRealizeStateCleared \<Rightarrow>
          (if realizeState self \<noteq> NimbleClientRealizeStateCleared
           then self\<lparr>realizeState := targetState self\<rparr> else self)
      | NimbleClientRealizeStateSynced \<Rightarrow> steerToSynced self)"

definition nimbleClientRealizeUpdate ::
    "('x, 'w) nimble_lib \<Rightarrow> 'x NimbleClientRealize \<Rightarrow> int \<Rightarrow> 'w world
     \<Rightarrow> ('x NimbleClientRealize \<times> 'w world) option" where
  "nimbleClientRealizeUpdate L self now w =
     (if state (client self) = NimbleClientStateDisconnected
      then Some (self\<lparr>realizeState := NimbleClientRealizeStateDisconnected\<rparr>, w)
      else do {
        (self, w) \<leftarrow>
          (if realizeState self \<noteq> NimbleClientRealizeStateCleared
              \<and> targetState self \<noteq> NimbleClientRealizeStateInit
           then do { (_, c, w) \<leftarrow> nimbleClientUpdate L (client self) now w;
                     Some (self\<lparr>client := c\<rparr>, w) }
           else Some (self, w));
        if targetState self = realizeState self then Some (self, w)
        else Some (steer self, w)
      })"

end
