(* ===== verification/UpdateContracts.thy ===== *)
theory UpdateContracts
  imports ClientUpdate IncomingProperties
begin

text \<open>
  The contract of a relation across a whole update and across any number of updates, and its
  instances: the invariant of the client, and the state machine that updating drives.
\<close>

section \<open>Updating many times\<close>

text \<open>What the application does: one update per entry of a list of times.\<close>

fun client_run ::
    "('x, 'w) nimble_lib \<Rightarrow> int list \<Rightarrow> 'x NimbleClient \<Rightarrow> 'w world
     \<Rightarrow> ('x NimbleClient \<times> 'w world) option" where
  "client_run L [] c w = Some (c, w)"
| "client_run L (now # later) c w =
     do { (_, c, w) \<leftarrow> nimbleClientUpdate L c now w; client_run L later c w }"

lemma client_run_append:
  "client_run L (ts @ us) c w = do { (c, w) \<leftarrow> client_run L ts c w; client_run L us c w }"
proof (induction ts arbitrary: c w)
  case (Cons t ts)
  then show ?case by (cases "nimbleClientUpdate L c t w") (simp_all add: case_prod_beta)
qed simp

section \<open>The contract\<close>

locale update_contract = receive_contract L R + outgoing_contract L R
  for L :: "('x, 'w) nimble_lib"
    and R :: "'x NimbleClient \<times> 'w world \<Rightarrow> 'x NimbleClient \<times> 'w world \<Rightarrow> bool" +
  assumes ticked: "R (c, w) (c\<lparr>loggingTickCount := n\<rparr>, w)"
    and interval: "R (c, w) (checkTickInterval L c now, w)"
    and judged: "R (c, w)
      (checkIfDisconnectIsNeeded
        (c\<lparr>quality := nimbleClientConnectionQualityUpdate L (state c) (quality c)\<rparr>), w)"
    and waited: "R (c, w) (c\<lparr>waitTime := k\<rparr>, w)"
    and reported: "R (c, w) (showStats (calcStats L c now), w)"
begin

lemma send_packets:
  assumes "sendPackets L c w = (r, c', w')"
  shows "R (c, w) (c', w')"
proof -
  obtain e c1 w1 where o: "nimbleClientOutgoing L c (transport c) w = (e, c1, w1)"
    by (cases "nimbleClientOutgoing L c (transport c) w") auto
  show ?thesis
    using assms outgoing [OF o] refl by (auto simp: sendPackets_def o Let_def split: if_splits)
qed

lemma after_receive:
  assumes "updateAfterReceive L c now k w = (r, c', w')"
  shows "R (c, w) (c', w')"
proof -
  let ?c1 = "checkIfDisconnectIsNeeded
    (c\<lparr>quality := nimbleClientConnectionQualityUpdate L (state c) (quality c)\<rparr>)"
  obtain e c2 w2 where s: "sendPackets L (showStats (calcStats L ?c1 now)) w = (e, c2, w2)"
    by (cases "sendPackets L (showStats (calcStats L ?c1 now)) w") auto
  have "R (?c1, w) (c', w')"
    using assms waited trans [OF reported send_packets [OF s]]
    by (auto simp: updateAfterReceive_def s Let_def split: if_splits)
  with judged show ?thesis by (rule trans)
qed

lemma update:
  assumes "nimbleClientUpdate L c now w = Some (r, c', w')"
  shows "R (c, w) (c', w')"
proof -
  let ?c0 = "checkTickInterval L (c\<lparr>loggingTickCount := loggingTickCount c + 1\<rparr>) now"
  from assms obtain k c1 w1
    where rc: "nimbleClientReceiveAllDatagramsFromTransport L ?c0 w = Some (k, c1, w1)"
    by (auto simp: nimbleClientUpdate_def Let_def)
  have "R (c1, w1) (c', w')"
    using assms refl after_receive [of c1 now k w1 r c' w']
    by (cases "k < 0") (auto simp: nimbleClientUpdate_def Let_def rc)
  from trans [OF receive_all [OF rc] this] have "R (?c0, w) (c', w')" .
  from trans [OF interval this] show ?thesis by (rule trans [OF ticked])
qed

lemma run: "client_run L ts c w = Some (c', w') \<Longrightarrow> R (c, w) (c', w')"
proof (induction ts arbitrary: c w)
  case Nil
  then show ?case using refl by simp
next
  case (Cons t ts)
  then obtain r c1 w1 where "nimbleClientUpdate L c t w = Some (r, c1, w1)"
    and "client_run L ts c1 w1 = Some (c', w')" by auto
  from trans [OF update [OF this(1)] Cons.IH [OF this(2)]] show ?case .
qed

end

section \<open>What the steps of an update leave alone\<close>

lemma judge_frame [simp]:
  "expectedTickDurationMs (checkIfDisconnectIsNeeded c) = expectedTickDurationMs c"
  "localParticipantLookup (checkIfDisconnectIsNeeded c) = localParticipantLookup c"
  "localParticipantCount (checkIfDisconnectIsNeeded c) = localParticipantCount c"
  "joinedGameState (checkIfDisconnectIsNeeded c) = joinedGameState c"
  "waitTime (checkIfDisconnectIsNeeded c) = waitTime c"
  "transport (checkIfDisconnectIsNeeded c) = transport c"
  "orderedDatagramOut (checkIfDisconnectIsNeeded c) = orderedDatagramOut c"
  "quality (checkIfDisconnectIsNeeded c) = quality c"
  "remoteConnectionId (checkIfDisconnectIsNeeded c) = remoteConnectionId c"
  by (simp_all add: checkIfDisconnectIsNeeded_def)

lemma report_frame [simp]:
  "expectedTickDurationMs (showStats (calcStats L c now)) = expectedTickDurationMs c"
  "localParticipantLookup (showStats (calcStats L c now)) = localParticipantLookup c"
  "localParticipantCount (showStats (calcStats L c now)) = localParticipantCount c"
  "joinedGameState (showStats (calcStats L c now)) = joinedGameState c"
  "state (showStats (calcStats L c now)) = state c"
  "joinParticipantPhase (showStats (calcStats L c now)) = joinParticipantPhase c"
  "waitTime (showStats (calcStats L c now)) = waitTime c"
  "transport (showStats (calcStats L c now)) = transport c"
  "orderedDatagramOut (showStats (calcStats L c now)) = orderedDatagramOut c"
  "quality (showStats (calcStats L c now)) = quality c"
  "remoteConnectionId (showStats (calcStats L c now)) = remoteConnectionId c"
  by (simp_all add: showStats_def calcStats_def)

lemma interval_frame [simp]:
  "expectedTickDurationMs (checkTickInterval L c now) = expectedTickDurationMs c"
  "localParticipantLookup (checkTickInterval L c now) = localParticipantLookup c"
  "localParticipantCount (checkTickInterval L c now) = localParticipantCount c"
  "joinedGameState (checkTickInterval L c now) = joinedGameState c"
  "state (checkTickInterval L c now) = state c"
  "joinParticipantPhase (checkTickInterval L c now) = joinParticipantPhase c"
  "waitTime (checkTickInterval L c now) = waitTime c"
  "transport (checkTickInterval L c now) = transport c"
  "orderedDatagramOut (checkTickInterval L c now) = orderedDatagramOut c"
  "orderedDatagramIn (checkTickInterval L c now) = orderedDatagramIn c"
  "quality (checkTickInterval L c now) = quality c"
  "remoteConnectionId (checkTickInterval L c now) = remoteConnectionId c"
  "useStats (checkTickInterval L c now) = useStats c"
  by (simp_all add: checkTickInterval_def Let_def)

section \<open>The invariant\<close>

interpretation ok_sends: send_blind L ok_kept
  for L :: "('x, 'w) nimble_lib"
  by unfold_locales (auto simp: ok_kept_def client_ok_def sending_kept_def)

interpretation ok_updates: update_contract L ok_kept
  for L :: "('x, 'w) nimble_lib"
  by unfold_locales (simp_all add: ok_kept_def client_ok_def)

lemma client_ok_fields [simp]:
  "client_ok (c\<lparr>loggingTickCount := n\<rparr>) h \<longleftrightarrow> client_ok c h"
  "client_ok (checkTickInterval L c now) h \<longleftrightarrow> client_ok c h"
  by (simp_all add: client_ok_def)

section \<open>The blob stream\<close>

text \<open>A client that holds a blob stream that was set up holds one after any update.\<close>

lemma stream_held_stepI:
  assumes "blobStreamIn c' = blobStreamIn c" "blobStreamInLogic c' = blobStreamInLogic c
      \<or> (\<exists>t e t'. blobStreamLogicInSend L (blobStreamInLogic c) t = (e, blobStreamInLogic c', t'))"
  shows "stream_held L G (c, w) (c', w')"
  using assms by (auto simp: stream_held_def holds_stream_def dest: blob_stream_sent)

interpretation held_sends: outgoing_contract L "stream_held L G"
  for L :: "('x, 'w) nimble_lib"
proof (unfold_locales, goal_cases)
  case (3 c tr w r c' w')
  then show ?case
  proof (cases rule: send_message_effect)
    case (stopped e c1 s1 w1 k c2 s2)
    then show ?thesis using message_stream [OF stopped(2)] header_effect(1) [OF stopped(1)]
      by (intro stream_held_stepI) simp_all
  next
    case (short e c1 s1 w1 k c2 s2)
    then show ?thesis using message_stream [OF short(2)] header_effect(1) [OF short(1)]
      by (intro stream_held_stepI) (simp_all add: nimbleClientCommitHeader_def)
  next
    case (sending e c1 s1 w1 k c2 s2)
    then show ?thesis using message_stream [OF sending(2)] header_effect(1) [OF sending(1)]
      by (intro stream_held_stepI) (simp_all add: nimbleClientCommitHeader_def)
  qed
next
  case (4 c tr w r c' w')
  from 4 show ?case
  proof (cases rule: send_steps_effect)
    case (stopped e c1 s1 w1 k c2 s2)
    then show ?thesis using stream_steps [OF stopped(2)] header_effect(1) [OF stopped(1)]
      by (intro stream_held_stepI) simp_all
  next
    case (sending e c1 s1 w1 k c2 s2)
    then show ?thesis using stream_steps [OF sending(2)] header_effect(1) [OF sending(1)]
      by (intro stream_held_stepI) (simp_all add: nimbleClientCommitHeader_def)
  qed
qed (auto simp: stream_held_def holds_stream_def)

interpretation held_updates: update_contract L "stream_held L G"
  for L :: "('x, 'w) nimble_lib"
  by unfold_locales
     (simp_all add: stream_held_def holds_stream_def checkTickInterval_def checkIfDisconnectIsNeeded_def
       showStats_def calcStats_def Let_def)

text \<open>An update returns, and so does any number of them.\<close>

lemma update_defined_on:
  assumes "join_answers_ok L" "blob_streams_ok L G" "drains L m" "client_ok c (heap w)" "holds_stream G c"
  shows "\<exists>r c' w'. nimbleClientUpdate L c now w = Some (r, c', w') \<and> client_ok c' (heap w')
    \<and> holds_stream G c'"
proof -
  let ?c0 = "checkTickInterval L (c\<lparr>loggingTickCount := loggingTickCount c + 1\<rparr>) now"
  have "client_ok ?c0 (heap w)" using assms(4) by simp
  moreover have "holds_stream G ?c0"
    using assms(5) by (simp add: holds_stream_def checkTickInterval_def Let_def)
  ultimately obtain k c1 w1 where "receiveDatagrams L 0 ?c0 w = Some (k, c1, w1)"
    using loop_defined_on [OF assms(1-3), of ?c0 w 0] by blast
  then have "nimbleClientReceiveAllDatagramsFromTransport L ?c0 w = Some (k, c1, w1)"
    by (auto simp: nimbleClientReceiveAllDatagramsFromTransport_def)
  then obtain r c' w' where u: "nimbleClientUpdate L c now w = Some (r, c', w')"
    by (cases "k < 0"; cases "updateAfterReceive L c1 now k w1")
       (auto simp: nimbleClientUpdate_def Let_def)
  with ok_updates.update [OF u] held_updates.update [OF u, of G] assms(2,4,5) show ?thesis
    by (auto simp: ok_kept_def stream_held_def)
qed

lemma update_defined:
  assumes "answers_ok L" "drains L m" "client_ok c (heap w)"
  shows "\<exists>r c' w'. nimbleClientUpdate L c now w = Some (r, c', w') \<and> client_ok c' (heap w')"
  using update_defined_on [OF answers_ok_parts [OF assms(1)] assms(2,3) holds_some_stream, of now] by blast

lemma run_defined:
  assumes "answers_ok L" "drains L m"
  shows "client_ok c (heap w) \<Longrightarrow> \<exists>c' w'. client_run L ts c w = Some (c', w') \<and> client_ok c' (heap w')"
proof (induction ts arbitrary: c w)
  case (Cons t ts)
  from update_defined [OF assms Cons.prems] obtain r c1 w1
    where "nimbleClientUpdate L c t w = Some (r, c1, w1)" "client_ok c1 (heap w1)" by blast
  with Cons.IH [of c1 w1] show ?case by simp
qed simp

section \<open>The state machine that updating drives\<close>

inductive update_step :: "NimbleClientState \<Rightarrow> NimbleClientState \<Rightarrow> bool" where
  by_server: "server_step s t \<Longrightarrow> update_step s t"
| give_up: "update_step NimbleClientStateSynced NimbleClientStateDisconnected"

inductive_simps update_step_iff: "update_step s t"

definition update_steps ::
    "'x NimbleClient \<times> 'w world \<Rightarrow> 'x NimbleClient \<times> 'w world \<Rightarrow> bool" where
  "update_steps s t \<longleftrightarrow> update_step\<^sup>*\<^sup>* (state (fst s)) (state (fst t))"

lemma server_steps_update: "server_steps s t \<Longrightarrow> update_steps s t"
  unfolding server_steps_def update_steps_def
  by (rule rtranclp_mono [THEN predicate2D]) (auto intro: by_server)

interpretation update_sends: send_blind L update_steps
  for L :: "('x, 'w) nimble_lib"
  by unfold_locales (auto simp: update_steps_def sending_kept_def)

interpretation update_receives: receive_contract L update_steps
  for L :: "('x, 'w) nimble_lib"
  by (rule server.coarser) (auto simp: update_steps_def dest: server_steps_update [unfolded update_steps_def])

interpretation steps_updates: update_contract L update_steps
  for L :: "('x, 'w) nimble_lib"
  by unfold_locales (auto simp: update_steps_def checkIfDisconnectIsNeeded_def intro: give_up)

end
