(* ===== verification/OutgoingProperties.thy ===== *)
theory OutgoingProperties
  imports UpdateContracts "HOL-Library.Sublist"
begin

text \<open>
  Properties of the sending side: which datagrams a state sends, their sequence numbers over any
  number of updates, the header's assertion, and the sequence number that a datagram which is
  too short to be sent still uses up.
\<close>

section \<open>Sent datagrams and failed assertions\<close>

text \<open>What was handed to the transport, oldest first, and the assertions that failed.\<close>

fun octets_sent :: "event list \<Rightarrow> octets list" where
  "octets_sent [] = []"
| "octets_sent (Sent d r # es) = octets_sent es @ [d]"
| "octets_sent (AssertFailed m # es) = octets_sent es"

definition datagrams :: "'w world \<Rightarrow> octets list" where
  "datagrams w = octets_sent (trace w)"

definition failed_assertions :: "'w world \<Rightarrow> event list" where
  "failed_assertions w = filter (\<lambda>e. \<not> is_sent e) (trace w)"

lemma octets_sent_filter: "octets_sent es = octets_sent (filter is_sent es)"
  by (induction es rule: octets_sent.induct) simp_all

lemma datagrams_eq_sent: "datagrams w = octets_sent (sent w)"
  using octets_sent_filter [of "trace w"] by (simp add: datagrams_def sent_def)

lemma datagrams_send:
  "transport_send L tr d n w = (r, w') \<Longrightarrow> datagrams w' = datagrams w @ [take (unat n) d]"
  using transport_send_frame(2) [of L tr d n w r w'] by (simp add: datagrams_def)

lemma datagrams_header:
  "nimbleClientWriteHeader L c s w = (r, c', s', w') \<Longrightarrow> datagrams w' = datagrams w"
  using header_effect(3) [of L c s w r c' s' w'] by (simp add: datagrams_eq_sent)

section \<open>The messages of a state\<close>

datatype message = Steps | ConnectRequest | DownloadStateRequest | BlobStreamReply | JoinRequest

text \<open>What the protocol sends in each state, in this order.\<close>

fun messages_due :: "NimbleClientState \<Rightarrow> NimbleJoiningState \<Rightarrow> message list" where
  "messages_due NimbleClientStateRequestingConnect p = [ConnectRequest]"
| "messages_due NimbleClientStateJoiningRequestingState p = [DownloadStateRequest]"
| "messages_due NimbleClientStateJoiningDownloadingState p = [BlobStreamReply]"
| "messages_due NimbleClientStateSynced NimbleJoiningStateJoiningParticipant = [Steps, JoinRequest]"
| "messages_due NimbleClientStateSynced p = [Steps]"
| "messages_due st p = []"

text \<open>The stream after the message has been written, and whether the library could write it.\<close>

fun write_message ::
    "('x, 'w) nimble_lib \<Rightarrow> 'x NimbleClient \<Rightarrow> message \<Rightarrow> 'x FldOutStream \<Rightarrow> 'x FldOutStream \<times> bool" where
  "write_message L c ConnectRequest s =
     (nimbleSerializeClientOutConnectRequest L s
        \<lparr>requestApplicationVersion = applicationVersion c, requestUseDebugStreams = wantsDebugStreams c,
         clientRequestId = connectRequestId c\<rparr>, True)"
| "write_message L c DownloadStateRequest s =
     (fldOutStreamWriteUInt8 L
        (nimbleSerializeWriteCommand L s (NimbleSerializeCmdDownloadGameStateRequest L))
        (downloadStateClientRequestId c), True)"
| "write_message L c BlobStreamReply s =
     (case blobStreamLogicInSend L (blobStreamInLogic c)
        (nimbleSerializeWriteCommand L s (NimbleSerializeCmdClientOutBlobStream L)) of
        (e, l, s') \<Rightarrow> (s', 0 \<le> e))"
| "write_message L c JoinRequest s = (nimbleSerializeClientOutJoinGameRequest L s (joinGameRequest c), True)"
| "write_message L c Steps s =
     (case nbsPendingStepsReceiveMask L (authoritativePendingStepsFromServer c) of (receiveMask, expected) \<Rightarrow>
      case nbsPendingStepsSerializeOutHeader L
        (nimbleSerializeWriteCommand L s (NimbleSerializeCmdGameStep L)) expected receiveMask of (e, s1) \<Rightarrow>
      case nbsStepsOutSerialize L s1 (outSteps c) of (k, s2) \<Rightarrow> (s2, 0 \<le> e \<and> 0 < k))"

text \<open>The stream that carries a message: the header with sequence state \<open>x\<close> and time, then the message.\<close>

definition header_stream :: "('x, 'w) nimble_lib \<Rightarrow> 'x \<Rightarrow> int \<Rightarrow> 'x FldOutStream" where
  "header_stream L x now = snd (fldOutStreamWriteUInt16 L
     (snd (orderedDatagramOutLogicPrepare L x (fresh_out L))) (monotonicTimeMsToLowerBits L now))"

definition message_octets ::
    "('x, 'w) nimble_lib \<Rightarrow> 'x NimbleClient \<Rightarrow> 'x \<Rightarrow> int \<Rightarrow> message \<Rightarrow> octets" where
  "message_octets L c x now m =
     (let s = fst (write_message L c m (header_stream L x now)) in take (unat (outPos s)) (outOctets s))"

text \<open>Writing succeeds, and the state messages are long enough to be sent.\<close>

definition deliverable ::
    "('x, 'w) nimble_lib \<Rightarrow> 'x NimbleClient \<Rightarrow> 'x \<Rightarrow> int \<Rightarrow> message \<Rightarrow> bool" where
  "deliverable L c x now m \<longleftrightarrow>
     (case write_message L c m (header_stream L x now) of
        (s, written) \<Rightarrow> written \<and> (m = Steps \<or> 10 < outPos s))"

text \<open>
  What is relied on: preparing a header does not change the sequence state (only committing
  does), and a header alone is at most ten octets long.
\<close>

definition header_ok :: "('x, 'w) nimble_lib \<Rightarrow> bool" where
  "header_ok L \<longleftrightarrow> (\<forall>x s. fst (orderedDatagramOutLogicPrepare L x s) = x)
     \<and> (\<forall>x now. outPos (header_stream L x now) \<le> 10)"

lemma write_message_cong:
  assumes "applicationVersion c' = applicationVersion c" "wantsDebugStreams c' = wantsDebugStreams c"
    "connectRequestId c' = connectRequestId c" "blobStreamInLogic c' = blobStreamInLogic c"
    "downloadStateClientRequestId c' = downloadStateClientRequestId c"
    "joinGameRequest c' = joinGameRequest c" "outSteps c' = outSteps c"
    "authoritativePendingStepsFromServer c' = authoritativePendingStepsFromServer c"
  shows "write_message L c' m s = write_message L c m s"
  using assms by (cases m) simp_all

lemma header_fields:
  assumes "header_ok L" "nimbleClientWriteHeader L c (fresh_out L) w = (e, c1, s1, w1)"
  shows "c1 = c" "s1 = header_stream L (orderedDatagramOut c) (fst (monotonicTimeMsNow L (outside w)))"
    and "datagrams w1 = datagrams w"
  using header_effect [OF assms(2)] datagrams_header [OF assms(2)] assms(1)
  by (simp_all add: header_ok_def header_stream_def)

lemma send_result:
  "transport_send L tr d n w = (r, w') \<Longrightarrow> \<exists>d n o'. r = fst (transportSend L tr d n o')"
  by (auto simp: transport_send_def split: prod.splits) (metis fst_conv)

text \<open>The state's message is what \<open>sendMessageUsingStream\<close> writes.\<close>

lemma message_written:
  assumes "sendMessageUsingStream L c s = (k, c', s')"
    and "messages_due (state c) (joinParticipantPhase c) = ms @ [m]" "m \<noteq> Steps"
  shows "s' = fst (write_message L c m s)" "0 \<le> k \<longleftrightarrow> snd (write_message L c m s)"
    and "orderedDatagramOut c' = orderedDatagramOut c"
proof -
  obtain e l s2 where b: "blobStreamLogicInSend L (blobStreamInLogic c)
      (nimbleSerializeWriteCommand L s (NimbleSerializeCmdClientOutBlobStream L)) = (e, l, s2)"
    by (cases "blobStreamLogicInSend L (blobStreamInLogic c)
      (nimbleSerializeWriteCommand L s (NimbleSerializeCmdClientOutBlobStream L))") auto
  have "s' = fst (write_message L c m s) \<and> (0 \<le> k \<longleftrightarrow> snd (write_message L c m s))
      \<and> orderedDatagramOut c' = orderedDatagramOut c"
    using assms
    by (cases "state c"; cases "joinParticipantPhase c"; cases "e < 0")
       (auto simp: sendMessageUsingStream_def sendConnectRequest_def sendStartDownloadStateRequest_def
         sendBlobStreamCommands_def updateSyncedSubState_def sendJoinGameRequest_def b Let_def
         append_eq_Cons_conv)
  then show "s' = fst (write_message L c m s)" "0 \<le> k \<longleftrightarrow> snd (write_message L c m s)"
    "orderedDatagramOut c' = orderedDatagramOut c" by blast+
qed

lemma steps_written:
  assumes "sendStepsToStream L c s = (k, c', s')" "snd (write_message L c Steps s)"
  shows "s' = fst (write_message L c Steps s)" "0 < k" "orderedDatagramOut c' = orderedDatagramOut c"
proof -
  let ?s1 = "nimbleSerializeWriteCommand L s (NimbleSerializeCmdGameStep L)"
  obtain m i where rm: "nbsPendingStepsReceiveMask L (authoritativePendingStepsFromServer c) = (m, i)"
    by fastforce
  obtain e s2 where h: "nbsPendingStepsSerializeOutHeader L ?s1 i m = (e, s2)" by fastforce
  obtain n s3 where o: "nbsStepsOutSerialize L s2 (outSteps c) = (n, s3)" by fastforce
  from assms have "\<not> e < 0" "\<not> n < 0" "0 < n" "k = n" "s' = s3"
    "orderedDatagramOut c' = orderedDatagramOut c"
    by (auto simp: sendStepsToStream_def rm h o Let_def)
  then show "s' = fst (write_message L c Steps s)" "0 < k" "orderedDatagramOut c' = orderedDatagramOut c"
    by (simp_all add: rm h o)
qed

lemma state_message_sent:
  assumes "sendStateMessage L c tr w = (r, c', w')" "header_ok L"
    and "messages_due (state c) (joinParticipantPhase c) = ms @ [m]" "m \<noteq> Steps"
    and "deliverable L c (orderedDatagramOut c) (fst (monotonicTimeMsNow L (outside w))) m"
  shows "datagrams w' = datagrams w @ [message_octets L c (orderedDatagramOut c)
      (fst (monotonicTimeMsNow L (outside w))) m] \<and> (\<exists>d n o'. r = fst (transportSend L tr d n o'))"
  using assms(1)
proof (cases rule: send_message_effect)
  case (stopped e c1 s1 w1 k c2 s2)
  note h = header_fields [OF assms(2) stopped(1)]
  from message_written(2) [OF stopped(2)] stopped(3) assms(3-5) show ?thesis
    by (auto simp: h deliverable_def split: prod.splits)
next
  case (short e c1 s1 w1 k c2 s2)
  note h = header_fields [OF assms(2) short(1)]
  from message_written(1) [OF short(2)] short(4) assms(3-5) show ?thesis
    by (auto simp: h deliverable_def split: prod.splits)
next
  case (sending e c1 s1 w1 k c2 s2)
  note h = header_fields [OF assms(2) sending(1)]
  from message_written(1) [OF sending(2)] assms(3,4) datagrams_send [OF sending(6)]
    send_result [OF sending(6)] show ?thesis
    by (simp add: h message_octets_def Let_def)
qed

text \<open>Once joined there is no message after the steps: only the header is written, and committed.\<close>

lemma no_state_message:
  assumes "sendStateMessage L c tr w = (r, c', w')" "header_ok L"
    and "state c = NimbleClientStateSynced" "joinParticipantPhase c \<noteq> NimbleJoiningStateJoiningParticipant"
  shows "r = 0" "datagrams w' = datagrams w"
    and "orderedDatagramOut c' = orderedDatagramOutLogicCommit L (orderedDatagramOut c)"
proof -
  obtain e c1 s1 w1 where hd: "nimbleClientWriteHeader L c (fresh_out L) w = (e, c1, s1, w1)"
    by (cases "nimbleClientWriteHeader L c (fresh_out L) w") auto
  note h = header_fields [OF assms(2) hd]
  have "sendMessageUsingStream L c s1 = (0, c, s1)"
    using assms(3,4)
    by (cases "joinParticipantPhase c") (simp_all add: sendMessageUsingStream_def updateSyncedSubState_def)
  moreover have "outPos s1 \<le> 10" using assms(2) h(2) by (simp add: header_ok_def)
  ultimately have "r = 0 \<and> c' = nimbleClientCommitHeader L c \<and> w' = w1"
    using assms(1) by (simp add: sendStateMessage_def fresh_out_def [symmetric] hd h(1))
  then show "r = 0" "datagrams w' = datagrams w"
    "orderedDatagramOut c' = orderedDatagramOutLogicCommit L (orderedDatagramOut c)"
    using h(3) by (simp_all add: nimbleClientCommitHeader_def)
qed

lemma steps_sent:
  assumes "nimbleClientSendStepsToServer L c tr w = (r, c', w')" "header_ok L"
    and "deliverable L c (orderedDatagramOut c) (fst (monotonicTimeMsNow L (outside w))) Steps"
  shows "datagrams w' = datagrams w @ [message_octets L c (orderedDatagramOut c)
      (fst (monotonicTimeMsNow L (outside w))) Steps]"
    and "orderedDatagramOut c' = orderedDatagramOutLogicCommit L (orderedDatagramOut c)"
    and "write_message L c' m s = write_message L c m s"
    and "state c' = state c" "joinParticipantPhase c' = joinParticipantPhase c"
    and "\<exists>d n o'. r = fst (transportSend L tr d n o')"
proof -
  have "datagrams w' = datagrams w @ [message_octets L c (orderedDatagramOut c)
      (fst (monotonicTimeMsNow L (outside w))) Steps]
    \<and> orderedDatagramOut c' = orderedDatagramOutLogicCommit L (orderedDatagramOut c)
    \<and> write_message L c' m s = write_message L c m s
    \<and> state c' = state c \<and> joinParticipantPhase c' = joinParticipantPhase c
    \<and> (\<exists>d n o'. r = fst (transportSend L tr d n o'))"
    using assms(1)
  proof (cases rule: send_steps_effect)
    case (stopped e c1 s1 w1 k c2 s2)
    note h = header_fields [OF assms(2) stopped(1)]
    from steps_written(2) [OF stopped(2)] stopped(3) assms(3) show ?thesis
      by (auto simp: h deliverable_def simp del: write_message.simps split: prod.splits)
  next
    case (sending e c1 s1 w1 k c2 s2)
    note h = header_fields [OF assms(2) sending(1)]
    have ok: "snd (write_message L c1 Steps s1)"
      using assms(3) by (auto simp: h deliverable_def simp del: write_message.simps split: prod.splits)
    note st = steps_written [OF sending(2) ok]
    obtain wt q where "c2 = c1\<lparr>waitTime := wt, outgoingStepsInQueue := q\<rparr>"
      using sending(2) by (rule steps_stream_effect)
    then have "c' = c\<lparr>waitTime := wt, outgoingStepsInQueue := q,
        orderedDatagramOut := orderedDatagramOutLogicCommit L (orderedDatagramOut c),
        sentStepsDatagramCountPerSecond := statsIntPerSecondAdd L (sentStepsDatagramCountPerSecond c) 1,
        packetsPerSecondOut := statsIntPerSecondAdd L (packetsPerSecondOut c) 1\<rparr>"
      using sending(4) h(1) by (simp add: nimbleClientCommitHeader_def)
    then have "orderedDatagramOut c' = orderedDatagramOutLogicCommit L (orderedDatagramOut c)"
      "state c' = state c" "joinParticipantPhase c' = joinParticipantPhase c"
      and "write_message L c' m s = write_message L c m s"
      by (simp, simp, simp, intro write_message_cong) simp_all
    moreover have "\<exists>d n o'. r = fst (transportSend L tr d n o')"
      using send_result [OF sending(5)] .
    ultimately show ?thesis
      using st(1) datagrams_send [OF sending(5)]
      by (simp add: h message_octets_def Let_def del: write_message.simps)
  qed
  then show "datagrams w' = datagrams w @ [message_octets L c (orderedDatagramOut c)
      (fst (monotonicTimeMsNow L (outside w))) Steps]"
    "orderedDatagramOut c' = orderedDatagramOutLogicCommit L (orderedDatagramOut c)"
    "write_message L c' m s = write_message L c m s"
    "state c' = state c" "joinParticipantPhase c' = joinParticipantPhase c"
    "\<exists>d n o'. r = fst (transportSend L tr d n o')" by blast+
qed

lemma message_octets_cong:
  "write_message L c' m = write_message L c m \<Longrightarrow> message_octets L c' x now m = message_octets L c x now m"
  "write_message L c' m = write_message L c m \<Longrightarrow> deliverable L c' x now m = deliverable L c x now m"
  by (simp_all add: message_octets_def deliverable_def)

text \<open>A client that is synced and still joining: the steps, then the join request.\<close>

lemma synced_sends:
  assumes "handleState L c tr w = (e, c1, w1)" "header_ok L" "state c = NimbleClientStateSynced"
    and del: "\<And>x now m. m \<in> set (messages_due (state c) (joinParticipantPhase c)) \<Longrightarrow> deliverable L c x now m"
    and acc: "\<And>d n o'. 0 \<le> fst (transportSend L tr d n o')"
  shows "0 \<le> e \<and> (\<exists>t1 t2. datagrams w1 = datagrams w
      @ message_octets L c (orderedDatagramOut c) t1 Steps
      # (if joinParticipantPhase c = NimbleJoiningStateJoiningParticipant
         then [message_octets L c (orderedDatagramOutLogicCommit L (orderedDatagramOut c)) t2 JoinRequest]
         else []))"
proof -
  obtain k c2 w2 where st: "nimbleClientSendStepsToServer L c tr w = (k, c2, w2)"
    by (cases "nimbleClientSendStepsToServer L c tr w") auto
  have "Steps \<in> set (messages_due (state c) (joinParticipantPhase c))"
    using assms(3) by (cases "joinParticipantPhase c") simp_all
  note steps = steps_sent [OF st assms(2) del [OF this]]
  have same: "write_message L c2 m = write_message L c m" for m using steps(3) by blast
  have "0 \<le> k" using steps(6) acc by metis
  then have sm: "sendStateMessage L c2 tr w2 = (e, c1, w1)"
    using assms(1,3) by (simp add: handleState_def st)
  show ?thesis
  proof (cases "joinParticipantPhase c = NimbleJoiningStateJoiningParticipant")
    case True
    have "deliverable L c2 x now JoinRequest" for x now
      using del True assms(3) message_octets_cong(2) [OF same] by simp
    from state_message_sent [OF sm assms(2) _ _ this, of "[Steps]"] True assms(3) steps(1,2,4,5)
    show ?thesis using acc by (auto simp: message_octets_cong(1) [OF same])
  next
    case False
    with no_state_message [OF sm assms(2)] steps(1,4,5) assms(3) show ?thesis by auto
  qed
qed

section \<open>Properties\<close>

text \<open>
  C8. Each state sends its messages. When the library can write every message that is due and
  the transport takes it, one call of \<open>nimbleClientOutgoing\<close> sends exactly the messages of
  the client's state, in order (the predicted steps before the join request), each behind a
  header with the next sequence number; it returns 0. An idle, connected
  or disconnected client sends nothing, a joined client its steps only.
\<close>

theorem outgoing_sends_due_messages:
  assumes "header_ok L"
    and "\<forall>x now. \<forall>m \<in> set (messages_due (state c) (joinParticipantPhase c)). deliverable L c x now m"
    and "\<forall>d n o'. 0 \<le> fst (transportSend L tr d n o')"
    and "nimbleClientOutgoing L c tr w = (r, c', w')"
    and "ms = messages_due (state c) (joinParticipantPhase c)"
  shows "r = 0
    \<and> (\<exists>times. datagrams w' = datagrams w @ map (\<lambda>i. message_octets L c
          ((orderedDatagramOutLogicCommit L ^^ i) (orderedDatagramOut c)) (times i) (ms ! i)) [0..<length ms])"
proof -
  obtain e c1 w1 where hs: "handleState L c tr w = (e, c1, w1)" by (cases "handleState L c tr w") auto
  have eq: "r = 0 \<and> w' = w1" if "0 \<le> e"
    using assms(4) that by (simp add: nimbleClientOutgoing_def hs)
  note del = assms(2) [rule_format]
  consider "ms = []" | m where "ms = [m]" "m \<noteq> Steps" | "state c = NimbleClientStateSynced"
    using assms(5) by (cases "state c") simp_all
  then show ?thesis
  proof cases
    case 1
    then have "0 \<le> e \<and> w1 = w"
      using hs assms(5) by (cases "state c"; cases "joinParticipantPhase c") (simp_all add: handleState_def)
    with eq 1 show ?thesis by simp
  next
    case (2 m)
    then have sm: "sendStateMessage L c tr w = (e, c1, w1)"
      using hs assms(5) by (cases "state c"; cases "joinParticipantPhase c") (simp_all add: handleState_def)
    have due: "messages_due (state c) (joinParticipantPhase c) = [] @ [m]" using 2 assms(5) by simp
    have "deliverable L c x now m" for x now using del due by simp
    from state_message_sent [OF sm assms(1) due 2(2) this] assms(3)
    have "datagrams w1 = datagrams w @ [message_octets L c (orderedDatagramOut c)
        (fst (monotonicTimeMsNow L (outside w))) m] \<and> 0 \<le> e" by auto
    with eq 2 show ?thesis by auto
  next
    case 3
    from synced_sends [OF hs assms(1) 3] del assms(3) obtain t1 t2
      where d: "0 \<le> e" "datagrams w1 = datagrams w
      @ message_octets L c (orderedDatagramOut c) t1 Steps
      # (if joinParticipantPhase c = NimbleJoiningStateJoiningParticipant
         then [message_octets L c (orderedDatagramOutLogicCommit L (orderedDatagramOut c)) t2 JoinRequest]
         else [])" by blast
    have "ms = Steps # (if joinParticipantPhase c = NimbleJoiningStateJoiningParticipant then [JoinRequest] else [])"
      using 3 assms(5) by (cases "joinParticipantPhase c") simp_all
    with d eq show ?thesis
      by (intro conjI exI [of _ "\<lambda>i. if i = 0 then t1 else t2"]) (auto simp: upt_rec)
  qed
qed

lemma sample_header_ok: "header_ok sampleLib"
  by (simp add: header_ok_def header_stream_def fresh_out_def sample_fields sample_write_def)

lemma sample_deliverable:
  "deliverable sampleLib c x now Steps" "deliverable sampleLib c x now ConnectRequest"
  "deliverable sampleLib c x now JoinRequest"
  by (simp_all add: deliverable_def header_stream_def fresh_out_def sample_fields sample_write_def)

theorem outgoing_sends_due_messages_witness:
  "\<exists>r c' w' d e. nimbleClientOutgoing sampleLib
      (sample_client NimbleClientStateSynced NimbleJoiningStateJoiningParticipant 0 0) [] (sample_world [])
    = (r, c', w') \<and> datagrams w' = [d, e]"
proof -
  let ?c = "sample_client NimbleClientStateSynced NimbleJoiningStateJoiningParticipant 0 0"
  obtain r c' w' where run: "nimbleClientOutgoing sampleLib ?c [] (sample_world []) = (r, c', w')"
    by (cases "nimbleClientOutgoing sampleLib ?c [] (sample_world [])") auto
  have due: "messages_due (state ?c) (joinParticipantPhase ?c) = [Steps, JoinRequest]"
    by (simp add: sample_client_def)
  have acc: "\<forall>d n o'. 0 \<le> fst (transportSend sampleLib [] d n o')" by (simp add: sample_fields)
  have w: "datagrams (sample_world []) = []" by (simp add: datagrams_def sample_world_def)
  from outgoing_sends_due_messages [OF sample_header_ok _ acc run refl] run w show ?thesis
    by (auto simp: due sample_deliverable upt_rec)
qed

section \<open>Sequence numbers\<close>

text \<open>
  A stream is well formed when its position is the number of octets written; a write appends.
\<close>

definition stream_ok :: "'x FldOutStream \<Rightarrow> bool" where
  "stream_ok s \<longleftrightarrow> unat (outPos s) = length (outOctets s)"

definition appends :: "('x FldOutStream \<Rightarrow> 'x FldOutStream) \<Rightarrow> bool" where
  "appends f \<longleftrightarrow> (\<forall>s. stream_ok s \<longrightarrow> stream_ok (f s) \<and> prefix (outOctets s) (outOctets (f s)))"

lemma appendsD:
  "appends f \<Longrightarrow> stream_ok s \<Longrightarrow> prefix h (outOctets s) \<Longrightarrow>
     stream_ok (f s) \<and> prefix h (outOctets (f s))"
  by (auto simp: appends_def intro: prefix_order.trans)

text \<open>
  What the libraries document: a stream starts empty, every write appends to it, and the header
  that the sequence logic writes in state \<open>x\<close> starts with the octets \<open>hdr x\<close>.
\<close>

definition writes_ok :: "('x, 'w) nimble_lib \<Rightarrow> ('x \<Rightarrow> octets) \<Rightarrow> bool" where
  "writes_ok L hdr \<longleftrightarrow>
     (\<forall>n. outPos (fldOutStreamInit L n) = 0 \<and> outOctets (fldOutStreamInit L n) = [])
     \<and> (\<forall>x s. fst (orderedDatagramOutLogicPrepare L x s) = x
          \<and> (stream_ok s \<and> outOctets s = [] \<longrightarrow> stream_ok (snd (orderedDatagramOutLogicPrepare L x s))
               \<and> outOctets (snd (orderedDatagramOutLogicPrepare L x s)) = hdr x))
     \<and> (\<forall>v. appends (\<lambda>s. snd (fldOutStreamWriteUInt16 L s v)))
     \<and> (\<forall>v. appends (\<lambda>s. fldOutStreamWriteUInt8 L s v))
     \<and> (\<forall>v. appends (\<lambda>s. nimbleSerializeWriteCommand L s v))
     \<and> (\<forall>r. appends (\<lambda>s. nimbleSerializeClientOutConnectRequest L s r))
     \<and> (\<forall>r. appends (\<lambda>s. nimbleSerializeClientOutJoinGameRequest L s r))
     \<and> (\<forall>i v. appends (\<lambda>s. snd (nbsPendingStepsSerializeOutHeader L s i v)))
     \<and> (\<forall>q. appends (\<lambda>s. snd (nbsStepsOutSerialize L s q)))
     \<and> (\<forall>l. appends (\<lambda>s. snd (snd (blobStreamLogicInSend L l s))))"

text \<open>
  The numbering of what is sent from one point to another: each datagram carries the header of
  the state that the sequence logic had after \<open>k\<close> commits, with a larger \<open>k\<close> for each datagram.
\<close>

definition numbered_by ::
    "('x, 'w) nimble_lib \<Rightarrow> ('x \<Rightarrow> octets) \<Rightarrow> nat \<Rightarrow> nat list
     \<Rightarrow> 'x NimbleClient \<times> 'w world \<Rightarrow> 'x NimbleClient \<times> 'w world \<Rightarrow> bool" where
  "numbered_by L hdr n ks s t \<longleftrightarrow>
     orderedDatagramOut (fst t) = (orderedDatagramOutLogicCommit L ^^ n) (orderedDatagramOut (fst s))
     \<and> sorted_wrt (<) ks \<and> (\<forall>k \<in> set ks. k < n)
     \<and> (\<exists>ds. datagrams (snd t) = datagrams (snd s) @ ds
          \<and> list_all2 (\<lambda>k d. prefix
              (hdr ((orderedDatagramOutLogicCommit L ^^ k) (orderedDatagramOut (fst s)))) d) ks ds)"

definition numbered ::
    "('x, 'w) nimble_lib \<Rightarrow> ('x \<Rightarrow> octets)
     \<Rightarrow> 'x NimbleClient \<times> 'w world \<Rightarrow> 'x NimbleClient \<times> 'w world \<Rightarrow> bool" where
  "numbered L hdr s t \<longleftrightarrow> (writes_ok L hdr \<longrightarrow> (\<exists>n ks. numbered_by L hdr n ks s t))"

lemma numbered_by_trans:
  assumes "numbered_by L hdr n ks s t" "numbered_by L hdr m js t u"
  shows "numbered_by L hdr (n + m) (ks @ map (\<lambda>j. j + n) js) s u"
proof -
  from assms obtain ds es where d: "datagrams (snd t) = datagrams (snd s) @ ds"
      "list_all2 (\<lambda>k d. prefix (hdr ((orderedDatagramOutLogicCommit L ^^ k) (orderedDatagramOut (fst s)))) d) ks ds"
    and e: "datagrams (snd u) = datagrams (snd t) @ es"
      "list_all2 (\<lambda>k d. prefix (hdr ((orderedDatagramOutLogicCommit L ^^ k) (orderedDatagramOut (fst t)))) d) js es"
    by (auto simp: numbered_by_def)
  have t: "orderedDatagramOut (fst t) = (orderedDatagramOutLogicCommit L ^^ n) (orderedDatagramOut (fst s))"
    using assms(1) by (simp add: numbered_by_def)
  have "list_all2 (\<lambda>k d. prefix (hdr ((orderedDatagramOutLogicCommit L ^^ k) (orderedDatagramOut (fst s)))) d)
      (ks @ map (\<lambda>j. j + n) js) (ds @ es)"
    using d(2) e(2) t by (auto simp: list_all2_map1 funpow_add intro!: list_all2_appendI)
  moreover have "sorted_wrt (<) (ks @ map (\<lambda>j. j + n) js)" "\<forall>k \<in> set (ks @ map (\<lambda>j. j + n) js). k < n + m"
    using assms by (auto simp: numbered_by_def sorted_wrt_append sorted_wrt_map)
  moreover have "orderedDatagramOut (fst u) = (orderedDatagramOutLogicCommit L ^^ (n + m)) (orderedDatagramOut (fst s))"
    using assms(2) t by (simp add: numbered_by_def add.commute [of n m] funpow_add)
  ultimately show ?thesis using d(1) e(1) by (auto simp: numbered_by_def)
qed

lemma numbered_trans: "numbered L hdr s t \<Longrightarrow> numbered L hdr t u \<Longrightarrow> numbered L hdr s u"
  unfolding numbered_def using numbered_by_trans by blast

text \<open>Steps that neither touch the sequence logic nor send.\<close>

lemma numbered_same:
  "orderedDatagramOut c' = orderedDatagramOut c \<Longrightarrow> sent w' = sent w \<Longrightarrow> numbered L hdr (c, w) (c', w')"
  unfolding numbered_def numbered_by_def
  by (intro impI exI [of _ 0] exI [of _ "[]"]) (simp add: datagrams_eq_sent)

lemma numbered_refl: "numbered L hdr s s"
  by (cases s) (simp add: numbered_same)

lemma header_numbered:
  assumes "writes_ok L hdr" "nimbleClientWriteHeader L c (fresh_out L) w = (e, c1, s1, w1)"
  shows "c1 = c" "stream_ok s1 \<and> prefix (hdr (orderedDatagramOut c)) (outOctets s1)" "datagrams w1 = datagrams w"
proof -
  have fresh: "stream_ok (fresh_out L)" "outOctets (fresh_out L) = []"
    using assms(1) by (simp_all add: writes_ok_def fresh_out_def stream_ok_def)
  have prep: "fst (orderedDatagramOutLogicPrepare L x s) = x"
    "stream_ok s \<Longrightarrow> outOctets s = [] \<Longrightarrow> stream_ok (snd (orderedDatagramOutLogicPrepare L x s))"
    "stream_ok s \<Longrightarrow> outOctets s = [] \<Longrightarrow> outOctets (snd (orderedDatagramOutLogicPrepare L x s)) = hdr x" for x s
    using assms(1) by (simp_all add: writes_ok_def)
  have "appends (\<lambda>s. snd (fldOutStreamWriteUInt16 L s v))" for v using assms(1) by (simp add: writes_ok_def)
  from appendsD [OF this prep(2) [OF fresh], of "hdr (orderedDatagramOut c)"] prep(3) [OF fresh]
  show "stream_ok s1 \<and> prefix (hdr (orderedDatagramOut c)) (outOctets s1)"
    using header_effect(5) [OF assms(2)] by simp
  show "c1 = c" using header_effect(1) [OF assms(2)] prep(1) by simp
  show "datagrams w1 = datagrams w" using datagrams_header [OF assms(2)] .
qed

lemma message_appends:
  assumes "writes_ok L hdr" "sendMessageUsingStream L c s = (k, c', s')"
    and "stream_ok s" "prefix h (outOctets s)"
  shows "stream_ok s' \<and> prefix h (outOctets s')"
proof -
  have a: "appends (\<lambda>s. fldOutStreamWriteUInt8 L s u)" "appends (\<lambda>s. nimbleSerializeWriteCommand L s v)"
    "appends (\<lambda>s. nimbleSerializeClientOutConnectRequest L s q)"
    "appends (\<lambda>s. nimbleSerializeClientOutJoinGameRequest L s r)"
    "appends (\<lambda>s. snd (snd (blobStreamLogicInSend L l s)))" for u v q r l
    using assms(1) by (simp_all add: writes_ok_def)
  note cmd = appendsD [OF a(2) assms(3,4)]
  obtain e l s2 where b: "blobStreamLogicInSend L (blobStreamInLogic c)
      (nimbleSerializeWriteCommand L s (NimbleSerializeCmdClientOutBlobStream L)) = (e, l, s2)"
    by (cases "blobStreamLogicInSend L (blobStreamInLogic c)
      (nimbleSerializeWriteCommand L s (NimbleSerializeCmdClientOutBlobStream L))") auto
  have "stream_ok s2 \<and> prefix h (outOctets s2)"
    using appendsD [OF a(5), of "nimbleSerializeWriteCommand L s (NimbleSerializeCmdClientOutBlobStream L)" h
        "blobStreamInLogic c"] cmd b by simp
  moreover have "stream_ok (fldOutStreamWriteUInt8 L (nimbleSerializeWriteCommand L s v) u)
      \<and> prefix h (outOctets (fldOutStreamWriteUInt8 L (nimbleSerializeWriteCommand L s v) u))" for u v
    using appendsD [OF a(1)] cmd by blast
  moreover note appendsD [OF a(3) assms(3,4)] appendsD [OF a(4) assms(3,4)]
  ultimately show ?thesis
    using assms(2-4)
    by (cases "state c"; cases "joinParticipantPhase c"; cases "e < 0")
       (auto simp: sendMessageUsingStream_def sendConnectRequest_def sendStartDownloadStateRequest_def
         sendBlobStreamCommands_def updateSyncedSubState_def sendJoinGameRequest_def b Let_def)
qed

lemma steps_appends:
  assumes "writes_ok L hdr" "sendStepsToStream L c s = (k, c', s')"
    and "stream_ok s" "prefix h (outOctets s)"
  shows "stream_ok s' \<and> prefix h (outOctets s')"
proof -
  have a: "appends (\<lambda>s. nimbleSerializeWriteCommand L s v)"
    "appends (\<lambda>s. snd (nbsPendingStepsSerializeOutHeader L s i u))"
    "appends (\<lambda>s. snd (nbsStepsOutSerialize L s q))" for u v i q
    using assms(1) by (simp_all add: writes_ok_def)
  let ?s1 = "nimbleSerializeWriteCommand L s (NimbleSerializeCmdGameStep L)"
  obtain m i where rm: "nbsPendingStepsReceiveMask L (authoritativePendingStepsFromServer c) = (m, i)"
    by fastforce
  obtain e s2 where hd: "nbsPendingStepsSerializeOutHeader L ?s1 i m = (e, s2)" by fastforce
  obtain n s3 where o: "nbsStepsOutSerialize L s2 (outSteps c) = (n, s3)" by fastforce
  have "stream_ok s2 \<and> prefix h (outOctets s2)"
    using appendsD [OF a(2), of ?s1 h i m] appendsD [OF a(1) assms(3,4)] hd by simp
  moreover from this have "stream_ok s3 \<and> prefix h (outOctets s3)"
    using appendsD [OF a(3), of s2 h "outSteps c"] o by simp
  ultimately show ?thesis
    using assms(2) by (cases "e < 0"; cases "n < 0") (auto simp: sendStepsToStream_def rm hd o Let_def)
qed

lemma numbered_byI:
  assumes "orderedDatagramOut c' = (orderedDatagramOutLogicCommit L ^^ n) (orderedDatagramOut c)"
    and "datagrams w' = datagrams w @ ds" "n \<le> 1"
    and "ds = [] \<or> (\<exists>d. ds = [d] \<and> n = 1 \<and> prefix (hdr (orderedDatagramOut c)) d)"
  shows "numbered L hdr (c, w) (c', w')"
  unfolding numbered_def numbered_by_def using assms
  by (intro impI exI [of _ n] exI [of _ "if ds = [] then [] else [0]"]) auto

lemma send_message_numbered:
  assumes "sendStateMessage L c tr w = (r, c', w')"
  shows "numbered L hdr (c, w) (c', w')"
proof (cases "writes_ok L hdr")
  case True
  show ?thesis
    using assms
  proof (cases rule: send_message_effect)
    case (stopped e c1 s1 w1 k c2 s2)
    note h = header_numbered [OF True stopped(1)]
    show ?thesis
      by (rule numbered_byI [where n = 0 and ds = "[]"])
         (use h stopped message_keeps(2) [OF stopped(2)] in simp_all)
  next
    case (short e c1 s1 w1 k c2 s2)
    note h = header_numbered [OF True short(1)]
    show ?thesis
      by (rule numbered_byI [where n = 1 and ds = "[]"])
         (use h short message_keeps(2) [OF short(2)] in \<open>simp_all add: nimbleClientCommitHeader_def\<close>)
  next
    case (sending e c1 s1 w1 k c2 s2)
    note h = header_numbered [OF True sending(1)]
    have "stream_ok s2 \<and> prefix (hdr (orderedDatagramOut c)) (outOctets s2)"
      using message_appends [OF True sending(2)] h(2) by blast
    then show ?thesis
      using datagrams_send [OF sending(6)] h sending(5) message_keeps(2) [OF sending(2)]
      by (intro numbered_byI [where n = 1 and ds = "[outOctets s2]"])
         (simp_all add: nimbleClientCommitHeader_def stream_ok_def)
  qed
qed (simp add: numbered_def)

lemma send_steps_numbered:
  assumes "nimbleClientSendStepsToServer L c tr w = (r, c', w')"
  shows "numbered L hdr (c, w) (c', w')"
proof (cases "writes_ok L hdr")
  case True
  show ?thesis
    using assms
  proof (cases rule: send_steps_effect)
    case (stopped e c1 s1 w1 k c2 s2)
    note h = header_numbered [OF True stopped(1)]
    show ?thesis
      by (rule numbered_byI [where n = 0 and ds = "[]"])
         (use h stopped steps_stream_keeps(2) [OF stopped(2)] in simp_all)
  next
    case (sending e c1 s1 w1 k c2 s2)
    note h = header_numbered [OF True sending(1)]
    have "stream_ok s2 \<and> prefix (hdr (orderedDatagramOut c)) (outOctets s2)"
      using steps_appends [OF True sending(2)] h(2) by blast
    then show ?thesis
      using datagrams_send [OF sending(5)] h sending(4) steps_stream_keeps(2) [OF sending(2)]
      by (intro numbered_byI [where n = 1 and ds = "[outOctets s2]"])
         (simp_all add: nimbleClientCommitHeader_def stream_ok_def)
  qed
qed (simp add: numbered_def)

interpretation numbered_receives: receive_contract L "numbered L hdr"
  for L :: "('x, 'w) nimble_lib" and hdr
proof (rule config.coarser)
  show "numbered L hdr s t" if "config_kept s t" for s t :: "'x NimbleClient \<times> 'w world"
    using that by (cases s; cases t) (auto simp: config_kept_def intro: numbered_same)
qed (rule numbered_trans)

interpretation numbered_updates: update_contract L "numbered L hdr"
  for L :: "('x, 'w) nimble_lib" and hdr
  by unfold_locales
     ((rule numbered_refl | erule (1) numbered_trans | erule send_message_numbered | erule send_steps_numbered
       | (rule numbered_same; simp))+)

text \<open>
  C9. Over any number of updates, whatever arrives meanwhile, the datagrams that the client sends
  carry the headers of the sequence logic after \<open>k\<close> commits, with strictly increasing \<open>k\<close>: no
  number is used for two datagrams and none goes backwards, whether sending works or fails. At
  most as many datagrams are sent as numbers are used up.
\<close>

theorem sequence_numbers_increase:
  assumes "writes_ok L hdr" "client_run L ts c w = Some (c', w')"
  shows "\<exists>n ks ds. orderedDatagramOut c' = (orderedDatagramOutLogicCommit L ^^ n) (orderedDatagramOut c)
    \<and> sorted_wrt (<) ks \<and> (\<forall>k \<in> set ks. k < n)
    \<and> datagrams w' = datagrams w @ ds \<and> length ds \<le> n
    \<and> list_all2 (\<lambda>k d. prefix (hdr ((orderedDatagramOutLogicCommit L ^^ k) (orderedDatagramOut c))) d) ks ds"
proof -
  obtain n ks ds where *: "orderedDatagramOut c' = (orderedDatagramOutLogicCommit L ^^ n) (orderedDatagramOut c)"
    "sorted_wrt (<) ks" "\<forall>k \<in> set ks. k < n" "datagrams w' = datagrams w @ ds"
    "list_all2 (\<lambda>k d. prefix (hdr ((orderedDatagramOutLogicCommit L ^^ k) (orderedDatagramOut c))) d) ks ds"
    using numbered_updates.run [OF assms(2), of hdr] assms(1) by (auto simp: numbered_def numbered_by_def)
  have "card (set ks) \<le> n" using *(3) card_mono [of "{..<n}" "set ks"] by (auto simp: subset_iff)
  moreover have "card (set ks) = length ks"
    using *(2) by (simp add: distinct_card strict_sorted_iff)
  ultimately have "length ds \<le> n" using list_all2_lengthD [OF *(5)] by simp
  with * show ?thesis by blast
qed

lemma sample_appends: "appends (\<lambda>s. sample_write s bs)"
proof -
  have "unat (outPos s + of_nat (length bs)) = unat (outPos s) + length bs"
    if "unat (outPos s) + length bs \<le> 1200" for s :: "octets FldOutStream"
  proof -
    have "unat (of_nat (length bs) :: size_t) = length bs" using that by (simp add: unat_of_nat)
    moreover have "unat (outPos s) + length bs < 2 ^ 64" using that by simp
    ultimately show ?thesis by (simp add: unat_word_ariths)
  qed
  then show ?thesis by (auto simp: appends_def stream_ok_def sample_write_def)
qed

lemma sample_writes_ok: "writes_ok sampleLib (\<lambda>x. [case x of [] \<Rightarrow> 0 | y # ys \<Rightarrow> y])"
proof -
  have "appends (\<lambda>s :: octets FldOutStream. s)" by (simp add: appends_def)
  then show ?thesis
    using sample_appends
    by (simp add: writes_ok_def sample_fields) (auto simp: sample_write_def stream_ok_def unat_eq_0)
qed

theorem sequence_numbers_increase_witness:
  "\<exists>c' w'. client_run sampleLib [16, 32, 48]
      (sample_client NimbleClientStateSynced NimbleJoiningStateJoiningParticipant 0 0)
      (sample_world [[1, 0, 50, 14, 7, 3]]) = Some (c', w')
    \<and> (\<exists>n. orderedDatagramOut c' = (orderedDatagramOutLogicCommit sampleLib ^^ n) [0])"
proof -
  let ?c = "sample_client NimbleClientStateSynced NimbleJoiningStateJoiningParticipant 0 0"
  have "client_ok ?c (heap (sample_world [[1, 0, 50, 14, 7, 3]]))"
    by (simp add: sample_client_ok game_state_ok_def)
  then obtain c' w' where run:
    "client_run sampleLib [16, 32, 48] ?c (sample_world [[1, 0, 50, 14, 7, 3]]) = Some (c', w')"
    using run_defined [OF sample_answers_ok sample_drains] by blast
  from sequence_numbers_increase [OF sample_writes_ok run] run show ?thesis
    by (auto simp: sample_client_def)
qed

text \<open>
  C36. A joined client leaves a gap in its sequence numbers on every tick: the steps are sent with
  one number, then a second header is committed for which no datagram is sent. The server
  receives datagrams whose numbers are two apart although none was lost.
\<close>

theorem joined_tick_skips_a_number:
  assumes "header_ok L" "state c = NimbleClientStateSynced"
    and "joinParticipantPhase c \<noteq> NimbleJoiningStateJoiningParticipant"
    and "deliverable L c (orderedDatagramOut c) (fst (monotonicTimeMsNow L (outside w))) Steps"
    and "\<forall>d n o'. 0 \<le> fst (transportSend L tr d n o')"
    and "nimbleClientOutgoing L c tr w = (r, c', w')"
  shows "(\<exists>d. datagrams w' = datagrams w @ [d])
    \<and> orderedDatagramOut c' =
        orderedDatagramOutLogicCommit L (orderedDatagramOutLogicCommit L (orderedDatagramOut c))"
proof -
  obtain k c2 w2 where st: "nimbleClientSendStepsToServer L c tr w = (k, c2, w2)"
    by (cases "nimbleClientSendStepsToServer L c tr w") auto
  note steps = steps_sent [OF st assms(1,4)]
  have "0 \<le> k" using steps(6) assms(5) by metis
  obtain e c1 w1 where sm: "sendStateMessage L c2 tr w2 = (e, c1, w1)"
    by (cases "sendStateMessage L c2 tr w2") auto
  note none = no_state_message [OF sm assms(1)]
  from assms(2,3,6) \<open>0 \<le> k\<close> none(1) steps(4,5) have "c' = c1\<lparr>frame := frame c1 + 1\<rparr>" "w' = w1"
    by (simp_all add: nimbleClientOutgoing_def handleState_def st sm)
  with none(2,3) steps(1,2,4,5) assms(2,3) show ?thesis by simp
qed

theorem joined_tick_skips_a_number_witness:
  "\<exists>r c' w'. nimbleClientOutgoing sampleLib
      (sample_client NimbleClientStateSynced NimbleJoiningStateJoinedParticipant 0 0) [] (sample_world [])
    = (r, c', w') \<and> orderedDatagramOut c' = [2]"
proof -
  let ?c = "sample_client NimbleClientStateSynced NimbleJoiningStateJoinedParticipant 0 0"
  obtain r c' w' where run: "nimbleClientOutgoing sampleLib ?c [] (sample_world []) = (r, c', w')"
    by (cases "nimbleClientOutgoing sampleLib ?c [] (sample_world [])") auto
  from joined_tick_skips_a_number [OF sample_header_ok _ _ sample_deliverable(1) _ run] run show ?thesis
    by (simp add: sample_client_def sample_fields)
qed

section \<open>The header's assertion\<close>

lemma failed_header:
  assumes "nimbleClientWriteHeader L c s w = (e, c1, s1, w1)"
  shows "failed_assertions w1 =
    (if remoteConnectionId c = 0 then [AssertFailed ''must have a valid remote conneciton ID''] else [])
      @ failed_assertions w"
  using header_effect(4) [OF assms] by (simp add: failed_assertions_def)

lemma failed_send: "transport_send L tr d n w = (r, w') \<Longrightarrow> failed_assertions w' = failed_assertions w"
  using transport_send_frame(2) [of L tr d n w r w'] by (simp add: failed_assertions_def)

lemma failed_state_message:
  assumes "sendStateMessage L c tr w = (r, c', w')"
  shows "failed_assertions w' =
    (if remoteConnectionId c = 0 then [AssertFailed ''must have a valid remote conneciton ID''] else [])
      @ failed_assertions w"
  using assms by (cases rule: send_message_effect) (simp_all add: failed_header failed_send)

lemma failed_steps:
  assumes "nimbleClientSendStepsToServer L c tr w = (r, c', w')"
  shows "failed_assertions w' =
    (if remoteConnectionId c = 0 then [AssertFailed ''must have a valid remote conneciton ID''] else [])
      @ failed_assertions w"
  using assms by (cases rule: send_steps_effect) (simp_all add: failed_header failed_send)

text \<open>
  Exactly the clients without a connection id fail the assertion of the header: sending in a
  state that sends fails it if and only if the connection id is 0. The connect request, the only
  message that a client can send before the server has assigned it an id, is among them.
\<close>

theorem header_assertion_fails_iff_no_id:
  assumes "nimbleClientOutgoing L c tr w = (r, c', w')"
  shows "\<exists>k. failed_assertions w' =
      replicate k (AssertFailed ''must have a valid remote conneciton ID'') @ failed_assertions w
    \<and> (0 < k \<longleftrightarrow> remoteConnectionId c = 0 \<and> messages_due (state c) (joinParticipantPhase c) \<noteq> [])"
proof -
  let ?A = "AssertFailed ''must have a valid remote conneciton ID''"
  obtain e c1 w1 where hs: "handleState L c tr w = (e, c1, w1)" by (cases "handleState L c tr w") auto
  then have w': "w' = w1" using assms by (simp add: nimbleClientOutgoing_def split: if_splits)
  have due: "messages_due (state c) (joinParticipantPhase c) = [] \<longleftrightarrow> state c \<in>
      {NimbleClientStateIdle, NimbleClientStateConnected, NimbleClientStateDisconnected}"
    by (cases "state c"; cases "joinParticipantPhase c") simp_all
  show ?thesis
  proof (cases "state c = NimbleClientStateSynced")
    case True
    obtain k c2 w2 where st: "nimbleClientSendStepsToServer L c tr w = (k, c2, w2)"
      by (cases "nimbleClientSendStepsToServer L c tr w") auto
    have id: "remoteConnectionId c2 = remoteConnectionId c"
      using out_frame.send_steps [OF st] by (simp add: sending_kept_def)
    have "failed_assertions w1 = failed_assertions w2
      \<or> failed_assertions w1 = (if remoteConnectionId c = 0 then [?A] else []) @ failed_assertions w2"
      using hs True failed_state_message [of L c2 tr w2 e c1 w1] id
      by (cases "k < 0") (simp_all add: handleState_def st)
    then show ?thesis
      using failed_steps [OF st] due True
      by (intro exI [of _ "if remoteConnectionId c = 0
            then length (failed_assertions w1) - length (failed_assertions w) else 0"])
         (auto simp: w' numeral_2_eq_2)
  next
    case False
    then have "failed_assertions w1 =
        (if remoteConnectionId c = 0 \<and> messages_due (state c) (joinParticipantPhase c) \<noteq> [] then [?A] else [])
          @ failed_assertions w"
      using hs due failed_state_message [of L c tr w e c1 w1] by (auto simp: handleState_def split: if_splits)
    then show ?thesis
      by (intro exI [of _ "if remoteConnectionId c = 0 \<and> messages_due (state c) (joinParticipantPhase c) \<noteq> []
            then 1 else 0"]) (auto simp: w')
  qed
qed

theorem header_assertion_fails_iff_no_id_witness:
  "\<exists>r c' w'. nimbleClientOutgoing sampleLib
      (sample_client NimbleClientStateRequestingConnect NimbleJoiningStateJoiningParticipant 0 0) []
      (sample_world []) = (r, c', w') \<and> failed_assertions w' \<noteq> []"
proof -
  let ?c = "sample_client NimbleClientStateRequestingConnect NimbleJoiningStateJoiningParticipant 0 0"
  obtain r c' w' where run: "nimbleClientOutgoing sampleLib ?c [] (sample_world []) = (r, c', w')"
    by (cases "nimbleClientOutgoing sampleLib ?c [] (sample_world [])") auto
  from header_assertion_fails_iff_no_id [OF run] run show ?thesis by (auto simp: sample_client_def)
qed

end
