(* ===== verification/UpdateProperties.thy ===== *)
theory UpdateProperties
  imports OutgoingProperties
begin

text \<open>
  Properties of whole updates: they return, keep the invariant and follow the state machine; a
  silent server, a running wait, a disconnected client and a failed receive each have the effect
  on what is sent that the code means them to have.
\<close>

section \<open>Safety of any number of updates\<close>

lemma update_steps_table:
  "update_step\<^sup>*\<^sup>* s t \<Longrightarrow>
     t = s \<or> (s \<noteq> NimbleClientStateDisconnected
       \<and> (t \<in> {NimbleClientStateJoiningDownloadingState, NimbleClientStateSynced, NimbleClientStateDisconnected}
          \<or> s = NimbleClientStateRequestingConnect \<and> t = NimbleClientStateConnected))"
proof (induction rule: rtranclp_induct)
  case (step t u)
  from step(2) show ?case
    using step(3) by (auto simp: update_step_iff server_step_iff)
qed simp

text \<open>
  C2. Updating is total and safe: from a client that satisfies its invariant, over any number of
  updates and whatever octets the server sends, every update returns without undefined behaviour
  and the invariant holds again; the state only ever goes from RequestingConnect to Connected, or
  to downloading, synced or disconnected, and a disconnected client stays disconnected. An update
  never makes a client idle or asks for a connection or a state on its own.
\<close>

theorem updates_total_and_safe:
  assumes "client_ok c (heap w)" "answers_ok L" "drains L m"
  shows "\<exists>c' w'. client_run L ts c w = Some (c', w') \<and> client_ok c' (heap w')
    \<and> (state c' = state c \<or> (state c \<noteq> NimbleClientStateDisconnected
        \<and> (state c' \<in> {NimbleClientStateJoiningDownloadingState, NimbleClientStateSynced,
              NimbleClientStateDisconnected}
           \<or> state c = NimbleClientStateRequestingConnect \<and> state c' = NimbleClientStateConnected)))"
proof -
  obtain c' w' where run: "client_run L ts c w = Some (c', w')" "client_ok c' (heap w')"
    using run_defined [OF assms(2,3,1)] by blast
  from update_steps_table steps_updates.run [OF run(1)] run(2) show ?thesis
    unfolding update_steps_def run(1) by fastforce
qed

theorem updates_total_and_safe_witness:
  "\<exists>c' w'. client_run sampleLib [16, 32, 48]
      (sample_client NimbleClientStateSynced NimbleJoiningStateJoiningParticipant 0 0)
      (sample_world [[1, 0, 50, 14, 7, 3], [9]]) = Some (c', w') \<and> client_ok c' (heap w')"
  using updates_total_and_safe [of
      "sample_client NimbleClientStateSynced NimbleJoiningStateJoiningParticipant 0 0"
      "sample_world [[1, 0, 50, 14, 7, 3], [9]]", OF _ sample_answers_ok sample_drains,
      of "[16, 32, 48]"]
  by (auto simp: sample_client_ok game_state_ok_def simp del: client_run.simps)

section \<open>A disconnected client\<close>

definition disconnected_rests ::
    "'x NimbleClient \<times> 'w world \<Rightarrow> 'x NimbleClient \<times> 'w world \<Rightarrow> bool" where
  "disconnected_rests s t \<longleftrightarrow>
     (state (fst s) = NimbleClientStateDisconnected \<longrightarrow>
        state (fst t) = NimbleClientStateDisconnected
        \<and> joinedGameState (fst t) = joinedGameState (fst s)
        \<and> localParticipantLookup (fst t) = localParticipantLookup (fst s)
        \<and> heap (snd t) = heap (snd s) \<and> datagrams (snd t) = datagrams (snd s))"

lemma rests_trans: "disconnected_rests s t \<Longrightarrow> disconnected_rests t u \<Longrightarrow> disconnected_rests s u"
  by (auto simp: disconnected_rests_def)

lemma feed_disconnected:
  assumes "nimbleClientFeed L c d n w = Some (r, c', w')" "state c = NimbleClientStateDisconnected"
  shows "c' = c \<and> w' = w"
  using assms by (cases rule: feed_effect) auto

lemma receive_disconnected:
  assumes "receiveDatagrams L count c w = Some z"
  shows "disconnected_rests (c, w) (snd z)"
  using assms
proof (induction rule: receive_induct)
  case (finish count c w k b w1)
  then show ?case
    by (auto simp: disconnected_rests_def datagrams_def dest: transport_receive_frame)
next
  case (refuse c w k b w1 e c2 w2)
  then show ?case
    using feed_disconnected [OF refuse(3)] transport_receive_frame [OF refuse(1)]
    by (auto simp: disconnected_rests_def datagrams_def count_in_def split: if_splits)
next
  case (continue c w k b w1 e c2 w2 z)
  then show ?case
    using feed_disconnected [OF continue(3)] transport_receive_frame [OF continue(1)]
    by (auto simp: disconnected_rests_def datagrams_def count_in_def split: if_splits)
qed

lemma update_disconnected:
  assumes "nimbleClientUpdate L c now w = Some (r, c', w')" "state c = NimbleClientStateDisconnected"
  shows "disconnected_rests (c, w) (c', w')"
proof -
  let ?c0 = "checkTickInterval L (c\<lparr>loggingTickCount := loggingTickCount c + 1\<rparr>) now"
  from assms(1) obtain k c1 w1
    where rc: "receiveDatagrams L 0 ?c0 w = Some (k, c1, w1)"
    by (auto simp: nimbleClientUpdate_def nimbleClientReceiveAllDatagramsFromTransport_def Let_def)
  have rests: "disconnected_rests (c, w) (c1, w1)"
    using receive_disconnected [OF rc] assms(2) by (simp add: disconnected_rests_def)
  then have "state c1 = NimbleClientStateDisconnected" using assms(2) by (simp add: disconnected_rests_def)
  then have "disconnected_rests (c1, w1) (c', w')"
    using assms(1) rc
    by (cases "k < 0"; cases "0 < waitTime c1")
       (auto simp: nimbleClientUpdate_def nimbleClientReceiveAllDatagramsFromTransport_def
         updateAfterReceive_def disconnected_rests_def checkIfDisconnectIsNeeded_def sendPackets_def
         nimbleClientConnectionQualityUpdate_def showStats_def calcStats_def Let_def)
  with rests show ?thesis by (rule rests_trans)
qed

text \<open>
  C21. Disconnected is final and silent: over any number of updates, whatever arrives, a
  disconnected client stays disconnected, sends no datagram, and keeps its game state, its
  participants and the heap as they are.
\<close>

theorem disconnected_client_rests:
  assumes "client_run L ts c w = Some (c', w')" "state c = NimbleClientStateDisconnected"
  shows "state c' = NimbleClientStateDisconnected \<and> datagrams w' = datagrams w \<and> heap w' = heap w
    \<and> joinedGameState c' = joinedGameState c \<and> localParticipantLookup c' = localParticipantLookup c"
proof -
  have "disconnected_rests (c, w) (c', w')" using assms
  proof (induction ts arbitrary: c w)
    case (Cons t ts)
    then obtain r c1 w1 where u: "nimbleClientUpdate L c t w = Some (r, c1, w1)"
      and run: "client_run L ts c1 w1 = Some (c', w')" by auto
    from update_disconnected [OF u Cons.prems(2)] Cons.prems(2)
    have "state c1 = NimbleClientStateDisconnected" by (simp add: disconnected_rests_def)
    from rests_trans [OF update_disconnected [OF u Cons.prems(2)] Cons.IH [OF run this]] show ?case .
  qed (simp add: disconnected_rests_def)
  with assms(2) show ?thesis by (simp add: disconnected_rests_def)
qed

theorem disconnected_client_rests_witness:
  "\<exists>c' w'. client_run sampleLib [16, 32]
      (sample_client NimbleClientStateDisconnected NimbleJoiningStateJoiningParticipant 0 0)
      (sample_world [[1, 0, 50, 14, 7, 3]]) = Some (c', w') \<and> datagrams w' = []"
proof -
  let ?c = "sample_client NimbleClientStateDisconnected NimbleJoiningStateJoiningParticipant 0 0"
  have "client_ok ?c (heap (sample_world [[1, 0, 50, 14, 7, 3]]))"
    by (simp add: sample_client_ok game_state_ok_def)
  then obtain c' w' where run: "client_run sampleLib [16, 32] ?c (sample_world [[1, 0, 50, 14, 7, 3]]) = Some (c', w')"
    using run_defined [OF sample_answers_ok sample_drains] by blast
  have "datagrams (sample_world [[1, 0, 50, 14, 7, 3]]) = []" by (simp add: datagrams_def sample_world_def)
  with disconnected_client_rests [OF run] run show ?thesis by (simp add: sample_client_def)
qed

section \<open>A failed receive\<close>

text \<open>
  C28. A failed receive ends the update at once: when receiving returns a negative code, for
  instance because of one stale datagram, the update returns it and sends nothing; the connection
  watchdog does not count the tick, no wait runs down, and the client cannot give up in that
  update.
\<close>

theorem failed_receive_ends_update:
  assumes "nimbleClientReceiveAllDatagramsFromTransport L
      (checkTickInterval L (c\<lparr>loggingTickCount := loggingTickCount c + 1\<rparr>) now) w = Some (k, c1, w1)"
    and "k < 0"
  shows "nimbleClientUpdate L c now w = Some (wrap_s32 k, c1, w1)
    \<and> datagrams w1 = datagrams w \<and> orderedDatagramOut c1 = orderedDatagramOut c
    \<and> consideringDisconnectCounter (quality c1) = consideringDisconnectCounter (quality c)
    \<and> reason (quality c1) = reason (quality c)
    \<and> (state c1 = NimbleClientStateDisconnected \<longleftrightarrow> state c = NimbleClientStateDisconnected)"
proof -
  have "server_step\<^sup>*\<^sup>* s t \<Longrightarrow> t = NimbleClientStateDisconnected \<longleftrightarrow> s = NimbleClientStateDisconnected" for s t
    by (induction rule: rtranclp_induct) (auto simp: server_step_iff)
  then show ?thesis
    using assms config.receive_all [OF assms(1)] server.receive_all [OF assms(1)]
    by (simp add: nimbleClientUpdate_def config_kept_def server_steps_def datagrams_eq_sent Let_def)
qed

theorem failed_receive_ends_update_witness:
  "\<exists>c1 w1. nimbleClientUpdate sampleLib
      (sample_client NimbleClientStateSynced NimbleJoiningStateJoiningParticipant 0 0) 16
      (sample_world [[0, 0, 50, 13]]) = Some (-91, c1, w1)
    \<and> datagrams w1 = []"
proof -
  let ?c = "sample_client NimbleClientStateSynced NimbleJoiningStateJoiningParticipant 0 0"
  let ?c0 = "checkTickInterval sampleLib (?c\<lparr>loggingTickCount := loggingTickCount ?c + 1\<rparr>) 16"
  have c0: "orderedDatagramIn ?c = [0]" "state ?c = NimbleClientStateSynced"
    by (simp_all add: sample_client_def)
  have feed: "nimbleClientFeed sampleLib c [0, 0, 50, 13] 4 w = Some (-91, c\<lparr>orderedDatagramIn := [0]\<rparr>, w)"
    if "orderedDatagramIn c = [0]" "state c = NimbleClientStateSynced" for c and w :: "sample_world world"
    using that
    by (simp add: nimbleClientFeed_def readAndCheckOrderedDatagram_def sample_ordered_receive_def
        sample_read8_def sample_fields Let_def)
  have rt: "transport_receive sampleLib tr n (sample_world [[0, 0, 50, 13]]) = (4, [0, 0, 50, 13], sample_world [])"
    for tr n by (simp add: transport_receive_def sample_fields sample_receive_def sample_world_def)
  have "\<exists>c1 w1. receiveDatagrams sampleLib 0 ?c0 (sample_world [[0, 0, 50, 13]]) = Some (-91, c1, w1)"
    using c0 by (subst receiveDatagrams.simps) (simp add: rt feed size_of_int_def)
  then obtain c1 w1 where rc: "nimbleClientReceiveAllDatagramsFromTransport sampleLib ?c0
      (sample_world [[0, 0, 50, 13]]) = Some (-91, c1, w1)"
    by (auto simp: nimbleClientReceiveAllDatagramsFromTransport_def)
  have "datagrams (sample_world [[0, 0, 50, 13]]) = []" by (simp add: datagrams_def sample_world_def)
  with failed_receive_ends_update [OF rc] show ?thesis by simp
qed

section \<open>A silent server\<close>

text \<open>
  A set of worlds in which nothing arrives, now or later: the clock and sending keep the world in
  it, and receiving finds nothing.
\<close>

definition closed_world :: "('x, 'w) nimble_lib \<Rightarrow> ('w \<Rightarrow> bool) \<Rightarrow> bool" where
  "closed_world L Q \<longleftrightarrow>
     (\<forall>x. Q x \<longrightarrow> Q (snd (monotonicTimeMsNow L x)))
     \<and> (\<forall>tr d n x. Q x \<longrightarrow> Q (snd (transportSend L tr d n x)))"

definition silent_world :: "('x, 'w) nimble_lib \<Rightarrow> ('w \<Rightarrow> bool) \<Rightarrow> bool" where
  "silent_world L Q \<longleftrightarrow> closed_world L Q
     \<and> (\<forall>tr n x. Q x \<longrightarrow> fst (datagramTransportReceive L tr n x) = 0
                      \<and> Q (snd (snd (datagramTransportReceive L tr n x))))"

definition world_kept ::
    "('x, 'w) nimble_lib \<Rightarrow> ('w \<Rightarrow> bool) \<Rightarrow> 'x NimbleClient \<times> 'w world \<Rightarrow> 'x NimbleClient \<times> 'w world \<Rightarrow> bool" where
  "world_kept L Q s t \<longleftrightarrow> (closed_world L Q \<longrightarrow> Q (outside (snd s)) \<longrightarrow> Q (outside (snd t)))"

lemma closed_header:
  "closed_world L Q \<Longrightarrow> Q (outside w) \<Longrightarrow> nimbleClientWriteHeader L c s w = (e, c1, s1, w1) \<Longrightarrow> Q (outside w1)"
  using header_effect(6) [of L c s w e c1 s1 w1] by (simp add: closed_world_def)

lemma closed_send:
  "closed_world L Q \<Longrightarrow> Q (outside w) \<Longrightarrow> transport_send L tr d n w = (r, w') \<Longrightarrow> Q (outside w')"
  unfolding closed_world_def by (auto simp: transport_send_def split: prod.splits) (metis snd_conv)

interpretation world_sends: outgoing_contract L "world_kept L Q"
  for L :: "('x, 'w) nimble_lib" and Q
proof (unfold_locales, goal_cases)
  case (3 c tr w r c' w')
  then show ?case
    by (cases rule: send_message_effect) (auto simp: world_kept_def dest: closed_header closed_send)
next
  case (4 c tr w r c' w')
  then show ?case
    by (cases rule: send_steps_effect) (auto simp: world_kept_def dest: closed_header closed_send)
qed (auto simp: world_kept_def)

text \<open>An update in a silent world: only the tick bookkeeping, the judging and the sending.\<close>

definition ticked :: "('x, 'w) nimble_lib \<Rightarrow> 'x NimbleClient \<Rightarrow> int \<Rightarrow> 'x NimbleClient" where
  "ticked L c now = checkTickInterval L (c\<lparr>loggingTickCount := loggingTickCount c + 1\<rparr>) now"

definition judged :: "('x, 'w) nimble_lib \<Rightarrow> 'x NimbleClient \<Rightarrow> 'x NimbleClient" where
  "judged L c = checkIfDisconnectIsNeeded
     (c\<lparr>quality := nimbleClientConnectionQualityUpdate L (state c) (quality c)\<rparr>)"

lemma silent_update:
  assumes "silent_world L Q" "Q (outside w)"
  obtains w1 where "nimbleClientUpdate L c now w = Some (updateAfterReceive L (ticked L c now) now 0 w1)"
    and "Q (outside w1)" "heap w1 = heap w" "trace w1 = trace w"
proof -
  let ?n = "DATAGRAM_TRANSPORT_MAX_SIZE L" and ?tr = "transport (ticked L c now)"
  obtain k b o' where r: "datagramTransportReceive L ?tr ?n (outside w) = (k, b, o')"
    by (cases "datagramTransportReceive L ?tr ?n (outside w)") auto
  then have "k = 0" "Q o'" using assms by (auto simp: silent_world_def) (metis fst_conv snd_conv)+
  then have "receiveDatagrams L 0 (ticked L c now) w = Some (0, ticked L c now, w\<lparr>outside := o'\<rparr>)"
    by (subst receiveDatagrams.simps) (simp add: transport_receive_def r int_of_size_def)
  then have "nimbleClientUpdate L c now w =
      Some (updateAfterReceive L (ticked L c now) now 0 (w\<lparr>outside := o'\<rparr>))"
    by (simp add: nimbleClientUpdate_def nimbleClientReceiveAllDatagramsFromTransport_def ticked_def Let_def)
  with that \<open>Q o'\<close> show thesis by simp
qed

lemma ticked_fields [simp]:
  "state (ticked L c now) = state c" "joinParticipantPhase (ticked L c now) = joinParticipantPhase c"
  "waitTime (ticked L c now) = waitTime c" "transport (ticked L c now) = transport c"
  "quality (ticked L c now) = quality c" "orderedDatagramOut (ticked L c now) = orderedDatagramOut c"
  by (simp_all add: ticked_def)

lemma judged_fields [simp]:
  "joinParticipantPhase (judged L c) = joinParticipantPhase c" "waitTime (judged L c) = waitTime c"
  "transport (judged L c) = transport c"
  "quality (judged L c) = nimbleClientConnectionQualityUpdate L (state c) (quality c)"
  "state (judged L c) =
     (if state c = NimbleClientStateSynced
         \<and> nimbleClientConnectionQualityShouldDisconnect
              (nimbleClientConnectionQualityUpdate L NimbleClientStateSynced (quality c))
      then NimbleClientStateDisconnected else state c)"
  by (simp_all add: judged_def checkIfDisconnectIsNeeded_def)

text \<open>What the part after receiving does: either it waits, or it sends from the judged client.\<close>

lemma after_receive_waits:
  "0 < waitTime c \<Longrightarrow> updateAfterReceive L c now k w =
     (0, (judged L c)\<lparr>waitTime := waitTime c - 1\<rparr>, w)"
  by (simp add: updateAfterReceive_def judged_def Let_def)

lemma after_receive_sends:
  assumes "\<not> 0 < waitTime c"
    and "sendPackets L (showStats (calcStats L (judged L c) now)) w = (e, c', w')"
  shows "updateAfterReceive L c now k w = (wrap_s32 k, c', w')"
  using assms by (simp add: updateAfterReceive_def judged_def Let_def)

lemma send_packets_keeps:
  assumes "sendPackets L c w = (e, c', w')"
  shows "sending_kept (c, w) (c', w')" "world_kept L Q (c, w) (c', w')"
proof -
  obtain r c1 w1 where o: "nimbleClientOutgoing L c (transport c) w = (r, c1, w1)"
    by (cases "nimbleClientOutgoing L c (transport c) w") auto
  show "sending_kept (c, w) (c', w')" "world_kept L Q (c, w) (c', w')"
    using assms out_frame.outgoing [OF o] world_sends.outgoing [OF o, of Q] out_frame.refl world_sends.refl
    by (auto simp: sendPackets_def o Let_def split: if_splits)
qed

lemma silent_update_keeps:
  assumes "silent_world L Q" "Q (outside w)"
  obtains r c' w' where "nimbleClientUpdate L c now w = Some (r, c', w')"
    and "Q (outside w')" "heap w' = heap w"
    and "state c' = state (judged L c)" "joinParticipantPhase c' = joinParticipantPhase c"
    and "transport c' = transport c"
    and "quality c' = nimbleClientConnectionQualityUpdate L (state c) (quality c)"
proof -
  from silent_update [OF assms] obtain w1
    where u: "nimbleClientUpdate L c now w = Some (updateAfterReceive L (ticked L c now) now 0 w1)"
      and w1: "Q (outside w1)" "heap w1 = heap w" "trace w1 = trace w" by blast
  show thesis
  proof (cases "0 < waitTime c")
    case True
    with u w1 show thesis
      by (intro that [where r = 0 and w' = w1
            and c' = "(judged L (ticked L c now))\<lparr>waitTime := waitTime c - 1\<rparr>"])
         (simp_all add: after_receive_waits)
  next
    case False
    obtain e c' w' where s: "sendPackets L (showStats (calcStats L (judged L (ticked L c now)) now)) w1 = (e, c', w')"
      by (cases "sendPackets L (showStats (calcStats L (judged L (ticked L c now)) now)) w1") auto
    from send_packets_keeps(1) [OF s] send_packets_keeps(2) [OF s, of Q] assms(1) w1 have "Q (outside w')" "heap w' = heap w"
      by (simp_all add: world_kept_def silent_world_def sending_kept_def)
    with send_packets_keeps(1) [OF s] u False show thesis
      by (intro that [where c' = c' and w' = w'])
         (simp_all add: after_receive_sends [OF _ s] sending_kept_def)
  qed
qed

text \<open>
  C6. A synced client notices that the server is gone: when the connection quality starts fresh
  and nothing arrives any more, then over any number of updates, at whatever times and whatever
  the client sends meanwhile, it stays synced for exactly 75 updates and is disconnected from the
  76th on.
\<close>

theorem silent_server_is_noticed:
  assumes "silent_world L Q" "Q (outside w)"
    and "state c = NimbleClientStateSynced" "watch_of (quality c) = fresh_watch"
    and "length ts < 18446744073709551615"
  shows "\<exists>c' w'. client_run L ts c w = Some (c', w')
    \<and> state c' = (if length ts < 76 then NimbleClientStateSynced else NimbleClientStateDisconnected)"
proof -
  have "\<exists>c' w'. client_run L ts c w = Some (c', w') \<and> Q (outside w')
      \<and> (state c' = NimbleClientStateSynced \<longleftrightarrow> length ts < 76)
      \<and> (state c' = NimbleClientStateSynced \<longrightarrow> watch_of (quality c') = (watch_tick ^^ length ts) fresh_watch)
      \<and> state c' \<in> {NimbleClientStateSynced, NimbleClientStateDisconnected}"
    using assms(5)
  proof (induction ts rule: rev_induct)
    case Nil
    then show ?case using assms by simp
  next
    case (snoc t ts)
    then obtain c1 w1 where run: "client_run L ts c w = Some (c1, w1)" and Q1: "Q (outside w1)"
      and c1: "state c1 = NimbleClientStateSynced \<longleftrightarrow> length ts < 76"
        "state c1 = NimbleClientStateSynced \<Longrightarrow> watch_of (quality c1) = (watch_tick ^^ length ts) fresh_watch"
        "state c1 \<in> {NimbleClientStateSynced, NimbleClientStateDisconnected}" by auto
    from silent_update_keeps [OF assms(1) Q1, of c1 t] obtain r c2 w2
      where u: "nimbleClientUpdate L c1 t w1 = Some (r, c2, w2)" "Q (outside w2)"
        and c2: "state c2 = state (judged L c1)"
          "quality c2 = nimbleClientConnectionQualityUpdate L (state c1) (quality c1)" by blast
    have run2: "client_run L (ts @ [t]) c w = Some (c2, w2)"
      by (simp add: client_run_append run u(1))
    have "state c2 = NimbleClientStateSynced \<longleftrightarrow> length (ts @ [t]) < 76"
      "state c2 = NimbleClientStateSynced \<Longrightarrow> watch_of (quality c2) = (watch_tick ^^ length (ts @ [t])) fresh_watch"
      "state c2 \<in> {NimbleClientStateSynced, NimbleClientStateDisconnected}"
      using c1 c2 silent_run [of "Suc (length ts)"] snoc.prems
      by (auto simp: should_disconnect_watch watch_of_update split: if_splits)
    with run2 u(2) show ?case by blast
  qed
  then show ?thesis by fastforce
qed

lemma sample_silent: "silent_world sampleLib (\<lambda>(ds, t, p). ds = [])"
  by (auto simp: silent_world_def closed_world_def sample_fields sample_receive_def)

theorem silent_server_is_noticed_witness:
  "\<exists>c' w'. client_run sampleLib (replicate 80 16)
      ((sample_client NimbleClientStateSynced NimbleJoiningStateJoinedParticipant 0 0)
        \<lparr>quality := nimbleClientConnectionQualityReset sampleLib sample_quality\<rparr>) (sample_world []) = Some (c', w')
    \<and> state c' = NimbleClientStateDisconnected"
  using silent_server_is_noticed [OF sample_silent, where ts = "replicate 80 16" and w = "sample_world []"
      and c = "(sample_client NimbleClientStateSynced NimbleJoiningStateJoinedParticipant 0 0)
        \<lparr>quality := nimbleClientConnectionQualityReset sampleLib sample_quality\<rparr>"]
  by (simp add: sample_world_def sample_client_def watch_of_reset)

section \<open>The pace of the requests\<close>

text \<open>The two states that repeat a request until it is answered.\<close>

fun request_of :: "NimbleClientState \<Rightarrow> message option" where
  "request_of NimbleClientStateRequestingConnect = Some ConnectRequest"
| "request_of NimbleClientStateJoiningRequestingState = Some DownloadStateRequest"
| "request_of st = None"

lemma request_due: "request_of (state c) = Some m \<Longrightarrow> messages_due (state c) p = [] @ [m] \<and> m \<noteq> Steps"
  by (cases "state c") auto

lemma request_waits:
  assumes "sendMessageUsingStream L c s = (k, c', s')" "request_of (state c) = Some m"
  shows "waitTime c' = 4"
  using assms
  by (cases "state c")
     (auto simp: sendMessageUsingStream_def sendConnectRequest_def sendStartDownloadStateRequest_def Let_def)

lemma request_sent:
  assumes "sendPackets L c w = (e, c', w')" "request_of (state c) = Some m" "header_ok L"
    and "\<And>x now. deliverable L c x now m"
  shows "waitTime c' = 4" "\<exists>d. datagrams w' = datagrams w @ [d]"
proof -
  have st: "state c \<notin> {NimbleClientStateIdle, NimbleClientStateConnected, NimbleClientStateDisconnected}"
    "state c \<noteq> NimbleClientStateSynced"
    using assms(2) by (cases "state c"; simp)+
  obtain r c1 w1 where sm: "sendStateMessage L c (transport c) w = (r, c1, w1)"
    by (cases "sendStateMessage L c (transport c) w") auto
  have wait: "waitTime c1 = 4"
    using sm
  proof (cases rule: send_message_effect)
    case (stopped e c1 s1 w1 k c2 s2)
    with request_waits [OF stopped(2)] header_fields(1) [OF assms(3) stopped(1)] assms(2) show ?thesis by simp
  next
    case (short e c1 s1 w1 k c2 s2)
    with request_waits [OF short(2)] header_fields(1) [OF assms(3) short(1)] assms(2)
    show ?thesis by (simp add: nimbleClientCommitHeader_def)
  next
    case (sending e c1 s1 w1 k c2 s2)
    with request_waits [OF sending(2)] header_fields(1) [OF assms(3) sending(1)] assms(2)
    show ?thesis by (simp add: nimbleClientCommitHeader_def)
  qed
  from request_due [OF assms(2)] have due:
    "messages_due (state c) (joinParticipantPhase c) = [] @ [m]" "m \<noteq> Steps" by blast+
  from state_message_sent [OF sm assms(3) due assms(4)]
  have "\<exists>d. datagrams w1 = datagrams w @ [d]" by blast
  moreover have "w' = w1 \<and> waitTime c' = waitTime c1"
    using assms(1) st by (cases "r < 0") (auto simp: sendPackets_def nimbleClientOutgoing_def handleState_def sm)
  ultimately show "waitTime c' = 4" "\<exists>d. datagrams w' = datagrams w @ [d]" using wait by simp_all
qed

lemma silent_request_update:
  assumes "silent_world L Q" "Q (outside w)" "request_of (state c) = Some m" "header_ok L"
    and "\<And>c x now. deliverable L c x now m" "0 \<le> waitTime c"
  shows "\<exists>r c' w'. nimbleClientUpdate L c now w = Some (r, c', w') \<and> Q (outside w') \<and> state c' = state c
    \<and> (if waitTime c = 0 then waitTime c' = 4 \<and> length (datagrams w') = Suc (length (datagrams w))
       else waitTime c' = waitTime c - 1 \<and> datagrams w' = datagrams w)"
proof -
  from assms(3) have st: "state c \<noteq> NimbleClientStateSynced" by auto
  from silent_update [OF assms(1,2)] obtain w1
    where u: "nimbleClientUpdate L c now w = Some (updateAfterReceive L (ticked L c now) now 0 w1)"
      and w1: "Q (outside w1)" "trace w1 = trace w" by blast
  have same: "datagrams w1 = datagrams w" using w1(2) by (simp add: datagrams_def)
  let ?c1 = "showStats (calcStats L (judged L (ticked L c now)) now)"
  show ?thesis
  proof (cases "waitTime c = 0")
    case False
    with u w1 st same assms(6) show ?thesis by (simp add: after_receive_waits)
  next
    case True
    obtain e c' w' where s: "sendPackets L ?c1 w1 = (e, c', w')" by (cases "sendPackets L ?c1 w1") auto
    have req: "request_of (state ?c1) = Some m" using assms(3) st by simp
    from request_sent [OF s req assms(4,5)] same have "waitTime c' = 4"
      "length (datagrams w') = Suc (length (datagrams w))" by auto
    moreover from send_packets_keeps(1) [OF s] send_packets_keeps(2) [OF s, of Q] assms(1) w1 st
    have "state c' = state c" "Q (outside w')"
      by (simp_all add: sending_kept_def world_kept_def silent_world_def)
    ultimately show ?thesis using u True by (simp add: after_receive_sends [OF _ s])
  qed
qed

lemma pace_start:
  assumes "n mod 5 = 0"
  shows "Suc n mod 5 = 1" "(Suc n + 4) div 5 = Suc ((n + 4) div 5)"
proof -
  define q where "q = n div 5"
  have "n = 5 * q" using assms by (simp add: q_def mult_div_mod_eq [symmetric] mod_eq_0_iff_dvd)
  then show "Suc n mod 5 = 1" "(Suc n + 4) div 5 = Suc ((n + 4) div 5)" by simp_all
qed

lemma pace_step:
  assumes "n mod 5 \<noteq> 0"
  shows "0 < (5 - n mod 5) mod (5 :: nat)" "(Suc n + 4) div 5 = (n + 4) div 5"
    and "int ((5 - Suc n mod 5) mod 5) = int ((5 - n mod 5) mod 5) - 1"
proof -
  have "n mod 5 < 5" by simp
  with assms have m: "n mod 5 \<in> {1, 2, 3, 4}" by (auto simp del: mod_less_divisor)
  show "0 < (5 - n mod 5) mod (5 :: nat)" using m by auto
  show "(Suc n + 4) div 5 = (n + 4) div 5" using assms by presburger
  show "int ((5 - Suc n mod 5) mod 5) = int ((5 - n mod 5) mod 5) - 1"
    using m by (auto simp: mod_Suc)
qed

text \<open>
  C19. An unanswered request is repeated every fifth update, for ever: while the client asks for a
  connection or for the game state and nothing arrives, it sends the request in the first update
  and in every fifth one after it and nothing in between, \<open>(n + 4) div 5\<close> datagrams in \<open>n\<close>
  updates, and never gives up asking.
\<close>

theorem requests_are_paced:
  assumes "silent_world L Q" "Q (outside w)" "request_of (state c) = Some m" "waitTime c = 0"
    and "header_ok L" "\<forall>c x now. deliverable L c x now m"
  shows "\<exists>c' w'. client_run L ts c w = Some (c', w') \<and> state c' = state c
    \<and> length (datagrams w') = length (datagrams w) + (length ts + 4) div 5"
proof -
  note del = assms(6) [rule_format]
  have "\<exists>c' w'. client_run L ts c w = Some (c', w') \<and> Q (outside w') \<and> state c' = state c
      \<and> waitTime c' = int ((5 - length ts mod 5) mod 5)
      \<and> length (datagrams w') = length (datagrams w) + (length ts + 4) div 5"
  proof (induction ts rule: rev_induct)
    case Nil
    then show ?case using assms by simp
  next
    case (snoc t ts)
    then obtain c1 w1 where run: "client_run L ts c w = Some (c1, w1)" and Q1: "Q (outside w1)"
      and c1: "state c1 = state c" "waitTime c1 = int ((5 - length ts mod 5) mod 5)"
        "length (datagrams w1) = length (datagrams w) + (length ts + 4) div 5" by auto
    have req: "request_of (state c1) = Some m" and nonneg: "0 \<le> waitTime c1" using assms(3) c1 by simp_all
    from silent_request_update [OF assms(1) Q1 req assms(5) del nonneg, of t] obtain r c2 w2
      where u: "nimbleClientUpdate L c1 t w1 = Some (r, c2, w2)" "Q (outside w2)" "state c2 = state c1"
        and s: "if waitTime c1 = 0 then waitTime c2 = 4 \<and> length (datagrams w2) = Suc (length (datagrams w1))
          else waitTime c2 = waitTime c1 - 1 \<and> datagrams w2 = datagrams w1" by blast
    have run2: "client_run L (ts @ [t]) c w = Some (c2, w2)"
      by (simp add: client_run_append run u(1))
    let ?n = "length ts"
    have "waitTime c2 = int ((5 - Suc ?n mod 5) mod 5)
        \<and> length (datagrams w2) = length (datagrams w) + (Suc ?n + 4) div 5"
    proof (cases "?n mod 5 = 0")
      case True
      with s c1 pace_start [of ?n] show ?thesis by simp
    next
      case False
      with s c1 pace_step [of ?n] show ?thesis by (auto split: if_splits)
    qed
    with run2 u c1(1) show ?case by simp
  qed
  then show ?thesis by blast
qed

theorem requests_are_paced_witness:
  "\<exists>c' w'. client_run sampleLib (replicate 11 16)
      (sample_client NimbleClientStateRequestingConnect NimbleJoiningStateJoiningParticipant 0 0)
      (sample_world []) = Some (c', w') \<and> length (datagrams w') = 3"
proof -
  let ?c = "sample_client NimbleClientStateRequestingConnect NimbleJoiningStateJoiningParticipant 0 0"
  have c: "request_of (state ?c) = Some ConnectRequest" "waitTime ?c = 0" by (simp_all add: sample_client_def)
  have w: "(\<lambda>(ds, t, p). ds = []) (outside (sample_world []))" "datagrams (sample_world []) = []"
    by (simp_all add: sample_world_def datagrams_def)
  have d: "\<forall>c x now. deliverable sampleLib c x now ConnectRequest" by (simp add: sample_deliverable)
  from requests_are_paced [OF sample_silent w(1) c sample_header_ok d, of "replicate 11 16"] w(2)
  show ?thesis by auto
qed

end
