(* ===== verification/RealizerProperties.thy ===== *)
theory RealizerProperties
  imports NetworkRealizer UpdateProperties
begin

text \<open>
  Properties of the realizer over everything an application can do with it: a step relation with
  one rule per operation, the states reachable from an initialisation and their invariant, and
  what joining, quitting and resetting lead to.
\<close>

section \<open>The operations as a step relation\<close>

inductive realize_step ::
    "('x, 'w) nimble_lib \<Rightarrow> 'x NimbleClientRealize \<times> 'w world \<Rightarrow> 'x NimbleClientRealize \<times> 'w world \<Rightarrow> bool"
  for L where
  reset: "nimbleClientRealizeReset L r w = Some (r', w') \<Longrightarrow> realize_step L (r, w) (r', w')"
| reinit: "nimbleClientRealizeReInit L r s w = Some (r', w') \<Longrightarrow> realize_step L (r, w) (r', w')"
| join: "realize_step L (r, w) (nimbleClientRealizeJoinGame r q, w)"
| quit: "realize_step L (r, w) (nimbleClientRealizeQuitGame r, w)"
| update: "nimbleClientRealizeUpdate L r now w = Some (r', w') \<Longrightarrow> realize_step L (r, w) (r', w')"

text \<open>Reachable: by any sequence of operations after an initialisation of any memory.\<close>

inductive reachable ::
    "('x, 'w) nimble_lib \<Rightarrow> 'x NimbleClientRealize \<times> 'w world \<Rightarrow> bool" for L where
  init: "length (localParticipantLookup (client r0)) = NIMBLE_CLIENT_MAX_LOCAL_USERS_COUNT \<Longrightarrow>
    nimbleClientRealizeInit L r0 s w0 = Some (r, w) \<Longrightarrow> reachable L (r, w)"
| step: "reachable L s \<Longrightarrow> realize_step L s t \<Longrightarrow> reachable L t"

inductive_cases realize_stepE: "realize_step L (r, w) (r', w')"

section \<open>The invariant\<close>

definition realize_ok :: "'x NimbleClientRealize \<Rightarrow> (addr \<rightharpoonup> octets) \<Rightarrow> bool" where
  "realize_ok r h \<longleftrightarrow> client_ok (client r) h
     \<and> targetState r \<in> {NimbleClientRealizeStateInit, NimbleClientRealizeStateCleared, NimbleClientRealizeStateSynced}
     \<and> (targetState r = NimbleClientRealizeStateInit \<longrightarrow> state (client r) = NimbleClientStateIdle)
     \<and> (targetState r = NimbleClientRealizeStateCleared \<longrightarrow>
          state (client r) = NimbleClientStateDisconnected
          \<or> state (client r) = NimbleClientStateIdle \<and> realizeState r = NimbleClientRealizeStateCleared)
     \<and> (realizeState r = NimbleClientRealizeStateSynced \<longrightarrow> state (client r) \<in>
          {NimbleClientStateJoiningDownloadingState, NimbleClientStateSynced, NimbleClientStateDisconnected})
     \<and> (realizeState r = NimbleClientRealizeStateCleared \<longrightarrow> state (client r) \<in>
          {NimbleClientStateIdle, NimbleClientStateRequestingConnect, NimbleClientStateDisconnected})
     \<and> (realizeState r = NimbleClientRealizeStateDisconnected \<longrightarrow>
          state (client r) = NimbleClientStateDisconnected)"

lemma client_ok_steered [simp]:
  "client_ok (c\<lparr>state := st\<rparr>) h \<longleftrightarrow> client_ok c h"
  "client_ok (c\<lparr>waitTime := k\<rparr>) h \<longleftrightarrow> client_ok c h"
  "client_ok (c\<lparr>joinParticipantPhase := p\<rparr>) h \<longleftrightarrow> client_ok c h"
  "client_ok (c\<lparr>joinGameRequest := q\<rparr>) h \<longleftrightarrow> client_ok c h"
  by (simp_all add: client_ok_def)

lemma init_ok:
  assumes "length (localParticipantLookup (client r0)) = NIMBLE_CLIENT_MAX_LOCAL_USERS_COUNT"
    and "nimbleClientRealizeInit L r0 s w0 = Some (r, w)"
  shows "realize_ok r (heap w)"
proof -
  obtain e c where i: "nimbleClientInit L (client r0) (settingsMemory s) (settingsBlobMemory s)
      (settingsTransport s) (settingsMaximumSingleParticipantStepOctetCount s)
      (settingsMaximumNumberOfParticipants s) (settingsApplicationVersion s)
      (settingsWantsDebugStreams s) w0 = Some (e, c, w)"
    and r: "r = r0\<lparr>targetState := NimbleClientRealizeStateInit,
      realizeState := NimbleClientRealizeStateInit, settings := s, client := c\<rparr>"
    using assms(2) by (auto simp: nimbleClientRealizeInit_def Let_def)
  from init_SomeD(4,10) [OF i] assms(1) show ?thesis by (simp add: realize_ok_def r)
qed

lemma reset_step_ok:
  assumes "nimbleClientRealizeReset L r w = Some (r', w')" "realize_ok r (heap w)"
  shows "realize_ok r' (heap w')"
proof -
  obtain c where c: "nimbleClientReset L (client r) w = Some (c, w')"
    and r': "r' = r\<lparr>client := c, realizeState := NimbleClientRealizeStateCleared, joinGameRequestNonce := 0\<rparr>"
    using assms(1) by (auto simp: nimbleClientRealizeReset_def)
  from reset_ok [OF c] reset_SomeD(1) [OF c] assms(2) show ?thesis by (simp add: realize_ok_def r')
qed

lemma reinit_step_ok:
  assumes "nimbleClientRealizeReInit L r s w = Some (r', w')" "realize_ok r (heap w)"
  shows "realize_ok r' (heap w')"
proof -
  obtain c where c: "nimbleClientReInit L (client r) (settingsTransport s) w = Some (c, w')"
    and r': "r' = r\<lparr>targetState := NimbleClientRealizeStateInit,
      realizeState := NimbleClientRealizeStateReInit, settings := s, client := c\<rparr>"
    using assms(1) by (auto simp: nimbleClientRealizeReInit_def Let_def)
  note reset = reinit_SomeD [OF c]
  from reset_ok [OF reset] reset_SomeD(1) [OF reset] assms(2) show ?thesis by (simp add: realize_ok_def r')
qed

lemma join_ok: "realize_ok r h \<Longrightarrow> realize_ok (nimbleClientRealizeJoinGame r q) h"
  by (simp add: realize_ok_def nimbleClientRealizeJoinGame_def Let_def)

lemma quit_ok: "realize_ok r h \<Longrightarrow> realize_ok (nimbleClientRealizeQuitGame r) h"
  by (auto simp: realize_ok_def nimbleClientRealizeQuitGame_def nimbleClientDisconnect_def Let_def)

lemma steer_ok:
  assumes "realize_ok r h"
  shows "realize_ok (steer r) h"
proof (cases "targetState r")
  case NimbleClientRealizeStateSynced
  then show ?thesis using assms
    by (cases "state (client r)") (auto simp: steer_def steerToSynced_def realize_ok_def)
next
  case NimbleClientRealizeStateCleared
  then have "state (client r) \<in> {NimbleClientStateDisconnected, NimbleClientStateIdle}" "client_ok (client r) h"
    using assms by (auto simp: realize_ok_def)
  with NimbleClientRealizeStateCleared show ?thesis using assms
    by (cases "realizeState r = NimbleClientRealizeStateCleared") (auto simp: steer_def realize_ok_def)
qed (use assms in \<open>simp_all add: steer_def\<close>)

text \<open>What an update of the realizer does: it follows, rests, or updates its client.\<close>

definition steer_if :: "'x NimbleClientRealize \<Rightarrow> 'x NimbleClientRealize" where
  "steer_if r = (if targetState r = realizeState r then r else steer r)"

lemma realize_update_cases:
  assumes "nimbleClientRealizeUpdate L r now w = Some (r', w')"
  obtains (gone) "state (client r) = NimbleClientStateDisconnected"
      "r' = r\<lparr>realizeState := NimbleClientRealizeStateDisconnected\<rparr>" "w' = w"
  | (resting) "state (client r) \<noteq> NimbleClientStateDisconnected"
      "realizeState r = NimbleClientRealizeStateCleared \<or> targetState r = NimbleClientRealizeStateInit"
      "r' = steer_if r" "w' = w"
  | (active) e c where "state (client r) \<noteq> NimbleClientStateDisconnected"
      "realizeState r \<noteq> NimbleClientRealizeStateCleared" "targetState r \<noteq> NimbleClientRealizeStateInit"
      "nimbleClientUpdate L (client r) now w = Some (e, c, w')" "r' = steer_if (r\<lparr>client := c\<rparr>)"
proof -
  consider "state (client r) = NimbleClientStateDisconnected"
    | "state (client r) \<noteq> NimbleClientStateDisconnected"
      "realizeState r = NimbleClientRealizeStateCleared \<or> targetState r = NimbleClientRealizeStateInit"
    | "state (client r) \<noteq> NimbleClientStateDisconnected"
      "realizeState r \<noteq> NimbleClientRealizeStateCleared" "targetState r \<noteq> NimbleClientRealizeStateInit"
    by blast
  then show thesis
  proof cases
    case 1
    then show thesis using assms by (intro gone) (simp_all add: nimbleClientRealizeUpdate_def)
  next
    case 2
    then have "nimbleClientRealizeUpdate L r now w = Some (steer_if r, w)"
      by (elim disjE) (simp_all add: nimbleClientRealizeUpdate_def steer_if_def)
    with 2 assms show thesis by (intro resting) simp_all
  next
    case 3
    then obtain e c w1 where u: "nimbleClientUpdate L (client r) now w = Some (e, c, w1)"
      using assms by (auto simp: nimbleClientRealizeUpdate_def)
    with 3 have "nimbleClientRealizeUpdate L r now w = Some (steer_if (r\<lparr>client := c\<rparr>), w1)"
      by (simp add: nimbleClientRealizeUpdate_def steer_if_def)
    with 3 u assms show thesis by (intro active [where e = e and c = c]) simp_all
  qed
qed

lemma update_step_ok:
  assumes "nimbleClientRealizeUpdate L r now w = Some (r', w')" "realize_ok r (heap w)"
  shows "realize_ok r' (heap w')"
  using assms(1)
proof (cases rule: realize_update_cases)
  case gone
  then show ?thesis using assms(2) by (auto simp: realize_ok_def)
next
  case resting
  then show ?thesis using steer_ok [OF assms(2)] assms(2) by (simp add: steer_if_def)
next
  case (active e c)
  have "client_ok c (heap w')"
    using ok_updates.update [OF active(4)] assms(2) by (simp add: ok_kept_def realize_ok_def)
  moreover have "targetState r = NimbleClientRealizeStateSynced"
    using assms(2) active(1-3) by (auto simp: realize_ok_def)
  moreover have "state c = state (client r) \<or> state c \<in> {NimbleClientStateJoiningDownloadingState,
      NimbleClientStateSynced, NimbleClientStateDisconnected}
    \<or> state (client r) = NimbleClientStateRequestingConnect \<and> state c = NimbleClientStateConnected"
    using update_steps_table steps_updates.update [OF active(4)] by (fastforce simp: update_steps_def)
  ultimately have "realize_ok (r\<lparr>client := c\<rparr>) (heap w')"
    using assms(2) active(1,2) by (auto simp: realize_ok_def)
  from steer_ok [OF this] this show ?thesis using active(5) by (simp add: steer_if_def)
qed

lemma realize_step_ok:
  assumes "realize_step L s t" "realize_ok (fst s) (heap (snd s))"
  shows "realize_ok (fst t) (heap (snd t))"
  using assms
  by induction (auto intro: reset_step_ok reinit_step_ok join_ok quit_ok update_step_ok)

lemma reachable_ok: "reachable L s \<Longrightarrow> realize_ok (fst s) (heap (snd s))"
proof (induction rule: reachable.induct)
  case (init r0 s w0 r w)
  then show ?case by (simp add: init_ok)
next
  case (step s t)
  then show ?case using realize_step_ok by blast
qed

text \<open>
  The blob stream: no operation sets it up, and none takes it away from a client that holds one.
\<close>

lemma init_keeps_stream:
  "nimbleClientRealizeInit L r0 s w0 = Some (r, w) \<Longrightarrow> holds_stream G (client r) = holds_stream G (client r0)"
  by (auto simp: nimbleClientRealizeInit_def holds_stream_def Let_def init_SomeD(11,12))

lemma steer_keeps_stream [simp]:
  "holds_stream G (client (steer_if r)) = holds_stream G (client r)"
  by (simp add: steer_if_def steer_def steerToSynced_def holds_stream_def
      split: NimbleClientRealizeState.split NimbleClientState.split)

lemma realize_step_stream:
  assumes "realize_step L s t" "blob_streams_ok L G" "holds_stream G (client (fst s))"
  shows "holds_stream G (client (fst t))"
  using assms(1)
proof cases
  case (update r now w r' w')
  from update(3) show ?thesis
  proof (cases rule: realize_update_cases)
    case (active e c)
    have "holds_stream G (client (r\<lparr>client := c\<rparr>))"
      using held_updates.update [OF active(4), of G] assms(2,3) update(1) by (simp add: stream_held_def)
    then show ?thesis using update(2) active(5) by (simp only: steer_keeps_stream fst_conv)
  qed (use assms(3) update(1,2) in simp_all)
next
  case (reset r w r' w')
  then show ?thesis using assms(3)
    by (auto simp: nimbleClientRealizeReset_def holds_stream_def reset_SomeD(12,17))
next
  case (reinit r s w r' w')
  then show ?thesis using assms(3)
    by (auto simp: nimbleClientRealizeReInit_def holds_stream_def Let_def reset_SomeD(12,17)
        dest!: reinit_SomeD)
qed (use assms(3) in \<open>simp_all add: holds_stream_def nimbleClientRealizeJoinGame_def
  nimbleClientRealizeQuitGame_def nimbleClientDisconnect_def Let_def\<close>)

lemma realize_steps_kept:
  assumes "(realize_step L)\<^sup>*\<^sup>* s t" "realize_ok (fst s) (heap (snd s))"
    and "blob_streams_ok L G" "holds_stream G (client (fst s))"
  shows "realize_ok (fst t) (heap (snd t)) \<and> holds_stream G (client (fst t))"
  using assms(1,2,4)
  by (induction rule: rtranclp_induct) (auto dest: realize_step_ok realize_step_stream [OF _ assms(3)])

text \<open>A stream that was not set up is not safe: a part that completes garbage is copied past its end.\<close>

lemma garbage_stream_undefined:
  assumes "nimbleSerializeInBlobStreamChannelId L s = (e, joinStateChannel c, s1)"
    and "blobStreamLogicInReceive L (blobStreamInLogic c) (blobStreamIn c) s1 = (k, l, b, s2)" "0 \<le> k"
    and "blobStreamInIsComplete L b" "length (blob b) < unat (octetCount b)"
    and "state c \<noteq> NimbleClientStateSynced"
  shows "nimbleClientOnDownloadGameStatePart L c s w = None"
proof -
  have "nimbleClientGameStateInit L (joinedGameState c) (blobStreamAllocator c) (joinStateId c)
      (blob b) (octetCount b) w = None"
    using assms(5) by (simp add: init_undefined_iff)
  with assms show ?thesis
    by (simp add: nimbleClientOnDownloadGameStatePart_def trySetInitialGameState_def Let_def)
qed

lemma realize_update_defined:
  assumes "join_answers_ok L" "blob_streams_ok L G" "drains L m" "realize_ok r (heap w)"
    and "holds_stream G (client r)"
  shows "\<exists>r' w'. nimbleClientRealizeUpdate L r now w = Some (r', w')"
proof -
  have "client_ok (client r) (heap w)" using assms(4) by (simp add: realize_ok_def)
  from update_defined_on [OF assms(1-3) this assms(5), of now] obtain e c w1
    where "nimbleClientUpdate L (client r) now w = Some (e, c, w1)" by blast
  then show ?thesis by (simp add: nimbleClientRealizeUpdate_def)
qed

section \<open>Properties\<close>

text \<open>
  C1. Whatever an application does with the realizer, it stays consistent and never runs into
  undefined behaviour, if its memory holds a blob stream that was set up: nothing in the program sets
  it up, and no operation takes it away. After an initialisation of such memory, whatever else it
  holds, and any sequence of resets,
  re-initialisations, joins, quits and updates, with any datagrams from the server, the client's
  invariant holds and it still holds such a stream; without a target the client is idle; a realizer that is synced has a client
  that is synced, downloads again or has just disconnected; one that is disconnected has a
  disconnected client; and the next update, reset or re-initialisation returns. Of the library it
  is only assumed that it works on streams that were set up, and that a join answer has at most
  the eight participants for which there is room.
\<close>

theorem realizer_consistent:
  assumes "length (localParticipantLookup (client r0)) = NIMBLE_CLIENT_MAX_LOCAL_USERS_COUNT"
    and "holds_stream G (client r0)"
    and "nimbleClientRealizeInit L r0 s0 w0 = Some (r1, w1)" "(realize_step L)\<^sup>*\<^sup>* (r1, w1) (r, w)"
    and "join_answers_ok L" "blob_streams_ok L G" "drains L m"
  shows "client_ok (client r) (heap w) \<and> holds_stream G (client r)
    \<and> (targetState r = NimbleClientRealizeStateInit \<longrightarrow> state (client r) = NimbleClientStateIdle)
    \<and> (realizeState r = NimbleClientRealizeStateSynced \<longrightarrow> state (client r) \<in>
         {NimbleClientStateJoiningDownloadingState, NimbleClientStateSynced, NimbleClientStateDisconnected})
    \<and> (realizeState r = NimbleClientRealizeStateDisconnected \<longrightarrow>
         state (client r) = NimbleClientStateDisconnected)
    \<and> (\<forall>now. \<exists>r' w'. nimbleClientRealizeUpdate L r now w = Some (r', w'))
    \<and> (\<exists>r' w'. nimbleClientRealizeReset L r w = Some (r', w'))
    \<and> (\<forall>s. \<exists>r' w'. nimbleClientRealizeReInit L r s w = Some (r', w'))"
proof -
  have "realize_ok r1 (heap w1)" "holds_stream G (client r1)"
    using init_ok [OF assms(1,3)] init_keeps_stream [OF assms(3)] assms(2) by simp_all
  with realize_steps_kept [OF assms(4) _ assms(6)] have ok: "realize_ok r (heap w)"
    and stream: "holds_stream G (client r)" by simp_all
  from ok have c: "client_ok (client r) (heap w)" by (simp add: realize_ok_def)
  then have "game_state_ok (joinedGameState (client r)) (heap w)" by (simp add: client_ok_def)
  from reset_defined [OF this, of L] have "\<exists>r' w'. nimbleClientRealizeReset L r w = Some (r', w')"
    by (elim exE) (simp add: nimbleClientRealizeReset_def case_prod_beta)
  moreover have "\<exists>r' w'. nimbleClientRealizeReInit L r s w = Some (r', w')" for s
  proof -
    have "game_state_ok (joinedGameState ((client r)\<lparr>transport := settingsTransport s\<rparr>)) (heap w)"
      using c by (simp add: client_ok_def)
    from reset_defined [OF this, of L] show ?thesis
      by (elim exE) (simp add: nimbleClientRealizeReInit_def nimbleClientReInit_def case_prod_beta Let_def)
  qed
  ultimately show ?thesis
    using ok c stream realize_update_defined [OF assms(5-7) ok stream] by (simp add: realize_ok_def)
qed

definition sample_settings :: "octets NimbleClientRealizeSettings" where
  "sample_settings = \<lparr>settingsTransport = [], settingsMemory = [], settingsBlobMemory = [],
     settingsMaximumSingleParticipantStepOctetCount = 16, settingsMaximumNumberOfParticipants = 8,
     settingsApplicationVersion = [], settingsWantsDebugStreams = False\<rparr>"

definition sample_realize :: "octets NimbleClientRealize" where
  "sample_realize = \<lparr>targetState = NimbleClientRealizeStateSynced,
     realizeState = NimbleClientRealizeStateSynced,
     client = sample_client NimbleClientStateSynced NimbleJoiningStateJoinedParticipant 99 5,
     settings = sample_settings, joinGameRequestNonce = 7\<rparr>"

lemma realize_init_defined: "\<exists>r w'. nimbleClientRealizeInit L r0 s w = Some (r, w')"
  using init_defined [of L "client r0" "settingsMemory s" "settingsBlobMemory s" "settingsTransport s"
      "settingsMaximumSingleParticipantStepOctetCount s" "settingsMaximumNumberOfParticipants s"
      "settingsApplicationVersion s" "settingsWantsDebugStreams s" w]
  by (auto simp: nimbleClientRealizeInit_def Let_def)

lemma sample_realize_lookup:
  "length (localParticipantLookup (client sample_realize)) = NIMBLE_CLIENT_MAX_LOCAL_USERS_COUNT"
  by (simp add: sample_realize_def sample_client_def NIMBLE_CLIENT_MAX_LOCAL_USERS_COUNT_def)

text \<open>A stream of the sample library that was set up: the memory for its octets is there.\<close>

definition sample_stream :: "octets \<Rightarrow> octets BlobStreamIn \<Rightarrow> bool" where
  "sample_stream l b \<longleftrightarrow> unat (octetCount b) \<le> length (blob b)"

lemma sample_stream_ok: "join_answers_ok sampleLib" "blob_streams_ok sampleLib sample_stream"
  "holds_stream sample_stream (client sample_realize)"
proof -
  have "unat (of_nat n :: size_t) \<le> n" for n by (simp add: unat_of_nat)
  then show "blob_streams_ok sampleLib sample_stream"
    by (simp add: blob_streams_ok_def sample_stream_def sample_fields sample_blob_receive_def)
qed (simp_all add: answers_ok_parts(1) sample_answers_ok holds_stream_def sample_stream_def
    sample_realize_def sample_client_def)

theorem realizer_consistent_witness:
  "\<exists>r w. nimbleClientRealizeInit sampleLib sample_realize sample_settings (sample_world [[1, 2, 3]]) = Some (r, w)
    \<and> (\<exists>r' w'. nimbleClientRealizeUpdate sampleLib
         (nimbleClientRealizeJoinGame r \<lparr>nonce = 0, joinGameRequestRest = []\<rparr>) 16 w = Some (r', w'))"
proof -
  obtain r w where i: "nimbleClientRealizeInit sampleLib sample_realize sample_settings
      (sample_world [[1, 2, 3]]) = Some (r, w)"
    using realize_init_defined [of sampleLib sample_realize sample_settings "sample_world [[1, 2, 3]]"] by blast
  have "(realize_step sampleLib)\<^sup>*\<^sup>* (r, w)
      (nimbleClientRealizeJoinGame r \<lparr>nonce = 0, joinGameRequestRest = []\<rparr>, w)"
    by (rule r_into_rtranclp) (rule realize_step.join)
  from realizer_consistent [OF sample_realize_lookup sample_stream_ok(3) i this sample_stream_ok(1,2)
      sample_drains] i
  show ?thesis by blast
qed

section \<open>Many updates of the realizer\<close>

fun realize_run ::
    "('x, 'w) nimble_lib \<Rightarrow> int list \<Rightarrow> 'x NimbleClientRealize \<Rightarrow> 'w world
     \<Rightarrow> ('x NimbleClientRealize \<times> 'w world) option" where
  "realize_run L [] r w = Some (r, w)"
| "realize_run L (now # later) r w =
     do { (r, w) \<leftarrow> nimbleClientRealizeUpdate L r now w; realize_run L later r w }"

text \<open>
  C39. Quitting ends in Disconnected, not in the Cleared it aims for: after
  \<open>nimbleClientRealizeQuitGame\<close> the first update and every later one leave the realizer
  disconnected with the target Cleared, and nothing is sent or received any more.
\<close>

theorem quit_never_reaches_cleared:
  "realize_run L ts (nimbleClientRealizeQuitGame r) w =
     Some ((nimbleClientRealizeQuitGame r)\<lparr>realizeState :=
             (if ts = [] then realizeState r else NimbleClientRealizeStateDisconnected)\<rparr>, w)
   \<and> targetState (nimbleClientRealizeQuitGame r) = NimbleClientRealizeStateCleared"
proof -
  have update: "nimbleClientRealizeUpdate L ((nimbleClientRealizeQuitGame r)\<lparr>realizeState := s\<rparr>) now w =
      Some ((nimbleClientRealizeQuitGame r)\<lparr>realizeState := NimbleClientRealizeStateDisconnected\<rparr>, w)" for s now
    by (simp add: nimbleClientRealizeUpdate_def nimbleClientRealizeQuitGame_def nimbleClientDisconnect_def Let_def)
  have run: "realize_run L ts ((nimbleClientRealizeQuitGame r)\<lparr>realizeState := s\<rparr>) w =
      Some ((nimbleClientRealizeQuitGame r)\<lparr>realizeState :=
             (if ts = [] then s else NimbleClientRealizeStateDisconnected)\<rparr>, w)" for s
    by (induction ts arbitrary: s) (simp_all add: update)
  have "nimbleClientRealizeQuitGame r = (nimbleClientRealizeQuitGame r)\<lparr>realizeState := realizeState r\<rparr>"
    by (simp add: nimbleClientRealizeQuitGame_def)
  with run [of "realizeState r"] show ?thesis
    by (simp add: nimbleClientRealizeQuitGame_def)
qed

text \<open>
  C37. Joining after a reset never connects: a realizer that is reset and then asked to join stays
  Cleared for ever; its first update puts the client into RequestingConnect, but no update ever
  runs the client, so the world does not change at all: no request is sent, nothing is received
  and the wait for the server never ends.
\<close>

theorem join_after_reset_is_stuck:
  assumes "nimbleClientRealizeReset L r w = Some (r1, w1)"
  shows "\<exists>r'. realize_run L ts (nimbleClientRealizeJoinGame r1 q) w1 = Some (r', w1)
    \<and> targetState r' = NimbleClientRealizeStateSynced \<and> realizeState r' = NimbleClientRealizeStateCleared
    \<and> state (client r') =
        (if ts = [] then NimbleClientStateIdle else NimbleClientStateRequestingConnect)"
proof -
  obtain c where c: "nimbleClientReset L (client r) w = Some (c, w1)"
    and r1: "r1 = r\<lparr>client := c, realizeState := NimbleClientRealizeStateCleared, joinGameRequestNonce := 0\<rparr>"
    using assms by (auto simp: nimbleClientRealizeReset_def)
  have update: "\<exists>r''. nimbleClientRealizeUpdate L r' t w1 = Some (r'', w1)
      \<and> targetState r'' = NimbleClientRealizeStateSynced \<and> realizeState r'' = NimbleClientRealizeStateCleared
      \<and> state (client r'') = NimbleClientStateRequestingConnect"
    if "targetState r' = NimbleClientRealizeStateSynced" "realizeState r' = NimbleClientRealizeStateCleared"
      "state (client r') \<in> {NimbleClientStateIdle, NimbleClientStateRequestingConnect}" for r' t
    using that by (auto simp: nimbleClientRealizeUpdate_def steer_def steerToSynced_def)
  have run: "\<exists>r''. realize_run L ts r' w1 = Some (r'', w1)
      \<and> targetState r'' = NimbleClientRealizeStateSynced \<and> realizeState r'' = NimbleClientRealizeStateCleared
      \<and> state (client r'') = (if ts = [] then state (client r') else NimbleClientStateRequestingConnect)"
    if "targetState r' = NimbleClientRealizeStateSynced" "realizeState r' = NimbleClientRealizeStateCleared"
      "state (client r') \<in> {NimbleClientStateIdle, NimbleClientStateRequestingConnect}" for r'
    using that
  proof (induction ts arbitrary: r')
    case (Cons t ts)
    from update [OF Cons.prems, of t] obtain r2 where u: "nimbleClientRealizeUpdate L r' t w1 = Some (r2, w1)"
      and r2: "targetState r2 = NimbleClientRealizeStateSynced" "realizeState r2 = NimbleClientRealizeStateCleared"
        "state (client r2) = NimbleClientStateRequestingConnect" by blast
    from Cons.IH [OF r2(1,2)] r2(3) u show ?case by (auto split: if_splits)
  qed simp
  let ?j = "nimbleClientRealizeJoinGame r1 q"
  have j: "targetState ?j = NimbleClientRealizeStateSynced" "realizeState ?j = NimbleClientRealizeStateCleared"
    "state (client ?j) = NimbleClientStateIdle"
    using reset_SomeD(1) [OF c] by (simp_all add: nimbleClientRealizeJoinGame_def r1 Let_def)
  from run [of ?j] j show ?thesis by (cases "ts = []") auto
qed

lemma realize_reset_defined:
  "client_ok (client r) (heap w) \<Longrightarrow> \<exists>r' w'. nimbleClientRealizeReset L r w = Some (r', w')"
  using reset_defined [of "client r" w L]
  by (auto simp: client_ok_def nimbleClientRealizeReset_def)

theorem join_after_reset_is_stuck_witness:
  "\<exists>r1 w1 r'. nimbleClientRealizeReset sampleLib (sample_realize\<lparr>client :=
        sample_client NimbleClientStateSynced NimbleJoiningStateJoinedParticipant 0 0\<rparr>) (sample_world [])
      = Some (r1, w1)
    \<and> realize_run sampleLib (replicate 100 16)
        (nimbleClientRealizeJoinGame r1 \<lparr>nonce = 0, joinGameRequestRest = []\<rparr>) w1 = Some (r', w1)
    \<and> state (client r') = NimbleClientStateRequestingConnect"
proof -
  let ?r = "sample_realize\<lparr>client := sample_client NimbleClientStateSynced NimbleJoiningStateJoinedParticipant 0 0\<rparr>"
  have "client_ok (client ?r) (heap (sample_world []))" by (simp add: sample_client_ok game_state_ok_def)
  then obtain r1 w1 where r: "nimbleClientRealizeReset sampleLib ?r (sample_world []) = Some (r1, w1)"
    using realize_reset_defined [of ?r "sample_world []" sampleLib] by blast
  from join_after_reset_is_stuck [OF r, of "replicate 100 16" "\<lparr>nonce = 0, joinGameRequestRest = []\<rparr>"] r
  show ?thesis by auto
qed

section \<open>Join requests\<close>

text \<open>
  Every join request gets a nonce of its own: the request that the client holds after joining
  with a sequence of requests carries the nonce of the first one plus their number minus one,
  modulo 2 to the 64, so that two requests less than 2 to the 64 apart never share a nonce; only
  the nonce of a request is replaced. A reset starts the nonces again at 0.
\<close>

theorem join_nonces_count_up:
  "joinGameRequest (client (fold (\<lambda>q r. nimbleClientRealizeJoinGame r q) (qs @ [q]) r)) =
     q\<lparr>nonce := joinGameRequestNonce r + of_nat (length qs)\<rparr>
   \<and> joinGameRequestNonce (fold (\<lambda>q r. nimbleClientRealizeJoinGame r q) (qs @ [q]) r) =
     joinGameRequestNonce r + of_nat (length qs) + 1
   \<and> (\<forall>i j. i < 2 ^ 64 \<and> j < 2 ^ 64 \<and> joinGameRequestNonce r + of_nat i = joinGameRequestNonce r + of_nat j
        \<longrightarrow> i = j)
   \<and> (nimbleClientRealizeReset L r w = Some (r', w') \<longrightarrow> joinGameRequestNonce r' = 0)"
proof -
  have join: "joinGameRequest (client (nimbleClientRealizeJoinGame r q)) = q\<lparr>nonce := joinGameRequestNonce r\<rparr>"
    "joinGameRequestNonce (nimbleClientRealizeJoinGame r q) = joinGameRequestNonce r + 1"
    for r :: "'a NimbleClientRealize" and q
    by (simp_all add: nimbleClientRealizeJoinGame_def Let_def)
  have count: "joinGameRequestNonce (fold (\<lambda>q r. nimbleClientRealizeJoinGame r q) qs r) =
      joinGameRequestNonce r + of_nat (length qs)" for r :: "'a NimbleClientRealize"
    by (induction qs arbitrary: r) (simp_all add: join)
  have "i = j" if "i < 2 ^ 64" "j < 2 ^ 64" "(of_nat i :: u64) = of_nat j" for i j
  proof -
    have "unat (of_nat i :: u64) = i" "unat (of_nat j :: u64) = j" using that(1,2) by (simp_all add: unat_of_nat)
    with that(3) show ?thesis by metis
  qed
  then show ?thesis
    by (auto simp: join count nimbleClientRealizeReset_def)
qed

theorem join_nonces_count_up_witness:
  "nonce (joinGameRequest (client (fold (\<lambda>q r. nimbleClientRealizeJoinGame r q)
     (replicate 3 \<lparr>nonce = 0, joinGameRequestRest = []\<rparr> @ [\<lparr>nonce = 9, joinGameRequestRest = []\<rparr>]) sample_realize))) = 10
   \<and> (joinGameRequestNonce sample_realize + of_nat 2 \<noteq> joinGameRequestNonce sample_realize + of_nat 3)"
  using join_nonces_count_up [of "replicate 3 \<lparr>nonce = 0, joinGameRequestRest = []\<rparr>"
      "\<lparr>nonce = 9, joinGameRequestRest = []\<rparr>" sample_realize, THEN conjunct1]
  by (simp add: sample_realize_def)

section \<open>Joining from a fresh start\<close>

text \<open>An update of an idle client in a silent world sends nothing.\<close>

lemma idle_update:
  assumes "silent_world L Q" "Q (outside w)" "state c = NimbleClientStateIdle"
  obtains r c' w' where "nimbleClientUpdate L c now w = Some (r, c', w')" "Q (outside w')"
    and "trace w' = trace w" "state c' = NimbleClientStateIdle" "remoteConnectionId c' = remoteConnectionId c"
proof -
  from silent_update [OF assms(1,2)] obtain w1
    where u: "nimbleClientUpdate L c now w = Some (updateAfterReceive L (ticked L c now) now 0 w1)"
      and w1: "Q (outside w1)" "trace w1 = trace w" by blast
  have id: "remoteConnectionId (judged L (ticked L c now)) = remoteConnectionId c"
    by (simp add: judged_def ticked_def)
  show thesis
  proof (cases "0 < waitTime c")
    case True
    with u w1 assms(3) id show thesis
      by (intro that [where w' = w1 and r = 0
            and c' = "(judged L (ticked L c now))\<lparr>waitTime := waitTime c - 1\<rparr>"])
         (simp_all add: after_receive_waits)
  next
    case False
    let ?c = "showStats (calcStats L (judged L (ticked L c now)) now)"
    have "sendPackets L ?c w1 = (0, ?c, w1)" using assms(3) by (simp add: sendPackets_def)
    with u w1 assms(3) id False show thesis
      by (intro that [where w' = w1 and r = "wrap_s32 0" and c' = ?c])
         (simp_all add: after_receive_sends)
  qed
qed

lemma request_packet:
  assumes "sendPackets L c w = (e, c', w')" "state c = NimbleClientStateRequestingConnect"
  obtains k c2 where "sendStateMessage L c (transport c) w = (k, c2, w')"
proof -
  obtain k c2 w2 where sm: "sendStateMessage L c (transport c) w = (k, c2, w2)"
    by (cases "sendStateMessage L c (transport c) w") auto
  have "w' = w2"
    using assms by (cases "k < 0") (auto simp: sendPackets_def nimbleClientOutgoing_def handleState_def sm)
  with sm that show thesis by simp
qed

text \<open>An update of a client that asks for a connection without having a connection id.\<close>

lemma request_update:
  assumes "silent_world L Q" "Q (outside w)" "state c = NimbleClientStateRequestingConnect"
    and "waitTime c = 0" "remoteConnectionId c = 0" "header_ok L"
    and del: "\<And>c x now. deliverable L c x now ConnectRequest"
  obtains r c' w' where "nimbleClientUpdate L c now w = Some (r, c', w')"
    and "state c' = NimbleClientStateRequestingConnect"
    and "length (datagrams w') = Suc (length (datagrams w))"
    and "failed_assertions w' =
      AssertFailed ''must have a valid remote conneciton ID'' # failed_assertions w"
proof -
  from silent_update [OF assms(1,2)] obtain w1
    where u: "nimbleClientUpdate L c now w = Some (updateAfterReceive L (ticked L c now) now 0 w1)"
      and w1: "trace w1 = trace w" by blast
  let ?c = "showStats (calcStats L (judged L (ticked L c now)) now)"
  have st: "state ?c = NimbleClientStateRequestingConnect" using assms(3) by simp
  have id: "remoteConnectionId ?c = 0" using assms(5) by (simp add: judged_def ticked_def)
  obtain e c' w' where s: "sendPackets L ?c w1 = (e, c', w')" by (cases "sendPackets L ?c w1") auto
  have req: "request_of (state ?c) = Some ConnectRequest" using st by simp
  obtain k c2 where sm: "sendStateMessage L ?c (transport ?c) w1 = (k, c2, w')"
    using s st by (rule request_packet)
  from failed_state_message [OF sm] id w1
  have "failed_assertions w' = AssertFailed ''must have a valid remote conneciton ID'' # failed_assertions w"
    by (simp add: failed_assertions_def)
  moreover have "length (datagrams w') = Suc (length (datagrams w))"
    using request_sent(2) [OF s req assms(6) del] w1 by (auto simp: datagrams_def)
  moreover have "state c' = NimbleClientStateRequestingConnect"
    using send_packets_keeps(1) [OF s] st by (simp add: sending_kept_def)
  ultimately show thesis
    using that u assms(4) by (simp add: after_receive_sends [OF _ s])
qed

text \<open>
  C26. Joining from a fresh start asks for a connection in the second update: an initialised
  realizer that is told to join steers its client to RequestingConnect in the first update,
  without sending anything, and in the second sends exactly one datagram, the connect request.
  That datagram fails the assertion of its header: no connection id has been assigned yet.
\<close>

theorem fresh_join_requests_connection:
  assumes "nimbleClientRealizeInit L r0 s w0 = Some (r, w)"
    and "silent_world L Q" "Q (outside w)" "header_ok L" "\<forall>c x now. deliverable L c x now ConnectRequest"
  shows "\<exists>r1 w1 r2 w2. nimbleClientRealizeUpdate L (nimbleClientRealizeJoinGame r q) t1 w = Some (r1, w1)
    \<and> state (client r1) = NimbleClientStateRequestingConnect \<and> trace w1 = trace w0
    \<and> nimbleClientRealizeUpdate L r1 t2 w1 = Some (r2, w2)
    \<and> state (client r2) = NimbleClientStateRequestingConnect
    \<and> length (datagrams w2) = Suc (length (datagrams w0))
    \<and> failed_assertions w2 =
        AssertFailed ''must have a valid remote conneciton ID'' # failed_assertions w0"
proof -
  note del = assms(5) [rule_format]
  obtain e c where i: "nimbleClientInit L (client r0) (settingsMemory s) (settingsBlobMemory s)
      (settingsTransport s) (settingsMaximumSingleParticipantStepOctetCount s)
      (settingsMaximumNumberOfParticipants s) (settingsApplicationVersion s)
      (settingsWantsDebugStreams s) w0 = Some (e, c, w)"
    and r: "client r = c" "realizeState r = NimbleClientRealizeStateInit"
    using assms(1) by (auto simp: nimbleClientRealizeInit_def Let_def)
  note c = init_SomeD [OF i]
  let ?j = "nimbleClientRealizeJoinGame r q"
  have j: "state (client ?j) = NimbleClientStateIdle" "realizeState ?j = NimbleClientRealizeStateInit"
    "targetState ?j = NimbleClientRealizeStateSynced" "remoteConnectionId (client ?j) = 0"
    using r c by (simp_all add: nimbleClientRealizeJoinGame_def Let_def)
  from idle_update [OF assms(2,3) j(1), of t1] obtain e1 c1 w1
    where u1: "nimbleClientUpdate L (client ?j) t1 w = Some (e1, c1, w1)" "Q (outside w1)"
      "trace w1 = trace w" "state c1 = NimbleClientStateIdle" "remoteConnectionId c1 = 0"
    using j(4) by metis
  define r1 where "r1 = ?j\<lparr>client := c1\<lparr>state := NimbleClientStateRequestingConnect, waitTime := 0\<rparr>\<rparr>"
  have ru1: "nimbleClientRealizeUpdate L ?j t1 w = Some (r1, w1)"
    using j u1 by (simp add: nimbleClientRealizeUpdate_def steer_def steerToSynced_def r1_def)
  have r1: "state (client r1) = NimbleClientStateRequestingConnect" "waitTime (client r1) = 0"
    "remoteConnectionId (client r1) = 0" "realizeState r1 = NimbleClientRealizeStateInit"
    "targetState r1 = NimbleClientRealizeStateSynced"
    using u1 j by (simp_all add: r1_def)
  from request_update [OF assms(2) u1(2) r1(1-3) assms(4) del, of t2] obtain e2 c2 w2
    where u2: "nimbleClientUpdate L (client r1) t2 w1 = Some (e2, c2, w2)"
      "state c2 = NimbleClientStateRequestingConnect"
      "length (datagrams w2) = Suc (length (datagrams w1))"
      "failed_assertions w2 =
        AssertFailed ''must have a valid remote conneciton ID'' # failed_assertions w1" by blast
  have "nimbleClientRealizeUpdate L r1 t2 w1 = Some (r1\<lparr>client := c2\<rparr>, w2)"
    using r1 u2(1,2) by (simp add: nimbleClientRealizeUpdate_def steer_def steerToSynced_def)
  with ru1 r1(1) u2 u1(3) c(3) show ?thesis
    by (auto simp: datagrams_def failed_assertions_def)
qed

lemma sample_init_outside:
  assumes "nimbleClientInit sampleLib c mem ba tr so mp ver dbg w = Some (e, c', w')"
  shows "fst (outside w') = fst (outside w)"
  using assms
  by (auto simp: nimbleClientInit_def initBeforeReInit_def nimbleClientReInit_def nimbleClientReset_def
      resetSteps_def steps_init_def pending_steps_init_def time_now_def dropJoinedGameState_def
      destroy_result sample_fields Let_def split: prod.splits if_splits)

theorem fresh_join_requests_connection_witness:
  "\<exists>r w r1 w1 r2 w2. nimbleClientRealizeInit sampleLib sample_realize sample_settings (sample_world []) = Some (r, w)
    \<and> nimbleClientRealizeUpdate sampleLib
        (nimbleClientRealizeJoinGame r \<lparr>nonce = 0, joinGameRequestRest = []\<rparr>) 16 w = Some (r1, w1)
    \<and> nimbleClientRealizeUpdate sampleLib r1 32 w1 = Some (r2, w2)
    \<and> length (datagrams w2) = 1 \<and> failed_assertions w2 \<noteq> []"
proof -
  obtain r w where i: "nimbleClientRealizeInit sampleLib sample_realize sample_settings (sample_world []) = Some (r, w)"
    using realize_init_defined [of sampleLib sample_realize sample_settings "sample_world []"] by blast
  have quiet: "(\<lambda>(ds, t, p). ds = []) (outside w)"
    using i by (auto simp: nimbleClientRealizeInit_def Let_def sample_world_def dest!: sample_init_outside)
  have d: "\<forall>c x now. deliverable sampleLib c x now ConnectRequest" by (simp add: sample_deliverable)
  have "datagrams (sample_world []) = []" by (simp add: datagrams_def sample_world_def)
  with fresh_join_requests_connection [OF i sample_silent quiet sample_header_ok d,
      of "\<lparr>nonce = 0, joinGameRequestRest = []\<rparr>" 16 32] i
  show ?thesis by fastforce
qed

end
