(* ===== verification/ScriptedServer.thy ===== *)
theory ScriptedServer
  imports MessageProperties RealizerProperties
begin

text \<open>
  A server whose datagrams come at known updates. \<open>inbox\<close> reads off the world which datagrams
  are received by the next update, the one after it, and so on; \<open>scripted\<close> says that the
  library's transport hands them out in this way. An update is then computed from what arrives in
  it, and every step that leads from joining to the synced state is one lemma.
\<close>

section \<open>Arrivals\<close>

text \<open>
  The batch of the running update is at 0. Receiving takes its first datagram; on an empty batch
  it reports that nothing is left and the next batch becomes the current one. The clock, the
  allocator and sending change no batch.
\<close>

definition scripted :: "('x, 'w) nimble_lib \<Rightarrow> ('w \<Rightarrow> nat \<Rightarrow> octets list) \<Rightarrow> bool" where
  "scripted L inbox \<longleftrightarrow>
     (\<forall>x. inbox (snd (monotonicTimeMsNow L x)) = inbox x)
     \<and> (\<forall>a n x. inbox (snd (imprintAlloc L a n x)) = inbox x)
     \<and> (\<forall>tr d n x. inbox (snd (transportSend L tr d n x)) = inbox x)
     \<and> (\<forall>tr n x. case datagramTransportReceive L tr n x of (k, b, y) \<Rightarrow>
          (case inbox x 0 of
             [] \<Rightarrow> k = 0 \<and> inbox y = (\<lambda>i. inbox x (Suc i))
           | d # ds \<Rightarrow> k = int (length d) \<and> b = d \<and> inbox y = (inbox x)(0 := ds)))"

abbreviation arrivals :: "('w \<Rightarrow> nat \<Rightarrow> octets list) \<Rightarrow> 'w world \<Rightarrow> nat \<Rightarrow> octets list" where
  "arrivals inbox w \<equiv> inbox (outside w)"

lemma scripted_time:
  "scripted L inbox \<Longrightarrow> time_now L w = (now, w') \<Longrightarrow> arrivals inbox w' = arrivals inbox w"
  by (auto simp: scripted_def time_now_def split: prod.splits) (metis snd_conv)

lemma scripted_closed: "scripted L inbox \<Longrightarrow> closed_world L (\<lambda>x. inbox x = I)"
  by (simp add: scripted_def closed_world_def)

lemma scripted_receive:
  fixes L :: "('x, 'w) nimble_lib" and tr :: 'x
  assumes "scripted L inbox"
  shows "case datagramTransportReceive L tr n x of (k, b, y) \<Rightarrow>
    (case inbox x 0 of [] \<Rightarrow> k = 0 \<and> inbox y = (\<lambda>i. inbox x (Suc i))
     | d # ds \<Rightarrow> k = int (length d) \<and> b = d \<and> inbox y = (inbox x)(0 := ds))"
  using assms by (simp add: scripted_def)

lemma scripted_receive_nothing:
  fixes L :: "('x, 'w) nimble_lib" and tr :: 'x
  assumes "scripted L inbox" "arrivals inbox w 0 = []"
  obtains b w' where "transport_receive L tr n w = (0, b, w')"
    and "arrivals inbox w' = (\<lambda>i. arrivals inbox w (Suc i))" "heap w' = heap w" "trace w' = trace w"
proof -
  obtain k b o' where r: "datagramTransportReceive L tr n (outside w) = (k, b, o')"
    by (cases "datagramTransportReceive L tr n (outside w)") auto
  from scripted_receive [OF assms(1), where tr = tr and n = n and x = "outside w"] assms(2)
  have "k = 0" "inbox o' = (\<lambda>i. arrivals inbox w (Suc i))" by (simp_all add: r)
  with that [of b "w\<lparr>outside := o'\<rparr>"] show thesis by (simp add: transport_receive_def r)
qed

lemma scripted_receive_datagram:
  fixes L :: "('x, 'w) nimble_lib" and tr :: 'x
  assumes "scripted L inbox" "arrivals inbox w 0 = d # ds"
  obtains w' where "transport_receive L tr n w = (int (length d), d, w')"
    and "arrivals inbox w' = (arrivals inbox w)(0 := ds)" "heap w' = heap w" "trace w' = trace w"
proof -
  obtain k b o' where r: "datagramTransportReceive L tr n (outside w) = (k, b, o')"
    by (cases "datagramTransportReceive L tr n (outside w)") auto
  from scripted_receive [OF assms(1), where tr = tr and n = n and x = "outside w"] assms(2)
  have "k = int (length d)" "b = d" "inbox o' = (arrivals inbox w)(0 := ds)" by (simp_all add: r)
  with that [of "w\<lparr>outside := o'\<rparr>"] show thesis by (simp add: transport_receive_def r)
qed

section \<open>An update with at most one arrival\<close>

abbreviation usable :: "('x, 'w) nimble_lib \<Rightarrow> 'x NimbleClient \<Rightarrow> 'x NimbleClient" where
  "usable L c \<equiv> c\<lparr>quality := nimbleClientConnectionQualityReceivedUsableDatagram L (quality c)\<rparr>"

lemma update_without_arrival:
  assumes "scripted L inbox" "arrivals inbox w 0 = []"
  obtains w1 where "nimbleClientUpdate L c now w = Some (updateAfterReceive L (ticked L c now) now 0 w1)"
    and "arrivals inbox w1 = (\<lambda>i. arrivals inbox w (Suc i))" "heap w1 = heap w"
proof -
  obtain b w1 where r: "transport_receive L (transport (ticked L c now)) (DATAGRAM_TRANSPORT_MAX_SIZE L) w = (0, b, w1)"
    and w1: "arrivals inbox w1 = (\<lambda>i. arrivals inbox w (Suc i))" "heap w1 = heap w"
    using scripted_receive_nothing [OF assms] by metis
  have "receiveDatagrams L 0 (ticked L c now) w = Some (0, ticked L c now, w1)"
    using r by (subst receiveDatagrams.simps) (simp add: int_of_size_def)
  with w1 that show thesis
    by (simp add: nimbleClientUpdate_def nimbleClientReceiveAllDatagramsFromTransport_def ticked_def Let_def)
qed

lemma update_with_arrival:
  assumes "scripted L inbox" "arrivals inbox w 0 = [d]" "d \<noteq> []"
    and feed: "\<And>w1. heap w1 = heap w \<Longrightarrow> arrivals inbox w1 = (arrivals inbox w)(0 := []) \<Longrightarrow>
      \<exists>e c1 w2. nimbleClientFeed L (count_in L (ticked L c now)) d (size_of_int (int (length d))) w1 = Some (e, c1, w2)
        \<and> 0 \<le> e \<and> arrivals inbox w2 = arrivals inbox w1 \<and> P c1 (heap w2)"
  obtains c1 w2 where "nimbleClientUpdate L c now w = Some (updateAfterReceive L (usable L c1) now 1 w2)"
    and "arrivals inbox w2 = (\<lambda>i. arrivals inbox w (Suc i))" "P c1 (heap w2)"
proof -
  let ?c = "ticked L c now" and ?n = "DATAGRAM_TRANSPORT_MAX_SIZE L"
  obtain w1 where r: "transport_receive L (transport ?c) ?n w = (int (length d), d, w1)"
    and w1: "arrivals inbox w1 = (arrivals inbox w)(0 := [])" "heap w1 = heap w"
    using scripted_receive_datagram [OF assms(1,2)] by metis
  obtain e c1 w2 where f: "nimbleClientFeed L (count_in L ?c) d (size_of_int (int (length d))) w1 = Some (e, c1, w2)"
    and e: "0 \<le> e" "arrivals inbox w2 = arrivals inbox w1" "P c1 (heap w2)" using feed [OF w1(2,1)] by blast
  have "arrivals inbox w2 0 = []" using e(2) w1(1) by simp
  then obtain b w3 where r3: "transport_receive L (transport (usable L c1)) ?n w2 = (0, b, w3)"
    and w3: "arrivals inbox w3 = (\<lambda>i. arrivals inbox w2 (Suc i))" "heap w3 = heap w2"
    using scripted_receive_nothing [OF assms(1), of w2] by metis
  have "receiveDatagrams L (0 + 1) (usable L c1) w2 = Some (1, usable L c1, w3)"
    using r3 by (subst receiveDatagrams.simps) (simp add: int_of_size_def)
  then have "receiveDatagrams L 0 ?c w = Some (1, usable L c1, w3)"
    using f e(1) assms(3) r
    by (subst receiveDatagrams.simps) (simp only: prod.case count_in_def [symmetric], simp)
  with w3 e w1 that [of c1 w3] show thesis
    by (simp add: nimbleClientUpdate_def nimbleClientReceiveAllDatagramsFromTransport_def ticked_def Let_def)
qed

section \<open>What the client waits for\<close>

text \<open>
  A client in state \<open>st\<close> whose next datagram follows the sequence state \<open>x\<close>, on blob channel
  \<open>ch\<close>, and for which nothing speaks for a disconnect.
\<close>

definition waiting :: "'x NimbleClient \<Rightarrow> 'x \<Rightarrow> NimbleClientState \<Rightarrow> nat \<Rightarrow> bool" where
  "waiting c x st ch \<longleftrightarrow> state c = st \<and> orderedDatagramIn c = x \<and> joinStateChannel c = ch
     \<and> downloadStateClientRequestId c = 1
     \<and> reason (quality c) = KeepConnection \<and> consideringDisconnectCounter (quality c) = 0
     \<and> (st \<noteq> NimbleClientStateSynced \<longrightarrow> ticksWithoutAuthoritativeStepsFromInSerialize (quality c) = 0)"

lemma waiting_frame [simp]:
  "waiting (c\<lparr>waitTime := k\<rparr>) x st ch \<longleftrightarrow> waiting c x st ch"
  "waiting (c\<lparr>loggingTickCount := n\<rparr>) x st ch \<longleftrightarrow> waiting c x st ch"
  "waiting (count_in L c) x st ch \<longleftrightarrow> waiting c x st ch"
  "waiting (usable L c) x st ch \<longleftrightarrow> waiting c x st ch"
  "waiting (showStats c) x st ch \<longleftrightarrow> waiting c x st ch"
  "waiting (calcStats L c now) x st ch \<longleftrightarrow> waiting c x st ch"
  by (simp_all add: waiting_def count_in_def showStats_def calcStats_def
      nimbleClientConnectionQualityReceivedUsableDatagram_def)

lemma waiting_ticked [simp]: "waiting (ticked L c now) x st ch \<longleftrightarrow> waiting c x st ch"
  by (simp add: waiting_def ticked_def checkTickInterval_def Let_def)

lemma joining_fields [simp]:
  "joinStateId (ticked L c now) = joinStateId c" "joinStateId (count_in L c) = joinStateId c"
  "remoteConnectionId (ticked L c now) = remoteConnectionId c"
  "remoteConnectionId (count_in L c) = remoteConnectionId c"
  by (simp_all add: ticked_def checkTickInterval_def count_in_def Let_def)

lemma waiting_sent: "sending_kept (c, w) (c', w') \<Longrightarrow> waiting c x st ch \<Longrightarrow> waiting c' x st ch"
  by (simp add: waiting_def sending_kept_def)

lemma quality_calm:
  assumes "reason q = KeepConnection" "consideringDisconnectCounter q = 0"
  shows "reason (nimbleClientConnectionQualityUpdate L st q) = KeepConnection"
proof -
  have "verdict (watch_of (nimbleClientConnectionQualityUpdate L st q)) = KeepConnection"
    using assms unfolding watch_of_update
    by (simp add: watch_tick_def watch_judge_def watch_count_def) (simp add: watch_of_def)
  then show ?thesis by (simp add: watch_of_def)
qed

text \<open>What is left of an update after receiving changes nothing of this but a synced quality.\<close>

lemma after_receive_calm:
  assumes "scripted L inbox" "waiting c x st ch"
    and "updateAfterReceive L c now k w = (r, c', w')"
  shows "st \<noteq> NimbleClientStateSynced \<Longrightarrow> waiting c' x st ch" "state c' = st"
    and "joinedGameState c' = joinedGameState c" "remoteConnectionId c' = remoteConnectionId c"
    and "joinStateId c' = joinStateId c"
    and "arrivals inbox w' = arrivals inbox w" "heap w' = heap w"
    and "watch_of (quality c') = watch_of (nimbleClientConnectionQualityUpdate L st (quality c))"
    and "authoritativeStepsFromServer c' = authoritativeStepsFromServer c"
    and "authoritativePendingStepsFromServer c' = authoritativePendingStepsFromServer c"
    and "consideringDisconnectCounter (quality c') = 0 \<Longrightarrow> waiting c' x st ch"
proof -
  let ?same = "\<lambda>c'. (st \<noteq> NimbleClientStateSynced \<longrightarrow> waiting c' x st ch) \<and> state c' = st
    \<and> joinedGameState c' = joinedGameState c \<and> remoteConnectionId c' = remoteConnectionId c
    \<and> joinStateId c' = joinStateId c
    \<and> watch_of (quality c') = watch_of (nimbleClientConnectionQualityUpdate L st (quality c))
    \<and> authoritativeStepsFromServer c' = authoritativeStepsFromServer c
    \<and> authoritativePendingStepsFromServer c' = authoritativePendingStepsFromServer c
    \<and> (consideringDisconnectCounter (quality c') = 0 \<longrightarrow> waiting c' x st ch)"
  have j: "?same (judged L c)"
    using assms(2) quality_calm [of "quality c" L NimbleClientStateSynced]
    by (auto simp: waiting_def judged_def checkIfDisconnectIsNeeded_def nimbleClientConnectionQualityShouldDisconnect_def
        nimbleClientConnectionQualityUpdate_def)
  have "?same c' \<and> arrivals inbox w' = arrivals inbox w \<and> heap w' = heap w"
  proof (cases "0 < waitTime c")
    case True
    with assms(3) j show ?thesis by (auto simp: after_receive_waits)
  next
    case False
    let ?c = "showStats (calcStats L (judged L c) now)"
    obtain e c2 w2 where s: "sendPackets L ?c w = (e, c2, w2)" by (cases "sendPackets L ?c w") auto
    with assms(3) False have eq: "c' = c2" "w' = w2" by (simp_all add: after_receive_sends [OF _ s])
    have "arrivals inbox w2 = arrivals inbox w"
      using send_packets_keeps(2) [OF s, of "\<lambda>y. inbox y = arrivals inbox w"] scripted_closed [OF assms(1)]
      by (simp add: world_kept_def)
    with send_packets_keeps(1) [OF s] j eq show ?thesis
      by (auto simp: sending_kept_def waiting_def showStats_def calcStats_def)
  qed
  then show "st \<noteq> NimbleClientStateSynced \<Longrightarrow> waiting c' x st ch" "state c' = st"
    "joinedGameState c' = joinedGameState c" "remoteConnectionId c' = remoteConnectionId c"
    "joinStateId c' = joinStateId c"
    "arrivals inbox w' = arrivals inbox w" "heap w' = heap w"
    "watch_of (quality c') = watch_of (nimbleClientConnectionQualityUpdate L st (quality c))"
    "authoritativeStepsFromServer c' = authoritativeStepsFromServer c"
    "authoritativePendingStepsFromServer c' = authoritativePendingStepsFromServer c"
    "consideringDisconnectCounter (quality c') = 0 \<Longrightarrow> waiting c' x st ch" by auto
qed

section \<open>A datagram that is newer\<close>

text \<open>
  The datagram \<open>d\<close> is newer than the sequence state \<open>x\<close>, whether or not others were lost before it,
  and takes it to \<open>x'\<close>; it holds a pong that can be read and the command \<open>cmd\<close>, and \<open>s\<close> is what is
  left of it to read.
\<close>

definition arrives_as ::
    "('x, 'w) nimble_lib \<Rightarrow> 'x \<Rightarrow> octets \<Rightarrow> 'x \<Rightarrow> u8 \<Rightarrow> 'x FldInStream \<Rightarrow> bool" where
  "arrives_as L x d x' cmd s \<longleftrightarrow> d \<noteq> [] \<and> length d < 2147483648
     \<and> (case orderedDatagramInLogicReceive L x (in_stream L d (of_nat (length d))) of (delta, y, s1) \<Rightarrow>
        case fldInStreamReadUInt16 L (fldInStreamCheckMarker L s1 0xdd) of (e, v, s2) \<Rightarrow>
          0 < delta \<and> y = x' \<and> 0 \<le> e \<and> snd (fldInStreamReadUInt8 L s2) = (cmd, s))"

text \<open>The commands of the server have different octets.\<close>

definition commands_distinct :: "('x, 'w) nimble_lib \<Rightarrow> bool" where
  "commands_distinct L \<longleftrightarrow> distinct [NimbleSerializeCmdConnectResponse L,
     NimbleSerializeCmdServerOutBlobStream L, NimbleSerializeCmdGameStepResponse L,
     NimbleSerializeCmdJoinGameResponse L, NimbleSerializeCmdGameStateResponse L,
     NimbleSerializeCmdJoinGameOutOfParticipantSlotsResponse L]"

text \<open>Up to the dispatch, nothing but the sequence state and the latency changes.\<close>

lemma feed_as:
  fixes L :: "('x, 'w) nimble_lib"
  assumes sc: "scripted L inbox" and a: "arrives_as L x d x' cmd s"
    and c: "waiting c x st ch" "st \<noteq> NimbleClientStateDisconnected"
  obtains c1 w1 where "nimbleClientFeed L c d (size_of_int (int (length d))) w =
      do { (r, c2, i, w2) \<leftarrow> dispatchCommand L cmd c1 s w1; Some (r, c2, w2) }"
    and "waiting c1 x' st ch" "joinStateId c1 = joinStateId c" "joinedGameState c1 = joinedGameState c"
    and "remoteConnectionId c1 = remoteConnectionId c"
    and "arrivals inbox w1 = arrivals inbox w" "heap w1 = heap w"
    and "watch_of (quality c1) = watch_of (quality c)"
    and "authoritativeStepsFromServer c1 = authoritativeStepsFromServer c"
    and "authoritativePendingStepsFromServer c1 = authoritativePendingStepsFromServer c"
proof -
  let ?n = "of_nat (length d) :: size_t"
  obtain delta s1 where o: "orderedDatagramInLogicReceive L (orderedDatagramIn c) (in_stream L d ?n) = (delta, x', s1)"
    and delta: "0 < delta" and "case fldInStreamReadUInt16 L (fldInStreamCheckMarker L s1 0xdd) of (e, v, s2) \<Rightarrow>
      0 \<le> e \<and> snd (fldInStreamReadUInt8 L s2) = (cmd, s)"
    using a c(1) by (auto simp: arrives_as_def waiting_def split: prod.splits)
  then obtain e v s2 f where p: "fldInStreamReadUInt16 L (fldInStreamCheckMarker L s1 0xdd) = (e, v, s2)" "0 \<le> e"
    and q: "fldInStreamReadUInt8 L s2 = (f, cmd, s)"
    by (auto split: prod.splits) (metis prod.collapse)
  have n: "size_of_int (int (length d)) = ?n" "\<not> ?n < 1"
    using a by (simp_all add: arrives_as_def size_of_int_def word_less_nat_alt unat_of_nat
        take_bit_nat_eq_self Suc_le_eq)
  have st: "state c \<noteq> NimbleClientStateDisconnected" using c by (simp add: waiting_def)
  define c0 where "c0 = prepared_client L delta x' c"
  have c0: "waiting c0 x' st ch" "joinStateId c0 = joinStateId c" "joinedGameState c0 = joinedGameState c"
    "remoteConnectionId c0 = remoteConnectionId c" "watch_of (quality c0) = watch_of (quality c)"
    "authoritativeStepsFromServer c0 = authoritativeStepsFromServer c"
    "authoritativePendingStepsFromServer c0 = authoritativePendingStepsFromServer c"
    using c(1)
    by (simp_all add: c0_def prepared_client_def waiting_def noteDroppedDatagrams_def Let_def watch_of_def
        nimbleClientConnectionQualityDroppedDatagrams_def)
  obtain r c1 s3 w1 where pong: "nimbleClientReceivePong L c0 s1 w = Some (r, c1, s3, w1)"
    using pong_defined [of L c0 s1 w] by auto
  then have r: "r = 0" "s3 = s2" using p by (auto simp: nimbleClientReceivePong_def Let_def split: prod.splits)
  from pong have "waiting c1 x' st ch \<and> joinStateId c1 = joinStateId c \<and> joinedGameState c1 = joinedGameState c
    \<and> remoteConnectionId c1 = remoteConnectionId c
    \<and> arrivals inbox w1 = arrivals inbox w \<and> heap w1 = heap w
    \<and> watch_of (quality c1) = watch_of (quality c)
    \<and> authoritativeStepsFromServer c1 = authoritativeStepsFromServer c
    \<and> authoritativePendingStepsFromServer c1 = authoritativePendingStepsFromServer c"
    using c0 by (cases rule: pong_effect)
      (auto simp: waiting_def time_now_frame watch_of_def
        nimbleClientConnectionQualityGameStepLatency_def dest: scripted_time [OF sc])
  moreover have "nimbleClientFeed L c d (size_of_int (int (length d))) w =
      do { (r, c2, i, w2) \<leftarrow> dispatchCommand L cmd c1 s w1; Some (r, c2, w2) }"
    using r by (simp add: n(1) feed_accepted [OF o delta n(2) st] pong [unfolded c0_def] q)
  ultimately show thesis using that by blast
qed

section \<open>The sample library is scripted\<close>

text \<open>The sample library's datagrams by update: an empty one ends a batch.\<close>

fun sample_inbox :: "octets list \<Rightarrow> nat \<Rightarrow> octets list" where
  "sample_inbox [] = (\<lambda>i. [])"
| "sample_inbox ([] # ds) = case_nat [] (sample_inbox ds)"
| "sample_inbox ((b # d) # ds) = (sample_inbox ds)(0 := (b # d) # sample_inbox ds 0)"

lemma sample_scripted: "scripted sampleLib (\<lambda>(ds, t, p). sample_inbox ds)"
proof -
  have "case sample_receive x of (k, b, y) \<Rightarrow>
      (case (\<lambda>(ds, t, p). sample_inbox ds) x 0 of
         [] \<Rightarrow> k = 0 \<and> (\<lambda>(ds, t, p). sample_inbox ds) y = (\<lambda>i. (\<lambda>(ds, t, p). sample_inbox ds) x (Suc i))
       | d # ds \<Rightarrow> k = int (length d) \<and> b = d
           \<and> (\<lambda>(ds, t, p). sample_inbox ds) y = ((\<lambda>(ds, t, p). sample_inbox ds) x)(0 := ds))" for x :: sample_world
    by (cases x; cases "fst x" rule: sample_inbox.cases) (auto simp: sample_receive_def fun_eq_iff)
  then show ?thesis by (auto simp: scripted_def sample_fields)
qed

end
