(* ===== verification/ServedSession.thy ===== *)
theory ServedSession
  imports ScriptedServer
begin

text \<open>
  A synced client and a server that goes on serving it: in every update nothing arrives, or the
  next datagram, with authoritative steps. What the client then has in its step buffers, and that
  it stays synced as long as no 16 updates pass without steps.
\<close>

section \<open>A step response\<close>

text \<open>What is left to read behind the three numbers at the head of a step response.\<close>

definition behind_head :: "('x, 'w) nimble_lib \<Rightarrow> 'x FldInStream \<Rightarrow> 'x FldInStream" where
  "behind_head L s =
     (case fldInStreamReadUInt8 L s of (e1, n, s1) \<Rightarrow>
      case fldInStreamReadInt8 L s1 of (e2, d, s2) \<Rightarrow>
      case fldInStreamReadUInt32 L s2 of (e3, i, s3) \<Rightarrow> s3)"

text \<open>Its steps can be read, whatever steps are pending.\<close>

definition readable_steps :: "('x, 'w) nimble_lib \<Rightarrow> 'x FldInStream \<Rightarrow> bool" where
  "readable_steps L s \<longleftrightarrow> (\<forall>p. case nbsPendingStepsInSerialize L (behind_head L s) p of (n, s', p') \<Rightarrow>
     0 \<le> n \<and> n < 2147483648)"

text \<open>What it does to the authoritative and the pending steps.\<close>

definition deliver :: "('x, 'w) nimble_lib \<Rightarrow> 'x FldInStream \<Rightarrow> 'x NbsSteps \<times> 'x \<Rightarrow> 'x NbsSteps \<times> 'x" where
  "deliver L s = (\<lambda>(steps, pending).
     case nbsPendingStepsInSerialize L (behind_head L s) pending of (n, s', pending) \<Rightarrow>
     case nbsPendingStepsCopy L steps pending of (e, steps, pending) \<Rightarrow> (steps, pending))"

abbreviation step_buffers :: "'x NimbleClient \<Rightarrow> 'x NbsSteps \<times> 'x" where
  "step_buffers c \<equiv> (authoritativeStepsFromServer c, authoritativePendingStepsFromServer c)"

lemma head_fields:
  assumes "readStepResponseHead L c s = (c1, s1)"
  shows "s1 = behind_head L s" "step_buffers c1 = step_buffers c" "quality c1 = quality c"
    and "waiting c1 x st ch \<longleftrightarrow> waiting c x st ch"
proof -
  show "s1 = behind_head L s"
    using assms by (simp add: readStepResponseHead_def behind_head_def Let_def split: prod.splits)
  show "step_buffers c1 = step_buffers c" "quality c1 = quality c" "waiting c1 x st ch \<longleftrightarrow> waiting c x st ch"
    by (rule step_head_effect [of L c s]; simp add: assms waiting_def)+
qed

lemma on_step_response:
  assumes "readable_steps L s" "waiting c x st ch"
  shows "\<exists>n c1 s1. nimbleClientOnGameStepResponse L c s w = Some (n, c1, s1, w) \<and> 0 \<le> n \<and> n < 2147483648
    \<and> waiting c1 x st ch \<and> step_buffers c1 = deliver L s (step_buffers c)
    \<and> watch_of (quality c1) = (watch_of (quality c))\<lparr>silentStepTicks := 0\<rparr>"
proof -
  obtain c0 s0 where head: "readStepResponseHead L c s = (c0, s0)" by fastforce
  note c0 = head_fields [OF this]
  obtain n s' p where n: "nbsPendingStepsInSerialize L (behind_head L s) (authoritativePendingStepsFromServer c0)
      = (n, s', p)" by (cases "nbsPendingStepsInSerialize L (behind_head L s) (authoritativePendingStepsFromServer c0)") auto
  with assms(1) have "0 \<le> n" "n < 2147483648"
    unfolding readable_steps_def by (metis (mono_tags, lifting) case_prod_conv)+
  moreover obtain e a p' where "nbsPendingStepsCopy L (authoritativeStepsFromServer c0) p = (e, a, p')"
    by (cases "nbsPendingStepsCopy L (authoritativeStepsFromServer c0) p") auto
  ultimately show ?thesis
    using assms(2) c0(1,2,3) c0(4) [of x st ch] n
    by (auto simp: nimbleClientOnGameStepResponse_def head deliver_def waiting_def watch_of_def Let_def
        nimbleClientConnectionQualityReceivedAuthoritativeSteps_def)
qed

section \<open>An update of a served client\<close>

text \<open>The last steps came \<open>k\<close> ticks ago, and so did the last datagram; there was no trouble.\<close>

definition served :: "'x NimbleClient \<Rightarrow> 'x \<Rightarrow> nat \<Rightarrow> nat \<Rightarrow> bool" where
  "served c x ch k \<longleftrightarrow> waiting c x NimbleClientStateSynced ch
     \<and> unat (ticksWithoutIncomingDatagrams (quality c)) = k
     \<and> unat (ticksWithoutAuthoritativeStepsFromInSerialize (quality c)) = k"

lemma served_tick:
  assumes "served c x ch k" "k < 15" "watch_of q = watch_tick (watch_of (quality c))"
  shows "consideringDisconnectCounter q = 0" "unat (ticksWithoutIncomingDatagrams q) = Suc k"
    and "unat (ticksWithoutAuthoritativeStepsFromInSerialize q) = Suc k"
proof -
  let ?s = "watch_of (quality c)"
  have s: "unat (silentDatagramTicks ?s) = k" "unat (silentStepTicks ?s) = k" "consideringLevel ?s = 0"
    using assms(1) by (simp_all add: served_def waiting_def watch_of_def)
  note tick = watch_tick_calm [OF s(1,2) _ _ s(3), folded assms(3)]
  show "consideringDisconnectCounter q = 0" "unat (ticksWithoutIncomingDatagrams q) = Suc k"
    "unat (ticksWithoutAuthoritativeStepsFromInSerialize q) = Suc k"
    using tick(1-3) assms(2) by (simp_all add: watch_of_def)
qed

text \<open>What is left of the update after receiving.\<close>

lemma after_receive_served:
  assumes "scripted L inbox" "served c x ch k" "k < 15"
    and "updateAfterReceive L c now n w = (r, c', w')"
  shows "served c' x ch (Suc k)" "step_buffers c' = step_buffers c"
    and "arrivals inbox w' = arrivals inbox w" "joinedGameState c' = joinedGameState c" "heap w' = heap w"
    and "remoteConnectionId c' = remoteConnectionId c"
proof -
  have c: "waiting c x NimbleClientStateSynced ch" using assms(2) by (simp add: served_def)
  note calm = after_receive_calm [OF assms(1) c assms(4)]
  have "watch_of (quality c') = watch_tick (watch_of (quality c))" using calm(8) by (simp add: watch_of_update)
  note tick = served_tick [OF assms(2,3) this]
  from calm(11) [OF tick(1)] tick show "served c' x ch (Suc k)" by (simp add: served_def)
  show "step_buffers c' = step_buffers c" "arrivals inbox w' = arrivals inbox w"
    "joinedGameState c' = joinedGameState c" "heap w' = heap w" "remoteConnectionId c' = remoteConnectionId c"
    using calm by simp_all
qed

lemma ticked_buffers [simp]:
  "authoritativeStepsFromServer (ticked L c now) = authoritativeStepsFromServer c"
  "authoritativePendingStepsFromServer (ticked L c now) = authoritativePendingStepsFromServer c"
  "joinedGameState (ticked L c now) = joinedGameState c"
  by (simp_all add: ticked_def checkTickInterval_def Let_def)

lemma served_ticked [simp]: "served (ticked L c now) x ch k \<longleftrightarrow> served c x ch k"
  by (simp add: served_def)

lemma quiet_update:
  assumes "scripted L inbox" "served c x ch k" "k < 15" "arrivals inbox w 0 = []"
  shows "\<exists>r c' w'. nimbleClientUpdate L c now w = Some (r, c', w') \<and> served c' x ch (Suc k)
    \<and> step_buffers c' = step_buffers c \<and> joinedGameState c' = joinedGameState c \<and> heap w' = heap w
    \<and> remoteConnectionId c' = remoteConnectionId c
    \<and> arrivals inbox w' = (\<lambda>i. arrivals inbox w (Suc i))"
proof -
  obtain w1 where u: "nimbleClientUpdate L c now w = Some (updateAfterReceive L (ticked L c now) now 0 w1)"
    and w1: "arrivals inbox w1 = (\<lambda>i. arrivals inbox w (Suc i))" "heap w1 = heap w"
    using update_without_arrival [OF assms(1,4)] by metis
  obtain r c' w' where a: "updateAfterReceive L (ticked L c now) now 0 w1 = (r, c', w')"
    by (cases "updateAfterReceive L (ticked L c now) now 0 w1") auto
  have "served (ticked L c now) x ch k" using assms(2) by simp
  from after_receive_served [OF assms(1) this assms(3) a] u w1 show ?thesis by (simp add: a)
qed

lemma steps_update:
  assumes "scripted L inbox" "commands_distinct L" "served c x ch k" "arrivals inbox w 0 = [d]"
    and "arrives_as L x d x' (NimbleSerializeCmdGameStepResponse L) s" "readable_steps L s"
  shows "\<exists>r c' w'. nimbleClientUpdate L c now w = Some (r, c', w') \<and> served c' x' ch 1
    \<and> step_buffers c' = deliver L s (step_buffers c) \<and> joinedGameState c' = joinedGameState c
    \<and> heap w' = heap w \<and> remoteConnectionId c' = remoteConnectionId c
    \<and> arrivals inbox w' = (\<lambda>i. arrivals inbox w (Suc i))"
proof -
  let ?c = "count_in L (ticked L c now)"
  let ?P = "\<lambda>c1 h. waiting c1 x' NimbleClientStateSynced ch \<and> step_buffers c1 = deliver L s (step_buffers c)
    \<and> ticksWithoutAuthoritativeStepsFromInSerialize (quality c1) = 0
    \<and> joinedGameState c1 = joinedGameState c \<and> remoteConnectionId c1 = remoteConnectionId c \<and> h = heap w"
  have d: "d \<noteq> []" using assms(5) by (simp add: arrives_as_def)
  have c: "waiting ?c x NimbleClientStateSynced ch" "step_buffers ?c = step_buffers c"
    "watch_of (quality ?c) = watch_of (quality c)" "joinedGameState ?c = joinedGameState c"
    "remoteConnectionId ?c = remoteConnectionId c"
    using assms(3) by (simp_all add: served_def) (simp_all add: count_in_def)
  have "\<exists>e c1 w2. nimbleClientFeed L ?c d (size_of_int (int (length d))) w1 = Some (e, c1, w2)
      \<and> 0 \<le> e \<and> arrivals inbox w2 = arrivals inbox w1 \<and> ?P c1 (heap w2)" if "heap w1 = heap w" for w1
  proof -
    obtain c1 w2
      where f: "nimbleClientFeed L ?c d (size_of_int (int (length d))) w1 = do {
          (r, c2, i, w3) \<leftarrow> dispatchCommand L (NimbleSerializeCmdGameStepResponse L) c1 s w2; Some (r, c2, w3) }"
        and c1: "waiting c1 x' NimbleClientStateSynced ch" "joinedGameState c1 = joinedGameState ?c"
          "remoteConnectionId c1 = remoteConnectionId ?c"
          "watch_of (quality c1) = watch_of (quality ?c)" "step_buffers c1 = step_buffers ?c"
        and w2: "arrivals inbox w2 = arrivals inbox w1" "heap w2 = heap w1"
      by (rule feed_as [OF assms(1,5) c(1), of w1]) (simp, blast)
    obtain n c2 s2 where h: "nimbleClientOnGameStepResponse L c1 s w2 = Some (n, c2, s2, w2)"
        "0 \<le> n" "n < 2147483648"
      and c2: "waiting c2 x' NimbleClientStateSynced ch" "step_buffers c2 = deliver L s (step_buffers c1)"
        "watch_of (quality c2) = (watch_of (quality c1))\<lparr>silentStepTicks := 0\<rparr>"
      using on_step_response [OF assms(6) c1(1)] by blast
    have "joinedGameState c2 = joinedGameState c1" "remoteConnectionId c2 = remoteConnectionId c1"
      using h(1) by (cases rule: step_response_effect; simp)+
    then show ?thesis
      using assms(2) h c1 c2 c w2 that
      by (auto simp: f dispatchCommand_def commands_distinct_def watch_of_def)
  qed
  then obtain c1 w2 where u: "nimbleClientUpdate L c now w = Some (updateAfterReceive L (usable L c1) now 1 w2)"
    and w2: "arrivals inbox w2 = (\<lambda>i. arrivals inbox w (Suc i))" and c1: "?P c1 (heap w2)"
    by (rule update_with_arrival [OF assms(1,4) d, where P = ?P]) blast
  have s0: "served (usable L c1) x' ch 0"
    using c1 by (simp add: served_def) (simp add: nimbleClientConnectionQualityReceivedUsableDatagram_def)
  obtain r c' w' where a: "updateAfterReceive L (usable L c1) now 1 w2 = (r, c', w')"
    by (cases "updateAfterReceive L (usable L c1) now 1 w2") auto
  from after_receive_served [OF assms(1) s0 _ a] c1 u w2 show ?thesis by (simp add: a)
qed

section \<open>A whole session\<close>

text \<open>
  The batches of a session that starts in sequence state \<open>x\<close>, \<open>k\<close> ticks after the last steps: each
  is empty, or holds one step response, newer than the one before, with or
  without a gap. \<open>ss\<close> are the responses.
\<close>

inductive session ::
    "('x, 'w) nimble_lib \<Rightarrow> 'x \<Rightarrow> nat \<Rightarrow> octets list list \<Rightarrow> 'x FldInStream list \<Rightarrow> bool"
  for L :: "('x, 'w) nimble_lib" where
  over: "session L x k [] []"
| quiet: "k < 15 \<Longrightarrow> session L x (Suc k) bs ss \<Longrightarrow> session L x k ([] # bs) ss"
| steps: "arrives_as L x d x' (NimbleSerializeCmdGameStepResponse L) s \<Longrightarrow> readable_steps L s \<Longrightarrow>
    session L x' 1 bs ss \<Longrightarrow> session L x k ([d] # bs) (s # ss)"

inductive_cases session_cases: "session L x k (b # bs) ss"

text \<open>A realizer that is synced does nothing but update its client.\<close>

definition follows :: "'x NimbleClientRealize \<Rightarrow> bool" where
  "follows r \<longleftrightarrow> targetState r = NimbleClientRealizeStateSynced \<and> realizeState r = NimbleClientRealizeStateSynced"

lemma follows_client [simp]: "follows (r\<lparr>client := c\<rparr>) \<longleftrightarrow> follows r"
  by (simp add: follows_def)

lemma follows_update:
  assumes "client r = c" "follows r" "state c = NimbleClientStateSynced"
    and "nimbleClientUpdate L c now w = Some (k, c', w')"
  shows "nimbleClientRealizeUpdate L r now w = Some (r\<lparr>client := c'\<rparr>, w')"
  using assms by (simp add: nimbleClientRealizeUpdate_def follows_def)

lemma map_shift: "map f [0..<Suc n] = f 0 # map (\<lambda>i. f (Suc i)) [0..<n]"
  by (simp only: upt_conv_Cons [of 0 "Suc n"] map_Suc_upt [symmetric]) simp

lemma session_run:
  assumes L: "scripted L inbox" "commands_distinct L"
  shows "served c x ch k \<Longrightarrow> session L x k (map (arrivals inbox w) [0..<length ts]) ss \<Longrightarrow>
    \<exists>c' w' x' k'. client_run L ts c w = Some (c', w') \<and> served c' x' ch k'
      \<and> step_buffers c' = fold (deliver L) ss (step_buffers c)
      \<and> joinedGameState c' = joinedGameState c \<and> heap w' = heap w
      \<and> remoteConnectionId c' = remoteConnectionId c
      \<and> (\<forall>r. client r = c \<longrightarrow> follows r \<longrightarrow> realize_run L ts r w = Some (r\<lparr>client := c'\<rparr>, w'))"
proof (induction ts arbitrary: c w x k ss)
  case Nil
  then have "ss = []" by (auto elim: session.cases)
  with Nil show ?case by auto
next
  case (Cons t ts)
  let ?rest = "map (\<lambda>i. arrivals inbox w (Suc i)) [0..<length ts]"
  have ses: "session L x k (arrivals inbox w 0 # ?rest) ss" using Cons.prems(2) by (simp only: list.size map_shift add_0_right add_Suc_right)
  have synced: "state c = NimbleClientStateSynced" using Cons.prems(1) by (simp add: served_def waiting_def)
  from ses consider (quiet) "arrivals inbox w 0 = []" "k < 15" "session L x (Suc k) ?rest ss"
    | (steps) d x' s ss' where "arrivals inbox w 0 = [d]" "ss = s # ss'"
        "arrives_as L x d x' (NimbleSerializeCmdGameStepResponse L) s" "readable_steps L s" "session L x' 1 ?rest ss'"
    by (rule session_cases) simp_all
  then show ?case
  proof cases
    case quiet
    from quiet_update [OF L(1) Cons.prems(1) quiet(2,1), of t] obtain r c1 w1
      where u: "nimbleClientUpdate L c t w = Some (r, c1, w1)" "served c1 x ch (Suc k)"
        and same: "step_buffers c1 = step_buffers c" "joinedGameState c1 = joinedGameState c" "heap w1 = heap w"
          "remoteConnectionId c1 = remoteConnectionId c"
        and w1: "arrivals inbox w1 = (\<lambda>i. arrivals inbox w (Suc i))" by blast
    have "session L x (Suc k) (map (arrivals inbox w1) [0..<length ts]) ss" using quiet(3) by (simp add: w1)
    from Cons.IH [OF u(2) this] u(1) same follows_update [OF _ _ synced u(1)] show ?thesis by fastforce
  next
    case steps
    from steps_update [OF L Cons.prems(1) steps(1,3,4), of t] obtain r c1 w1
      where u: "nimbleClientUpdate L c t w = Some (r, c1, w1)" "served c1 x' ch 1"
        and same: "step_buffers c1 = deliver L s (step_buffers c)" "joinedGameState c1 = joinedGameState c"
          "heap w1 = heap w" "remoteConnectionId c1 = remoteConnectionId c"
        and w1: "arrivals inbox w1 = (\<lambda>i. arrivals inbox w (Suc i))" by blast
    have "session L x' 1 (map (arrivals inbox w1) [0..<length ts]) ss'" using steps(5) by (simp add: w1)
    from Cons.IH [OF u(2) this] u(1) same steps(2) follows_update [OF _ _ synced u(1)] show ?thesis by fastforce
  qed
qed

text \<open>
  C33. A served client stays synced and gets all steps. In a session in which the server's step
  responses arrive in order, whether or not datagrams are lost in between, at most one in an update
  and with at most 14 updates in between,
  the client stays synced over any number of updates, at whatever times and whether or not sending
  succeeds; no trouble is ever counted against the connection; the game state it joined with and
  the heap stay as they are; and its authoritative and pending steps are what all the responses
  leave, in the order in which they arrived, none of them lost and none handled twice.
\<close>

theorem served_client_stays_synced:
  assumes "scripted L inbox" "commands_distinct L"
    and "served c x ch k" "session L x k (map (arrivals inbox w) [0..<length ts]) ss"
  shows "\<exists>c' w'. client_run L ts c w = Some (c', w') \<and> state c' = NimbleClientStateSynced
    \<and> step_buffers c' = fold (deliver L) ss (step_buffers c)
    \<and> consideringDisconnectCounter (quality c') = 0
    \<and> joinedGameState c' = joinedGameState c \<and> heap w' = heap w"
  using session_run [OF assms] by (auto simp: served_def waiting_def)

theorem served_client_stays_synced_witness:
  "\<exists>c' w'. client_run sampleLib [16, 32, 48, 64, 80]
       ((sample_client NimbleClientStateSynced NimbleJoiningStateJoinedParticipant 0 0)
          \<lparr>quality := nimbleClientConnectionQualityReset sampleLib sample_quality\<rparr>)
       (sample_world [[], [1, 0, 50, 13, 3, 1, 0, 0, 0, 6, 9], [], [], [], [2, 0, 50, 13, 3, 1, 0, 0, 0, 7, 9], []])
       = Some (c', w')
     \<and> state c' = NimbleClientStateSynced \<and> expectedWriteId (authoritativeStepsFromServer c') = 2"
proof -
  let ?c = "(sample_client NimbleClientStateSynced NimbleJoiningStateJoinedParticipant 0 0)
    \<lparr>quality := nimbleClientConnectionQualityReset sampleLib sample_quality\<rparr>"
  let ?w = "sample_world [[], [1, 0, 50, 13, 3, 1, 0, 0, 0, 6, 9], [], [], [], [2, 0, 50, 13, 3, 1, 0, 0, 0, 7, 9], []]"
  let ?inbox = "\<lambda>(ds :: octets list, t :: int, p :: nat). sample_inbox ds"
  let ?s = "\<lambda>xs. \<lparr>inPos = 4, inSize = 11, readDebugInfo = True, inRest = xs\<rparr>"
  note read = arrives_as_def in_stream_def sample_fields sample_ordered_receive_def sample_read16_def sample_read8_def
  have d: "arrives_as sampleLib [0] [1, 0, 50, 13, 3, 1, 0, 0, 0, 6, 9] [1] (NimbleSerializeCmdGameStepResponse sampleLib)
      (?s [3, 1, 0, 0, 0, 6, 9])"
    "arrives_as sampleLib [1] [2, 0, 50, 13, 3, 1, 0, 0, 0, 7, 9] [2] (NimbleSerializeCmdGameStepResponse sampleLib)
      (?s [3, 1, 0, 0, 0, 7, 9])"
    by (simp_all add: read)
  have readable: "readable_steps sampleLib s" for s by (simp add: readable_steps_def sample_fields)
  have "session sampleLib [0] 0
      [[], [[1, 0, 50, 13, 3, 1, 0, 0, 0, 6, 9]], [], [], [[2, 0, 50, 13, 3, 1, 0, 0, 0, 7, 9]]]
      [?s [3, 1, 0, 0, 0, 6, 9], ?s [3, 1, 0, 0, 0, 7, 9]]"
    by (intro session.quiet session.steps [OF d(1) readable] session.steps [OF d(2) readable] session.over) simp_all
  then have ses: "session sampleLib [0] 0 (map (arrivals ?inbox ?w) [0..<length [16, 32, 48, 64, 80 :: int]])
      [?s [3, 1, 0, 0, 0, 6, 9], ?s [3, 1, 0, 0, 0, 7, 9]]"
    by (simp add: sample_world_def upt_rec eval_nat_numeral)
  have served: "served ?c [0] 0 0"
    by (simp add: served_def waiting_def sample_client_def nimbleClientConnectionQualityReset_def Let_def)
  have "commands_distinct sampleLib" by (simp add: commands_distinct_def sample_fields)
  from served_client_stays_synced [OF sample_scripted this served ses] obtain c' w'
    where "client_run sampleLib [16, 32, 48, 64, 80] ?c ?w = Some (c', w')" "state c' = NimbleClientStateSynced"
      and "step_buffers c' = fold (deliver sampleLib) [?s [3, 1, 0, 0, 0, 6, 9], ?s [3, 1, 0, 0, 0, 7, 9]] (step_buffers ?c)"
    by blast
  then show ?thesis
    by (intro exI conjI) (assumption | simp add: deliver_def behind_head_def sample_fields sample_client_def sample_steps_def
      split: prod.splits)+
qed

end
