(* ===== verification/Handshake.thy ===== *)
theory Handshake
  imports ServedSession
begin

text \<open>
  From joining to the synced state: what the server's three answers have to be, what the client
  does in the update in which each of them arrives, and the whole way, for any number of updates
  between the answers.
\<close>

section \<open>The answers\<close>

definition connect_answer ::
    "('x, 'w) nimble_lib \<Rightarrow> 'x FldInStream \<Rightarrow> u8 \<Rightarrow> bool" where
  "connect_answer L s remote \<longleftrightarrow>
     (case nimbleSerializeClientInConnectResponse L s of (e, resp, s') \<Rightarrow>
        0 \<le> e \<and> of_nat (connectionId resp) = remote)"

text \<open>The answer to the client's request, which has the number 1 after a reset.\<close>

definition state_answer ::
    "('x, 'w) nimble_lib \<Rightarrow> 'x FldInStream \<Rightarrow> u32 \<Rightarrow> nat \<Rightarrow> bool" where
  "state_answer L s sid ch \<longleftrightarrow>
     (case fldInStreamReadUInt8 L s of (e1, request, s1) \<Rightarrow>
      case nimbleSerializeInStateId L s1 of (e2, i, s2) \<Rightarrow>
      case nimbleSerializeInBlobStreamChannelId L s2 of (e3, c, s3) \<Rightarrow>
        0 \<le> e3 \<and> request = 1 \<and> i = sid \<and> c = ch)"

text \<open>Step buffers that have just been started at step \<open>sid\<close>.\<close>

definition steps_from :: "('x, 'w) nimble_lib \<Rightarrow> u32 \<Rightarrow> 'x NbsSteps \<times> 'x \<Rightarrow> bool" where
  "steps_from L sid b \<longleftrightarrow> (\<exists>a p. b = (nbsStepsReInit L a sid, nbsPendingStepsReset L p sid))"

text \<open>A part that completes the blob \<open>bs\<close> on its own, whatever the stream held before.\<close>

definition whole_state ::
    "('x, 'w) nimble_lib \<Rightarrow> 'x FldInStream \<Rightarrow> nat \<Rightarrow> octets \<Rightarrow> bool" where
  "whole_state L s ch bs \<longleftrightarrow>
     (case nimbleSerializeInBlobStreamChannelId L s of (e, c, s1) \<Rightarrow> c = ch
        \<and> (\<forall>l b. case blobStreamLogicInReceive L l b s1 of (e', l', b', s') \<Rightarrow>
             0 \<le> e' \<and> blobStreamInIsComplete L b' \<and> blob b' = bs \<and> unat (octetCount b') = length bs))"

section \<open>Feeding an answer\<close>

lemma feed_connect_answer:
  assumes "scripted L inbox" "arrives_as L x d x' (NimbleSerializeCmdConnectResponse L) s"
    and "connect_answer L s remote" "waiting c x NimbleClientStateRequestingConnect ch"
  shows "\<exists>e c1 w1. nimbleClientFeed L c d (size_of_int (int (length d))) w = Some (e, c1, w1) \<and> 0 \<le> e
    \<and> arrivals inbox w1 = arrivals inbox w \<and> waiting c1 x' NimbleClientStateConnected ch
    \<and> remoteConnectionId c1 = remote"
proof -
  obtain c1 w1
    where f: "nimbleClientFeed L c d (size_of_int (int (length d))) w =
        do { (r, c2, i, w2) \<leftarrow> dispatchCommand L (NimbleSerializeCmdConnectResponse L) c1 s w1; Some (r, c2, w2) }"
      and c1: "waiting c1 x' NimbleClientStateRequestingConnect ch" "arrivals inbox w1 = arrivals inbox w"
    by (rule feed_as [OF assms(1,2,4), of w]) (simp, blast)
  obtain e resp s' where rd: "nimbleSerializeClientInConnectResponse L s = (e, resp, s')" "0 \<le> e"
    "of_nat (connectionId resp) = remote"
    using assms(3) by (auto simp: connect_answer_def split: prod.splits)
  then show ?thesis
    using c1 by (simp add: f dispatchCommand_def nimbleClientOnConnectResponse_def waiting_def Let_def)
qed

lemma feed_state_answer:
  assumes "scripted L inbox" "commands_distinct L"
    and "arrives_as L x d x' (NimbleSerializeCmdGameStateResponse L) s"
    and "state_answer L s sid ch'" "ch' \<noteq> ch" "waiting c x NimbleClientStateJoiningRequestingState ch"
  shows "\<exists>e c1 w1. nimbleClientFeed L c d (size_of_int (int (length d))) w = Some (e, c1, w1) \<and> 0 \<le> e
    \<and> arrivals inbox w1 = arrivals inbox w \<and> waiting c1 x' NimbleClientStateJoiningDownloadingState ch'
    \<and> joinStateId c1 = sid \<and> remoteConnectionId c1 = remoteConnectionId c"
proof -
  obtain c1 w1
    where f: "nimbleClientFeed L c d (size_of_int (int (length d))) w =
        do { (r, c2, i, w2) \<leftarrow> dispatchCommand L (NimbleSerializeCmdGameStateResponse L) c1 s w1; Some (r, c2, w2) }"
      and c1: "waiting c1 x' NimbleClientStateJoiningRequestingState ch" "arrivals inbox w1 = arrivals inbox w"
        "remoteConnectionId c1 = remoteConnectionId c"
    by (rule feed_as [OF assms(1,3,6), of w]) (simp, blast)
  obtain e1 s1 e2 s2 e3 s3 where rd: "fldInStreamReadUInt8 L s = (e1, 1, s1)"
    "nimbleSerializeInStateId L s1 = (e2, sid, s2)"
    "nimbleSerializeInBlobStreamChannelId L s2 = (e3, ch', s3)" "0 \<le> e3"
    using assms(4) by (auto simp: state_answer_def split: prod.splits)
  then show ?thesis
    using c1 assms(2,5)
    by (auto simp: f dispatchCommand_def commands_distinct_def nimbleClientOnDownloadGameStateResponse_def
        waiting_def Let_def)
qed

lemma feed_whole_state:
  assumes "scripted L inbox" "commands_distinct L"
    and "arrives_as L x d x' (NimbleSerializeCmdServerOutBlobStream L) s"
    and "whole_state L s ch bs" "waiting c x NimbleClientStateJoiningDownloadingState ch"
  shows "\<exists>e c1 w1. nimbleClientFeed L c d (size_of_int (int (length d))) w = Some (e, c1, w1) \<and> 0 \<le> e
    \<and> arrivals inbox w1 = arrivals inbox w \<and> waiting c1 x' NimbleClientStateSynced ch
    \<and> stepId (joinedGameState c1) = joinStateId c
    \<and> unat (gameStateOctetCount (joinedGameState c1)) = length bs
    \<and> heap w1 (gameState (joinedGameState c1)) = Some bs \<and> remoteConnectionId c1 = remoteConnectionId c
    \<and> ticksWithoutAuthoritativeStepsFromInSerialize (quality c1) = 0
    \<and> steps_from L (joinStateId c) (step_buffers c1)"
proof -
  obtain c1 w1
    where f: "nimbleClientFeed L c d (size_of_int (int (length d))) w =
        do { (r, c2, i, w2) \<leftarrow> dispatchCommand L (NimbleSerializeCmdServerOutBlobStream L) c1 s w1; Some (r, c2, w2) }"
      and c1: "waiting c1 x' NimbleClientStateJoiningDownloadingState ch" "arrivals inbox w1 = arrivals inbox w"
        "joinStateId c1 = joinStateId c" "remoteConnectionId c1 = remoteConnectionId c"
    by (rule feed_as [OF assms(1,3,5), of w]) (simp, blast)
  obtain e s1 where rd: "nimbleSerializeInBlobStreamChannelId L s = (e, ch, s1)"
    using assms(4) by (auto simp: whole_state_def split: prod.splits)
  obtain e' l' b s' where b: "blobStreamLogicInReceive L (blobStreamInLogic c1) (blobStreamIn c1) s1 = (e', l', b, s')"
    by (cases "blobStreamLogicInReceive L (blobStreamInLogic c1) (blobStreamIn c1) s1") auto
  have "\<forall>l b. case blobStreamLogicInReceive L l b s1 of (e', l', b', s') \<Rightarrow>
      0 \<le> e' \<and> blobStreamInIsComplete L b' \<and> blob b' = bs \<and> unat (octetCount b') = length bs"
    using assms(4) by (simp add: whole_state_def rd)
  from this [rule_format, of "blobStreamInLogic c1" "blobStreamIn c1"]
  have blob: "0 \<le> e'" "blobStreamInIsComplete L b" "blob b = bs" "unat (octetCount b) = length bs"
    by (simp_all add: b)
  obtain p o' where al: "imprintAlloc L (blobStreamAllocator c1) (octetCount b) (outside w1) = (p, o')" by fastforce
  have "inbox o' = arrivals inbox w1" using assms(1) al by (auto simp: scripted_def) (metis snd_conv)
  then show ?thesis
    using c1 assms(2) blob
    by (auto simp: f dispatchCommand_def commands_distinct_def nimbleClientOnDownloadGameStatePart_def
        trySetInitialGameState_def rd b init_result al waiting_def steps_from_def Let_def)
qed

section \<open>The realizer's updates on the way\<close>

text \<open>A realizer that was told to join and has not been synced since its initialisation.\<close>

definition on_the_way ::
    "'x NimbleClientRealize \<Rightarrow> 'x \<Rightarrow> NimbleClientState \<Rightarrow> nat \<Rightarrow> bool" where
  "on_the_way r x st ch \<longleftrightarrow> targetState r = NimbleClientRealizeStateSynced
     \<and> realizeState r \<in> {NimbleClientRealizeStateInit, NimbleClientRealizeStateReInit}
     \<and> waiting (client r) x st ch"

lemma realize_run_append:
  "realize_run L (ts @ us) r w = do { (r, w) \<leftarrow> realize_run L ts r w; realize_run L us r w }"
proof (induction ts arbitrary: r w)
  case (Cons t ts)
  then show ?case by (cases "nimbleClientRealizeUpdate L r t w") (simp_all add: case_prod_beta)
qed simp

lemma realize_run_through:
  "realize_run L ts r w = Some (r1, w1) \<Longrightarrow> realize_run L us r1 w1 = z \<Longrightarrow>
     realize_run L (ts @ us) r w = z"
  by (simp add: realize_run_append)

lemma realize_update_on_the_way:
  assumes "on_the_way r x st ch" "st \<noteq> NimbleClientStateDisconnected"
    and "nimbleClientUpdate L (client r) now w = Some (e, c', w')"
  shows "nimbleClientRealizeUpdate L r now w = Some (steerToSynced (r\<lparr>client := c'\<rparr>), w')"
  using assms by (auto simp: nimbleClientRealizeUpdate_def on_the_way_def waiting_def steer_def)

text \<open>What one update of the realizer leads to, without and with an arrival.\<close>

lemma quiet_step:
  assumes "scripted L inbox" "on_the_way r x st ch" "arrivals inbox w 0 = []"
    and st: "st \<in> {NimbleClientStateIdle, NimbleClientStateRequestingConnect,
      NimbleClientStateJoiningRequestingState, NimbleClientStateJoiningDownloadingState}"
  shows "\<exists>r' w'. nimbleClientRealizeUpdate L r now w = Some (r', w')
    \<and> on_the_way r' x (if st = NimbleClientStateIdle then NimbleClientStateRequestingConnect else st) ch
    \<and> joinStateId (client r') = joinStateId (client r)
    \<and> remoteConnectionId (client r') = remoteConnectionId (client r)
    \<and> arrivals inbox w' = (\<lambda>i. arrivals inbox w (Suc i))"
proof -
  let ?c = "client r"
  obtain w1 where u: "nimbleClientUpdate L ?c now w = Some (updateAfterReceive L (ticked L ?c now) now 0 w1)"
    and w1: "arrivals inbox w1 = (\<lambda>i. arrivals inbox w (Suc i))"
    using update_without_arrival [OF assms(1,3)] by metis
  obtain k c' w' where a: "updateAfterReceive L (ticked L ?c now) now 0 w1 = (k, c', w')"
    by (cases "updateAfterReceive L (ticked L ?c now) now 0 w1") auto
  have wt: "waiting (ticked L ?c now) x st ch" using assms(2) by (simp add: on_the_way_def)
  note calm = after_receive_calm [OF assms(1) wt a]
  have "nimbleClientRealizeUpdate L r now w = Some (steerToSynced (r\<lparr>client := c'\<rparr>), w')"
    using st by (intro realize_update_on_the_way [OF assms(2)]) (auto simp: u a)
  moreover have "waiting c' x st ch" using st by (intro calm(1)) auto
  ultimately show ?thesis
    using st calm(4,5,6) w1 assms(2)
    by (auto simp: on_the_way_def steerToSynced_def waiting_def)
qed

lemma arrival_step:
  assumes "scripted L inbox" "on_the_way r x st ch" "arrivals inbox w 0 = [d]" "d \<noteq> []"
    and st: "st \<noteq> NimbleClientStateDisconnected"
    and feed: "\<And>c w1. waiting c x st ch \<Longrightarrow> joinStateId c = joinStateId (client r) \<Longrightarrow>
      remoteConnectionId c = remoteConnectionId (client r) \<Longrightarrow>
      \<exists>e c1 w2. nimbleClientFeed L c d (size_of_int (int (length d))) w1 = Some (e, c1, w2)
        \<and> 0 \<le> e \<and> arrivals inbox w2 = arrivals inbox w1 \<and> waiting c1 x' st' ch' \<and> P c1 (heap w2)"
  obtains c1 c' k w2 w' where "nimbleClientRealizeUpdate L r now w = Some (steerToSynced (r\<lparr>client := c'\<rparr>), w')"
    and "P c1 (heap w2)" "waiting (usable L c1) x' st' ch'"
    and "updateAfterReceive L (usable L c1) now 1 w2 = (k, c', w')"
    and "arrivals inbox w' = (\<lambda>i. arrivals inbox w (Suc i))"
proof -
  let ?c = "count_in L (ticked L (client r) now)"
  have c: "waiting ?c x st ch" "joinStateId ?c = joinStateId (client r)"
    "remoteConnectionId ?c = remoteConnectionId (client r)"
    using assms(2) by (simp_all add: on_the_way_def)
  have "\<exists>e c1 w2. nimbleClientFeed L ?c d (size_of_int (int (length d))) w1 = Some (e, c1, w2)
        \<and> 0 \<le> e \<and> arrivals inbox w2 = arrivals inbox w1 \<and> (waiting c1 x' st' ch' \<and> P c1 (heap w2))" for w1
    using feed [OF c] by blast
  then obtain c1 w2 where u: "nimbleClientUpdate L (client r) now w = Some (updateAfterReceive L (usable L c1) now 1 w2)"
    and w2: "arrivals inbox w2 = (\<lambda>i. arrivals inbox w (Suc i))" and P: "waiting c1 x' st' ch'" "P c1 (heap w2)"
    by (rule update_with_arrival [OF assms(1,3,4), where P = "\<lambda>c1 h. waiting c1 x' st' ch' \<and> P c1 h"]) blast
  obtain k c' w' where a: "updateAfterReceive L (usable L c1) now 1 w2 = (k, c', w')"
    by (cases "updateAfterReceive L (usable L c1) now 1 w2") auto
  from P(1) have wt: "waiting (usable L c1) x' st' ch'" by simp
  have "nimbleClientRealizeUpdate L r now w = Some (steerToSynced (r\<lparr>client := c'\<rparr>), w')"
    by (intro realize_update_on_the_way [OF assms(2) st]) (simp add: u a)
  then show thesis
    using that [OF _ P(2) wt a] after_receive_calm(6) [OF assms(1) wt a] w2 by simp
qed

text \<open>Any number of updates without an arrival.\<close>

lemma quiet_steps:
  assumes "scripted L inbox"
    and st: "st \<in> {NimbleClientStateRequestingConnect, NimbleClientStateJoiningRequestingState,
      NimbleClientStateJoiningDownloadingState}"
  shows "on_the_way r x st ch \<Longrightarrow> \<forall>i < length ts. arrivals inbox w i = [] \<Longrightarrow>
    \<exists>r' w'. realize_run L ts r w = Some (r', w') \<and> on_the_way r' x st ch
      \<and> joinStateId (client r') = joinStateId (client r)
      \<and> remoteConnectionId (client r') = remoteConnectionId (client r)
      \<and> arrivals inbox w' = (\<lambda>i. arrivals inbox w (length ts + i))"
proof (induction ts arbitrary: r w)
  case (Cons t ts)
  have "arrivals inbox w 0 = []" using Cons.prems(2) by simp
  with quiet_step [OF assms(1) Cons.prems(1), of w t] st obtain r1 w1
    where u: "nimbleClientRealizeUpdate L r t w = Some (r1, w1)" "on_the_way r1 x st ch"
      and same: "joinStateId (client r1) = joinStateId (client r)"
        "remoteConnectionId (client r1) = remoteConnectionId (client r)"
        "arrivals inbox w1 = (\<lambda>i. arrivals inbox w (Suc i))" by auto
  have "\<forall>i < length ts. arrivals inbox w1 i = []" using Cons.prems(2) by (auto simp: same)
  from Cons.IH [OF u(2) this] u(1) same show ?case by auto
qed simp

section \<open>The arrival of each answer\<close>

lemma connect_arrives:
  assumes "scripted L inbox" "on_the_way r x NimbleClientStateRequestingConnect ch"
    and "arrivals inbox w 0 = [d]" "arrives_as L x d x' (NimbleSerializeCmdConnectResponse L) s"
    and "connect_answer L s remote"
  shows "\<exists>r' w'. nimbleClientRealizeUpdate L r now w = Some (r', w')
    \<and> on_the_way r' x' NimbleClientStateJoiningRequestingState ch
    \<and> remoteConnectionId (client r') = remote
    \<and> arrivals inbox w' = (\<lambda>i. arrivals inbox w (Suc i))"
proof -
  have d: "d \<noteq> []" using assms(4) by (simp add: arrives_as_def)
  obtain c1 c' k w2 w' where u: "nimbleClientRealizeUpdate L r now w = Some (steerToSynced (r\<lparr>client := c'\<rparr>), w')"
    and c1: "remoteConnectionId c1 = remote" "waiting (usable L c1) x' NimbleClientStateConnected ch"
    and a: "updateAfterReceive L (usable L c1) now 1 w2 = (k, c', w')"
    and w': "arrivals inbox w' = (\<lambda>i. arrivals inbox w (Suc i))"
    by (rule arrival_step [OF assms(1-3) d, where P = "\<lambda>c h. remoteConnectionId c = remote",
          OF _ feed_connect_answer [OF assms(1,4,5)]]) (simp, blast)
  have "waiting c' x' NimbleClientStateConnected ch" "remoteConnectionId c' = remote"
    using after_receive_calm(1,4) [OF assms(1) c1(2) a] c1(1) by simp_all
  then have "on_the_way (steerToSynced (r\<lparr>client := c'\<rparr>)) x' NimbleClientStateJoiningRequestingState ch
      \<and> remoteConnectionId (client (steerToSynced (r\<lparr>client := c'\<rparr>))) = remote"
    using assms(2) by (simp add: on_the_way_def waiting_def steerToSynced_def)
  with u w' show ?thesis by blast
qed

lemma state_arrives:
  assumes "scripted L inbox" "commands_distinct L"
    and "on_the_way r x NimbleClientStateJoiningRequestingState ch"
    and "arrivals inbox w 0 = [d]" "arrives_as L x d x' (NimbleSerializeCmdGameStateResponse L) s"
    and "state_answer L s sid ch'" "ch' \<noteq> ch"
  shows "\<exists>r' w'. nimbleClientRealizeUpdate L r now w = Some (r', w')
    \<and> on_the_way r' x' NimbleClientStateJoiningDownloadingState ch'
    \<and> joinStateId (client r') = sid \<and> remoteConnectionId (client r') = remoteConnectionId (client r)
    \<and> arrivals inbox w' = (\<lambda>i. arrivals inbox w (Suc i))"
proof -
  let ?P = "\<lambda>c (h :: addr \<rightharpoonup> octets). joinStateId c = sid \<and> remoteConnectionId c = remoteConnectionId (client r)"
  have d: "d \<noteq> []" using assms(5) by (simp add: arrives_as_def)
  obtain c1 c' k w2 w' where u: "nimbleClientRealizeUpdate L r now w = Some (steerToSynced (r\<lparr>client := c'\<rparr>), w')"
    and c1: "?P c1 (heap w2)" "waiting (usable L c1) x' NimbleClientStateJoiningDownloadingState ch'"
    and a: "updateAfterReceive L (usable L c1) now 1 w2 = (k, c', w')"
    and w': "arrivals inbox w' = (\<lambda>i. arrivals inbox w (Suc i))"
  proof (rule arrival_step [OF assms(1,3,4) d, where P = ?P and now = now])
    fix c and w1 :: "'b world"
    assume "waiting c x NimbleClientStateJoiningRequestingState ch"
      "remoteConnectionId c = remoteConnectionId (client r)"
    with feed_state_answer [OF assms(1,2,5,6,7), of c w1]
    show "\<exists>e c1 w2. nimbleClientFeed L c d (size_of_int (int (length d))) w1 = Some (e, c1, w2) \<and> 0 \<le> e
        \<and> arrivals inbox w2 = arrivals inbox w1 \<and> waiting c1 x' NimbleClientStateJoiningDownloadingState ch'
        \<and> ?P c1 (heap w2)" by auto
  qed (simp, blast)
  have "waiting c' x' NimbleClientStateJoiningDownloadingState ch'" "joinStateId c' = sid"
    "remoteConnectionId c' = remoteConnectionId (client r)"
    using after_receive_calm(1,4,5) [OF assms(1) c1(2) a] c1(1) by simp_all
  then have "on_the_way (steerToSynced (r\<lparr>client := c'\<rparr>)) x' NimbleClientStateJoiningDownloadingState ch'
      \<and> joinStateId (client (steerToSynced (r\<lparr>client := c'\<rparr>))) = sid
      \<and> remoteConnectionId (client (steerToSynced (r\<lparr>client := c'\<rparr>))) = remoteConnectionId (client r)"
    using assms(3) by (simp add: on_the_way_def waiting_def steerToSynced_def)
  with u w' show ?thesis by blast
qed

text \<open>What holds of a realizer that is synced with the state \<open>bs\<close> of step \<open>sid\<close>.\<close>

definition synced_with ::
    "'x NimbleClientRealize \<Rightarrow> (addr \<rightharpoonup> octets) \<Rightarrow> u32 \<Rightarrow> octets \<Rightarrow> bool" where
  "synced_with r h sid bs \<longleftrightarrow> realizeState r = NimbleClientRealizeStateSynced
     \<and> state (client r) = NimbleClientStateSynced
     \<and> stepId (joinedGameState (client r)) = sid
     \<and> unat (gameStateOctetCount (joinedGameState (client r))) = length bs
     \<and> h (gameState (joinedGameState (client r))) = Some bs"

text \<open>A realizer that has just been synced in this way, and waits for steps after \<open>x\<close>.\<close>

definition entered ::
    "('x, 'w) nimble_lib \<Rightarrow> 'x NimbleClientRealize \<Rightarrow> (addr \<rightharpoonup> octets) \<Rightarrow> 'x \<Rightarrow> nat \<Rightarrow> u32 \<Rightarrow> octets \<Rightarrow> bool" where
  "entered L r h x ch sid bs \<longleftrightarrow> synced_with r h sid bs \<and> follows r \<and> served (client r) x ch 1
     \<and> steps_from L sid (step_buffers (client r))"

lemma whole_arrives:
  assumes "scripted L inbox" "commands_distinct L"
    and "on_the_way r x NimbleClientStateJoiningDownloadingState ch"
    and "arrivals inbox w 0 = [d]" "arrives_as L x d x' (NimbleSerializeCmdServerOutBlobStream L) s"
    and "whole_state L s ch bs"
  shows "\<exists>r' w'. nimbleClientRealizeUpdate L r now w = Some (r', w')
    \<and> entered L r' (heap w') x' ch (joinStateId (client r)) bs
    \<and> remoteConnectionId (client r') = remoteConnectionId (client r)
    \<and> arrivals inbox w' = (\<lambda>i. arrivals inbox w (Suc i))"
proof -
  let ?P = "\<lambda>c (h :: addr \<rightharpoonup> octets). stepId (joinedGameState c) = joinStateId (client r)
    \<and> unat (gameStateOctetCount (joinedGameState c)) = length bs
    \<and> h (gameState (joinedGameState c)) = Some bs \<and> remoteConnectionId c = remoteConnectionId (client r)
    \<and> ticksWithoutAuthoritativeStepsFromInSerialize (quality c) = 0
    \<and> steps_from L (joinStateId (client r)) (step_buffers c)"
  have d: "d \<noteq> []" using assms(5) by (simp add: arrives_as_def)
  obtain c1 c' k w2 w' where u: "nimbleClientRealizeUpdate L r now w = Some (steerToSynced (r\<lparr>client := c'\<rparr>), w')"
    and c1: "?P c1 (heap w2)" "waiting (usable L c1) x' NimbleClientStateSynced ch"
    and a: "updateAfterReceive L (usable L c1) now 1 w2 = (k, c', w')"
    and w': "arrivals inbox w' = (\<lambda>i. arrivals inbox w (Suc i))"
  proof (rule arrival_step [OF assms(1,3,4) d, where P = ?P and now = now])
    fix c and w1 :: "'b world"
    assume "waiting c x NimbleClientStateJoiningDownloadingState ch"
      "joinStateId c = joinStateId (client r)" "remoteConnectionId c = remoteConnectionId (client r)"
    with feed_whole_state [OF assms(1,2,5,6), of c w1]
    show "\<exists>e c1 w2. nimbleClientFeed L c d (size_of_int (int (length d))) w1 = Some (e, c1, w2) \<and> 0 \<le> e
        \<and> arrivals inbox w2 = arrivals inbox w1 \<and> waiting c1 x' NimbleClientStateSynced ch
        \<and> ?P c1 (heap w2)" by auto
  qed (simp, blast)
  have s0: "served (usable L c1) x' ch 0"
    using c1 by (simp add: served_def) (simp add: nimbleClientConnectionQualityReceivedUsableDatagram_def)
  note after = after_receive_served [OF assms(1) s0 _ a]
  let ?r = "steerToSynced (r\<lparr>client := c'\<rparr>)"
  have st: "state c' = NimbleClientStateSynced" using after(1) by (simp add: served_def waiting_def)
  then have r': "?r = r\<lparr>realizeState := NimbleClientRealizeStateSynced, client := c'\<lparr>waitTime := 0\<rparr>\<rparr>"
    by (simp add: steerToSynced_def)
  have "served (c'\<lparr>waitTime := 0\<rparr>) x' ch 1" using after(1) by (simp add: served_def)
  then have "entered L ?r (heap w') x' ch (joinStateId (client r)) bs"
    using c1(1) after(2,4,5) st assms(3) by (simp add: r' entered_def synced_with_def follows_def on_the_way_def)
  with u w' c1(1) after(6) show ?thesis by (simp add: r')
qed

section \<open>A wait and the answer that ends it\<close>

lemma connect_phase:
  assumes "scripted L inbox" "on_the_way r x NimbleClientStateRequestingConnect ch"
    and "\<forall>i < length a. arrivals inbox w i = []" "arrivals inbox w (length a) = [d]"
    and "arrives_as L x d x' (NimbleSerializeCmdConnectResponse L) s" "connect_answer L s remote"
  shows "\<exists>r' w'. realize_run L (a @ [t]) r w = Some (r', w')
    \<and> on_the_way r' x' NimbleClientStateJoiningRequestingState ch \<and> remoteConnectionId (client r') = remote
    \<and> arrivals inbox w' = (\<lambda>i. arrivals inbox w (Suc (length a) + i))"
proof -
  from quiet_steps [OF assms(1) _ assms(2,3)] obtain r1 w1
    where u: "realize_run L a r w = Some (r1, w1)" "on_the_way r1 x NimbleClientStateRequestingConnect ch"
      and w1: "arrivals inbox w1 = (\<lambda>i. arrivals inbox w (length a + i))" by auto
  with connect_arrives [OF assms(1) u(2) _ assms(5,6), of w1 t] assms(4) show ?thesis
    by (auto simp: realize_run_append)
qed

lemma state_phase:
  assumes "scripted L inbox" "commands_distinct L" "on_the_way r x NimbleClientStateJoiningRequestingState ch"
    and "\<forall>i < length a. arrivals inbox w i = []" "arrivals inbox w (length a) = [d]"
    and "arrives_as L x d x' (NimbleSerializeCmdGameStateResponse L) s" "state_answer L s sid ch'" "ch' \<noteq> ch"
  shows "\<exists>r' w'. realize_run L (a @ [t]) r w = Some (r', w')
    \<and> on_the_way r' x' NimbleClientStateJoiningDownloadingState ch' \<and> joinStateId (client r') = sid
    \<and> remoteConnectionId (client r') = remoteConnectionId (client r)
    \<and> arrivals inbox w' = (\<lambda>i. arrivals inbox w (Suc (length a) + i))"
proof -
  from quiet_steps [OF assms(1) _ assms(3,4)] obtain r1 w1
    where u: "realize_run L a r w = Some (r1, w1)" "on_the_way r1 x NimbleClientStateJoiningRequestingState ch"
      and w1: "arrivals inbox w1 = (\<lambda>i. arrivals inbox w (length a + i))"
        "remoteConnectionId (client r1) = remoteConnectionId (client r)" by auto
  with state_arrives [OF assms(1,2) u(2) _ assms(6-8), of w1 t] assms(5) show ?thesis
    by (auto simp: realize_run_append)
qed

lemma whole_phase:
  assumes "scripted L inbox" "commands_distinct L" "on_the_way r x NimbleClientStateJoiningDownloadingState ch"
    and "\<forall>i < length a. arrivals inbox w i = []" "arrivals inbox w (length a) = [d]"
    and "arrives_as L x d x' (NimbleSerializeCmdServerOutBlobStream L) s" "whole_state L s ch bs"
  shows "\<exists>r' w'. realize_run L (a @ [t]) r w = Some (r', w')
    \<and> entered L r' (heap w') x' ch (joinStateId (client r)) bs
    \<and> remoteConnectionId (client r') = remoteConnectionId (client r)
    \<and> arrivals inbox w' = (\<lambda>i. arrivals inbox w (Suc (length a) + i))"
proof -
  from quiet_steps [OF assms(1) _ assms(3,4)] obtain r1 w1
    where u: "realize_run L a r w = Some (r1, w1)" "on_the_way r1 x NimbleClientStateJoiningDownloadingState ch"
      and w1: "arrivals inbox w1 = (\<lambda>i. arrivals inbox w (length a + i))"
        "joinStateId (client r1) = joinStateId (client r)"
        "remoteConnectionId (client r1) = remoteConnectionId (client r)" by auto
  with whole_arrives [OF assms(1,2) u(2) _ assms(6,7), of w1 t] assms(5) show ?thesis
    by (auto simp: realize_run_append)
qed

section \<open>The whole way\<close>

lemma reset_request_id:
  assumes "nimbleClientReset L c w = Some (c', w')"
  shows "downloadStateClientRequestId c' = 1"
  using assms by (auto simp: nimbleClientReset_def Let_def split: prod.splits)

lemma joined_on_the_way:
  assumes "nimbleClientRealizeInit L r0 s w0 = Some (r, w)"
  shows "on_the_way (nimbleClientRealizeJoinGame r q) (orderedDatagramIn (client r))
    NimbleClientStateIdle (joinStateChannel (client r))"
proof -
  obtain e c where i: "nimbleClientInit L (client r0) (settingsMemory s) (settingsBlobMemory s)
      (settingsTransport s) (settingsMaximumSingleParticipantStepOctetCount s)
      (settingsMaximumNumberOfParticipants s) (settingsApplicationVersion s)
      (settingsWantsDebugStreams s) w0 = Some (e, c, w)"
    and r: "client r = c" "realizeState r = NimbleClientRealizeStateInit"
    using assms by (auto simp: nimbleClientRealizeInit_def Let_def)
  have "downloadStateClientRequestId c = 1"
    using i reset_request_id by (force simp: nimbleClientInit_def nimbleClientReInit_def Let_def split: prod.splits)
  moreover have "reason (quality c) = KeepConnection" "consideringDisconnectCounter (quality c) = 0"
    "ticksWithoutAuthoritativeStepsFromInSerialize (quality c) = 0"
    using init_SomeD(8) [OF i] by (simp_all add: watch_of_def fresh_watch_def)
  ultimately show ?thesis
    using init_SomeD(4) [OF i] r
    by (simp add: on_the_way_def waiting_def nimbleClientRealizeJoinGame_def Let_def)
qed

lemma handshake:
  assumes init: "nimbleClientRealizeInit L r0 s w0 = Some (r, w)"
    and L: "scripted L inbox" "commands_distinct L"
    and n: "0 < n1" "n1 < n2" "n2 < n3"
    and arr: "\<forall>i \<le> n3. arrivals inbox w i =
      (if i = n1 then [d1] else if i = n2 then [d2] else if i = n3 then [d3] else [])"
    and d1: "arrives_as L (orderedDatagramIn (client r)) d1 x1 (NimbleSerializeCmdConnectResponse L) s1"
      "connect_answer L s1 remote"
    and d2: "arrives_as L x1 d2 x2 (NimbleSerializeCmdGameStateResponse L) s2"
      "state_answer L s2 sid ch" "ch \<noteq> joinStateChannel (client r)"
    and d3: "arrives_as L x2 d3 x3 (NimbleSerializeCmdServerOutBlobStream L) s3" "whole_state L s3 ch bs"
    and ts: "length ts = Suc n3"
  shows "\<exists>r' w'. realize_run L ts (nimbleClientRealizeJoinGame r q) w = Some (r', w')
    \<and> entered L r' (heap w') x3 ch sid bs \<and> remoteConnectionId (client r') = remote
    \<and> arrivals inbox w' = (\<lambda>i. arrivals inbox w (Suc n3 + i))"
proof -
  note cut = id_take_nth_drop [where 'a = int]
  define u where "u = tl ts"
  define v where "v = drop n1 u"
  define z where "z = drop (n2 - n1) v"
  define a where "a = take (n1 - 1) u"
  define b where "b = take (n2 - n1 - 1) v"
  define c where "c = take (n3 - n2 - 1) z"
  have len: "length u = n3" "length v = n3 - n1" "length z = n3 - n2"
    "length a = n1 - 1" "length b = n2 - n1 - 1" "length c = n3 - n2 - 1"
    using ts n by (simp_all add: u_def v_def z_def a_def b_def c_def)
  have split: "ts = ts ! 0 # (a @ [u ! (n1 - 1)]) @ (b @ [v ! (n2 - n1 - 1)]) @ (c @ [z ! (n3 - n2 - 1)])"
    using cut [of 0 ts] cut [of "n1 - 1" u] cut [of "n2 - n1 - 1" v] cut [of "n3 - n2 - 1" z] ts n len
    by (simp add: u_def v_def z_def a_def b_def c_def drop_Suc)
  let ?j = "nimbleClientRealizeJoinGame r q" and ?at = "arrivals inbox" and ?ch = "joinStateChannel (client r)"
  from quiet_step [OF L(1) joined_on_the_way [OF init, of q], of w "ts ! 0"] arr n obtain r1 w1
    where u1: "nimbleClientRealizeUpdate L ?j (ts ! 0) w = Some (r1, w1)"
      and r1: "on_the_way r1 (orderedDatagramIn (client r)) NimbleClientStateRequestingConnect ?ch"
      and w1: "?at w1 = (\<lambda>i. ?at w (Suc i))" by auto
  have "\<forall>i < length a. ?at w1 i = []" "?at w1 (length a) = [d1]" using arr n by (auto simp: w1 len)
  from connect_phase [OF L(1) r1 this d1, of "u ! (n1 - 1)"] n obtain r2 w2
    where u2: "realize_run L (a @ [u ! (n1 - 1)]) r1 w1 = Some (r2, w2)"
      and r2: "on_the_way r2 x1 NimbleClientStateJoiningRequestingState ?ch" "remoteConnectionId (client r2) = remote"
      and w2: "?at w2 = (\<lambda>i. ?at w (Suc n1 + i))" by (auto simp: w1 len)
  have "\<forall>i < length b. ?at w2 i = []" "?at w2 (length b) = [d2]" using arr n by (auto simp: w2 len)
  from state_phase [OF L r2(1) this d2, of "v ! (n2 - n1 - 1)"] n r2(2) obtain r3 w3
    where u3: "realize_run L (b @ [v ! (n2 - n1 - 1)]) r2 w2 = Some (r3, w3)"
      and r3: "on_the_way r3 x2 NimbleClientStateJoiningDownloadingState ch" "joinStateId (client r3) = sid"
        "remoteConnectionId (client r3) = remote"
      and w3: "?at w3 = (\<lambda>i. ?at w (Suc n2 + i))" by (auto simp: w2 len)
  have "\<forall>i < length c. ?at w3 i = []" "?at w3 (length c) = [d3]" using arr n by (auto simp: w3 len)
  from whole_phase [OF L r3(1) this d3, of "z ! (n3 - n2 - 1)"] n r3 obtain r4 w4
    where u4: "realize_run L (c @ [z ! (n3 - n2 - 1)]) r3 w3 = Some (r4, w4)"
      and r4: "entered L r4 (heap w4) x3 ch sid bs" "remoteConnectionId (client r4) = remote"
      and w4: "?at w4 = (\<lambda>i. ?at w (Suc n3 + i))" by (auto simp: w3 len)
  have "realize_run L ts ?j w = Some (r4, w4)"
    using u1 realize_run_through [OF u2 realize_run_through [OF u3 u4]]
    by (subst split) (simp only: realize_run.simps Option.bind.simps prod.case)
  with r4 w4 show ?thesis by blast
qed

text \<open>
  Joining reaches the synced state, and a served client stays there. An initialised realizer
  is told to join. The server answers the connect request in update \<open>n1\<close> (counted from 0), the
  request for the state in update \<open>n2\<close> and sends the whole state in update \<open>n3\<close>; after that come
  step responses, at most one in an update and with at most 14 updates in between. Each of
  these datagrams is newer than the one before, others may be lost. Then, however many updates lie
  between the answers, at whatever times, and whether or not sending succeeds,
  the realizer is synced at the end of update \<open>n3\<close> and at the end of every update after it: it has
  the connection id that it was given, a game state with exactly the octets and the step id that the
  server sent, no trouble counted against its connection, and step buffers that were started at that
  step and then took in all the step responses, in their order.
\<close>

theorem join_reaches_lasting_session:
  assumes "nimbleClientRealizeInit L r0 s w0 = Some (r, w)"
    and "scripted L inbox" "commands_distinct L"
    and "0 < n1" "n1 < n2" "n2 < n3"
    and "\<forall>i \<le> n3. arrivals inbox w i =
      (if i = n1 then [d1] else if i = n2 then [d2] else if i = n3 then [d3] else [])"
    and "arrives_as L (orderedDatagramIn (client r)) d1 x1 (NimbleSerializeCmdConnectResponse L) s1"
      "connect_answer L s1 remote"
    and "arrives_as L x1 d2 x2 (NimbleSerializeCmdGameStateResponse L) s2"
      "state_answer L s2 sid ch" "ch \<noteq> joinStateChannel (client r)"
    and "arrives_as L x2 d3 x3 (NimbleSerializeCmdServerOutBlobStream L) s3" "whole_state L s3 ch bs"
    and "session L x3 1 (map (\<lambda>i. arrivals inbox w (Suc n3 + i)) [0..<m]) responses"
    and "length ts = Suc n3 + m"
  shows "\<exists>r' w' a p. realize_run L ts (nimbleClientRealizeJoinGame r q) w = Some (r', w')
    \<and> synced_with r' (heap w') sid bs \<and> remoteConnectionId (client r') = remote
    \<and> consideringDisconnectCounter (quality (client r')) = 0
    \<and> step_buffers (client r')
      = fold (deliver L) responses (nbsStepsReInit L a sid, nbsPendingStepsReset L p sid)"
proof -
  define us where "us = take (Suc n3) ts"
  define vs where "vs = drop (Suc n3) ts"
  have ts: "ts = us @ vs" "length us = Suc n3" "length vs = m"
    using assms(16) by (simp_all add: us_def vs_def)
  obtain r1 w1 where u: "realize_run L us (nimbleClientRealizeJoinGame r q) w = Some (r1, w1)"
    and r1: "entered L r1 (heap w1) x3 ch sid bs" "remoteConnectionId (client r1) = remote"
    and w1: "arrivals inbox w1 = (\<lambda>i. arrivals inbox w (Suc n3 + i))"
    using handshake [OF assms(1-14) ts(2), of q] by blast
  have c1: "served (client r1) x3 ch 1" "follows r1" "steps_from L sid (step_buffers (client r1))"
    "synced_with r1 (heap w1) sid bs"
    using r1(1) by (simp_all add: entered_def)
  have "session L x3 1 (map (arrivals inbox w1) [0..<length vs]) responses"
    using assms(15) by (simp add: w1 ts(3))
  from session_run [OF assms(2,3) c1(1) this] obtain c' w' x' k'
    where c': "served c' x' ch k'" "step_buffers c' = fold (deliver L) responses (step_buffers (client r1))"
      "joinedGameState c' = joinedGameState (client r1)" "remoteConnectionId c' = remoteConnectionId (client r1)"
      and w': "heap w' = heap w1" and v: "realize_run L vs r1 w1 = Some (r1\<lparr>client := c'\<rparr>, w')"
    using c1(2) by blast
  obtain a p where "step_buffers (client r1) = (nbsStepsReInit L a sid, nbsPendingStepsReset L p sid)"
    using c1(3) unfolding steps_from_def by blast
  moreover have "synced_with (r1\<lparr>client := c'\<rparr>) (heap w') sid bs"
    using c1(4) c'(1,3) w' by (simp add: synced_with_def served_def waiting_def)
  moreover have "consideringDisconnectCounter (quality c') = 0" using c'(1) by (simp add: served_def waiting_def)
  ultimately show ?thesis
    using realize_run_through [OF u v] c'(2,4) r1(2)
    by (intro exI [of _ "r1\<lparr>client := c'\<rparr>"] exI [of _ w'] exI [of _ a] exI [of _ p]) (simp add: ts(1))
qed

lemma sample_init_fields:
  assumes "nimbleClientInit sampleLib c mem ba tr so mp ver dbg w = Some (e, c', w')"
  shows "orderedDatagramIn c' = [0]" "joinStateChannel c' = joinStateChannel c"
  using assms
  by (auto simp: nimbleClientInit_def initBeforeReInit_def nimbleClientReInit_def nimbleClientReset_def
      resetSteps_def resetStats_def steps_init_def pending_steps_init_def time_now_def dropJoinedGameState_def
      destroy_result sample_fields Let_def split: prod.splits if_splits)

theorem join_reaches_lasting_session_witness:
  "\<exists>r w r' w'. nimbleClientRealizeInit sampleLib sample_realize sample_settings
       (sample_world [[], [1, 0, 50, 11, 5], [], [2, 0, 50, 15, 1, 9, 4], [], [5, 0, 50, 12, 4, 7, 8], [], [],
         [9, 0, 50, 13, 3, 1, 0, 0, 0, 6, 9], []])
       = Some (r, w)
     \<and> realize_run sampleLib [16, 32, 48, 64, 80, 96]
         (nimbleClientRealizeJoinGame r \<lparr>nonce = 0, joinGameRequestRest = []\<rparr>) w = Some (r', w')
     \<and> synced_with r' (heap w') 9 [7, 8] \<and> remoteConnectionId (client r') = 5
     \<and> expectedWriteId (authoritativeStepsFromServer (client r')) = 10"
proof -
  let ?w0 = "sample_world [[], [1, 0, 50, 11, 5], [], [2, 0, 50, 15, 1, 9, 4], [], [5, 0, 50, 12, 4, 7, 8], [], [],
         [9, 0, 50, 13, 3, 1, 0, 0, 0, 6, 9], []]"
  let ?inbox = "\<lambda>(ds :: octets list, t :: int, p :: nat). sample_inbox ds"
  obtain r w where i: "nimbleClientRealizeInit sampleLib sample_realize sample_settings ?w0 = Some (r, w)"
    using realize_init_defined [of sampleLib sample_realize sample_settings ?w0] by blast
  then obtain e where c: "nimbleClientInit sampleLib (client sample_realize) (settingsMemory sample_settings)
      (settingsBlobMemory sample_settings) (settingsTransport sample_settings)
      (settingsMaximumSingleParticipantStepOctetCount sample_settings)
      (settingsMaximumNumberOfParticipants sample_settings) (settingsApplicationVersion sample_settings)
      (settingsWantsDebugStreams sample_settings) ?w0 = Some (e, client r, w)"
    by (auto simp: nimbleClientRealizeInit_def Let_def)
  have r: "orderedDatagramIn (client r) = [0]" "joinStateChannel (client r) = 0"
    using sample_init_fields [OF c] by (simp_all add: sample_realize_def sample_client_def)
  have w: "fst (outside w) = [[], [1, 0, 50, 11, 5], [], [2, 0, 50, 15, 1, 9, 4], [], [5, 0, 50, 12, 4, 7, 8], [], [],
         [9, 0, 50, 13, 3, 1, 0, 0, 0, 6, 9], []]"
    using sample_init_outside [OF c] by (simp add: sample_world_def)
  have arr: "\<forall>i \<le> 3. ?inbox (outside w) i = (if i = 1 then [[1, 0, 50, 11, 5]]
      else if i = 2 then [[2, 0, 50, 15, 1, 9, 4]] else if i = 3 then [[5, 0, 50, 12, 4, 7, 8]] else [])"
    using w by (cases "outside w") (auto simp: le_Suc_eq eval_nat_numeral)
  note read = arrives_as_def in_stream_def sample_fields sample_ordered_receive_def sample_read16_def sample_read8_def
  let ?s = "\<lambda>n k xs. \<lparr>inPos = k, inSize = n, readDebugInfo = True, inRest = xs\<rparr>"
  have d1: "arrives_as sampleLib [0] [1, 0, 50, 11, 5] [1] (NimbleSerializeCmdConnectResponse sampleLib) (?s 5 4 [5])"
    "connect_answer sampleLib (?s 5 4 [5]) 5"
    by (simp_all add: read connect_answer_def)
  have d2: "arrives_as sampleLib [1] [2, 0, 50, 15, 1, 9, 4] [2] (NimbleSerializeCmdGameStateResponse sampleLib)
      (?s 7 4 [1, 9, 4])" "state_answer sampleLib (?s 7 4 [1, 9, 4]) 9 4"
    by (simp_all add: read state_answer_def)
  have d3: "arrives_as sampleLib [2] [5, 0, 50, 12, 4, 7, 8] [5] (NimbleSerializeCmdServerOutBlobStream sampleLib)
      (?s 7 4 [4, 7, 8])" "whole_state sampleLib (?s 7 4 [4, 7, 8]) 4 [7, 8]"
    by (simp_all add: read whole_state_def sample_blob_receive_def)
  have d4: "arrives_as sampleLib [5] [9, 0, 50, 13, 3, 1, 0, 0, 0, 6, 9] [9]
      (NimbleSerializeCmdGameStepResponse sampleLib) (?s 11 4 [3, 1, 0, 0, 0, 6, 9])"
    by (simp add: read)
  have "readable_steps sampleLib s" for s by (simp add: readable_steps_def sample_fields)
  then have "session sampleLib [5] 1 [[], [[9, 0, 50, 13, 3, 1, 0, 0, 0, 6, 9]]] [?s 11 4 [3, 1, 0, 0, 0, 6, 9]]"
    by (intro session.quiet session.steps [OF d4] session.over) simp_all
  then have ses: "session sampleLib [5] 1 (map (\<lambda>i. arrivals ?inbox w (Suc 3 + i)) [0..<2])
      [?s 11 4 [3, 1, 0, 0, 0, 6, 9]]"
    using w by (cases "outside w") (simp add: upt_rec eval_nat_numeral)
  have "commands_distinct sampleLib" by (simp add: commands_distinct_def sample_fields)
  from join_reaches_lasting_session [OF i sample_scripted this _ _ _ arr _ d1(2) _ d2(2) _ d3 ses,
      of "[1]" "[16, 32, 48, 64, 80, 96]" "\<lparr>nonce = 0, joinGameRequestRest = []\<rparr>"]
  have "\<exists>r' w' a p. realize_run sampleLib [16, 32, 48, 64, 80, 96]
        (nimbleClientRealizeJoinGame r \<lparr>nonce = 0, joinGameRequestRest = []\<rparr>) w = Some (r', w')
      \<and> synced_with r' (heap w') 9 [7, 8] \<and> remoteConnectionId (client r') = 5
      \<and> step_buffers (client r') = fold (deliver sampleLib) [?s 11 4 [3, 1, 0, 0, 0, 6, 9]]
          (nbsStepsReInit sampleLib a 9, nbsPendingStepsReset sampleLib p 9)"
    using r d1 d2 by fastforce
  moreover have "expectedWriteId (fst (fold (deliver sampleLib) [?s 11 4 [3, 1, 0, 0, 0, 6, 9]]
      (nbsStepsReInit sampleLib a 9, nbsPendingStepsReset sampleLib p 9))) = 10" for a p
    by (simp add: deliver_def behind_head_def sample_fields split: prod.splits)
  ultimately show ?thesis using i by (metis fst_conv)
qed

end
