(* ===== verification/RealizerProtocol.thy ===== *)
theory RealizerProtocol
  imports RealizerProperties
begin

text \<open>
  The protocol that an application sees of the realizer: an abstract machine over the target, the
  state reached and the state of the client, which knows no messages, no buffers and no waits, and
  in which the server is a choice. The realizer refines it, and it only ever shows 26 of the 175
  combinations.
\<close>

section \<open>Operations as data\<close>

datatype 'x realize_op =
    Reset
  | ReInit "'x NimbleClientRealizeSettings"
  | Join "'x NimbleSerializeJoinGameRequest"
  | Quit
  | Update int

fun perform ::
    "('x, 'w) nimble_lib \<Rightarrow> 'x realize_op \<Rightarrow> 'x NimbleClientRealize \<Rightarrow> 'w world
     \<Rightarrow> ('x NimbleClientRealize \<times> 'w world) option" where
  "perform L Reset r w = nimbleClientRealizeReset L r w"
| "perform L (ReInit s) r w = nimbleClientRealizeReInit L r s w"
| "perform L (Join q) r w = Some (nimbleClientRealizeJoinGame r q, w)"
| "perform L Quit r w = Some (nimbleClientRealizeQuitGame r, w)"
| "perform L (Update now) r w = nimbleClientRealizeUpdate L r now w"

fun performs ::
    "('x, 'w) nimble_lib \<Rightarrow> 'x realize_op list \<Rightarrow> 'x NimbleClientRealize \<Rightarrow> 'w world
     \<Rightarrow> ('x NimbleClientRealize \<times> 'w world) option" where
  "performs L [] r w = Some (r, w)"
| "performs L (a # as) r w = do { (r, w) \<leftarrow> perform L a r w; performs L as r w }"

section \<open>The abstract machine\<close>

datatype kind = ResetKind | ReInitKind | JoinKind | QuitKind | UpdateKind

fun kind_of :: "'x realize_op \<Rightarrow> kind" where
  "kind_of Reset = ResetKind"
| "kind_of (ReInit s) = ReInitKind"
| "kind_of (Join q) = JoinKind"
| "kind_of Quit = QuitKind"
| "kind_of (Update now) = UpdateKind"

text \<open>Target, state reached, state of the client.\<close>

type_synonym view = "NimbleClientRealizeState \<times> NimbleClientRealizeState \<times> NimbleClientState"

definition view_of :: "'x NimbleClientRealize \<Rightarrow> view" where
  "view_of r = (targetState r, realizeState r, state (client r))"

definition initial_view :: view where
  "initial_view = (NimbleClientRealizeStateInit, NimbleClientRealizeStateInit, NimbleClientStateIdle)"

text \<open>What the server and the watchdog may make of the client in one update.\<close>

definition server_moves :: "NimbleClientState \<Rightarrow> NimbleClientState list" where
  "server_moves c =
     (if c = NimbleClientStateDisconnected then [c]
      else (if c = NimbleClientStateRequestingConnect then [NimbleClientStateConnected] else [])
        @ [c, NimbleClientStateJoiningDownloadingState, NimbleClientStateSynced, NimbleClientStateDisconnected])"

fun steered :: "view \<Rightarrow> view" where
  "steered (NimbleClientRealizeStateCleared, s, c) =
     (NimbleClientRealizeStateCleared, NimbleClientRealizeStateCleared, c)"
| "steered (NimbleClientRealizeStateSynced, s, NimbleClientStateIdle) =
     (NimbleClientRealizeStateSynced, s, NimbleClientStateRequestingConnect)"
| "steered (NimbleClientRealizeStateSynced, s, NimbleClientStateConnected) =
     (NimbleClientRealizeStateSynced, s, NimbleClientStateJoiningRequestingState)"
| "steered (NimbleClientRealizeStateSynced, s, NimbleClientStateSynced) =
     (NimbleClientRealizeStateSynced, NimbleClientRealizeStateSynced, NimbleClientStateSynced)"
| "steered v = v"

fun protocol_next :: "kind \<Rightarrow> view \<Rightarrow> view list" where
  "protocol_next ResetKind (t, s, c) = [(t, NimbleClientRealizeStateCleared, NimbleClientStateIdle)]"
| "protocol_next ReInitKind (t, s, c) =
     [(NimbleClientRealizeStateInit, NimbleClientRealizeStateReInit, NimbleClientStateIdle)]"
| "protocol_next JoinKind (t, s, c) = [(NimbleClientRealizeStateSynced, s, c)]"
| "protocol_next QuitKind (t, s, c) = [(NimbleClientRealizeStateCleared, s, NimbleClientStateDisconnected)]"
| "protocol_next UpdateKind (t, s, c) =
     (if c = NimbleClientStateDisconnected then [(t, NimbleClientRealizeStateDisconnected, c)]
      else
        let cs = (if s \<noteq> NimbleClientRealizeStateCleared \<and> t \<noteq> NimbleClientRealizeStateInit
                  then server_moves c else [c])
        in map (\<lambda>d. if t = s then (t, s, d) else steered (t, s, d)) cs)"

fun protocol_run :: "kind list \<Rightarrow> view set \<Rightarrow> view set" where
  "protocol_run [] V = V"
| "protocol_run (k # ks) V = protocol_run ks (\<Union>v \<in> V. set (protocol_next k v))"

text \<open>The views that the machine shows.\<close>

fun allowed :: "view \<Rightarrow> bool" where
  "allowed (NimbleClientRealizeStateInit, s, c) \<longleftrightarrow> c = NimbleClientStateIdle
     \<and> s \<in> {NimbleClientRealizeStateInit, NimbleClientRealizeStateReInit, NimbleClientRealizeStateCleared}"
| "allowed (NimbleClientRealizeStateCleared, s, c) \<longleftrightarrow> c = NimbleClientStateDisconnected
     \<or> c = NimbleClientStateIdle \<and> s = NimbleClientRealizeStateCleared"
| "allowed (NimbleClientRealizeStateSynced, s, c) \<longleftrightarrow> c \<in>
     (case s of
        NimbleClientRealizeStateCleared \<Rightarrow>
          {NimbleClientStateIdle, NimbleClientStateRequestingConnect, NimbleClientStateDisconnected}
      | NimbleClientRealizeStateDisconnected \<Rightarrow> {NimbleClientStateDisconnected}
      | NimbleClientRealizeStateSynced \<Rightarrow>
          {NimbleClientStateJoiningDownloadingState, NimbleClientStateSynced, NimbleClientStateDisconnected}
      | _ \<Rightarrow>
          {NimbleClientStateIdle, NimbleClientStateRequestingConnect, NimbleClientStateJoiningRequestingState,
           NimbleClientStateJoiningDownloadingState, NimbleClientStateDisconnected})"
| "allowed (t, s, c) \<longleftrightarrow> False"

definition all_views :: "view list" where
  "all_views =
     (let rs = [NimbleClientRealizeStateInit, NimbleClientRealizeStateReInit, NimbleClientRealizeStateCleared,
                NimbleClientRealizeStateSynced, NimbleClientRealizeStateDisconnected];
          cs = [NimbleClientStateIdle, NimbleClientStateRequestingConnect, NimbleClientStateConnected,
                NimbleClientStateJoiningRequestingState, NimbleClientStateJoiningDownloadingState,
                NimbleClientStateSynced, NimbleClientStateDisconnected]
      in List.product rs (List.product rs cs))"

lemma view_counts: "length all_views = 175" "length (filter allowed all_views) = 26" "v \<in> set all_views"
proof -
  show "v \<in> set all_views"
    by (cases v; cases "fst v"; cases "fst (snd v)"; cases "snd (snd v)") (simp_all add: all_views_def Let_def)
qed (simp_all add: all_views_def Let_def)

text \<open>A step of the machine stays within them.\<close>

lemma server_moves_iff:
  "c \<noteq> NimbleClientStateDisconnected \<Longrightarrow> d \<in> set (server_moves c) \<longleftrightarrow>
     d = c \<or> d \<in> {NimbleClientStateJoiningDownloadingState, NimbleClientStateSynced, NimbleClientStateDisconnected}
     \<or> c = NimbleClientStateRequestingConnect \<and> d = NimbleClientStateConnected"
  by (auto simp: server_moves_def)

lemma allowed_next: "allowed v \<Longrightarrow> u \<in> set (protocol_next k v) \<Longrightarrow> allowed u"
proof -
  assume v: "allowed v" and u: "u \<in> set (protocol_next k v)"
  obtain t s c where eq: "v = (t, s, c)" by (cases v)
  show "allowed u"
    using v u unfolding eq
    by (cases k; cases t; cases s; cases c) (auto simp: server_moves_iff)
qed

lemma allowed_run: "\<forall>v \<in> V. allowed v \<Longrightarrow> u \<in> protocol_run ks V \<Longrightarrow> allowed u"
proof (induction ks arbitrary: V)
  case (Cons k ks)
  have "\<forall>v \<in> (\<Union>v \<in> V. set (protocol_next k v)). allowed v"
    using Cons.prems(1) allowed_next by blast
  from Cons.IH [OF this] Cons.prems(2) show ?case by simp
qed simp

lemma protocol_run_mono: "V \<subseteq> W \<Longrightarrow> protocol_run ks V \<subseteq> protocol_run ks W"
proof (induction ks arbitrary: V W)
  case (Cons k ks)
  show ?case unfolding protocol_run.simps by (rule Cons.IH) (use Cons.prems in blast)
qed simp

section \<open>The simulation\<close>

lemma update_view:
  assumes "nimbleClientRealizeUpdate L r now w = Some (r', w')"
  shows "view_of r' \<in> set (protocol_next UpdateKind (view_of r))"
proof (cases "state (client r) = NimbleClientStateDisconnected")
  case True
  with assms show ?thesis by (auto simp: nimbleClientRealizeUpdate_def view_of_def)
next
  case False
  obtain c where c: "state c \<in> set (if realizeState r \<noteq> NimbleClientRealizeStateCleared
        \<and> targetState r \<noteq> NimbleClientRealizeStateInit then server_moves (state (client r)) else [state (client r)])"
    and r': "r' = (if targetState r = realizeState r then r\<lparr>client := c\<rparr> else steer (r\<lparr>client := c\<rparr>))"
  proof (cases "realizeState r \<noteq> NimbleClientRealizeStateCleared \<and> targetState r \<noteq> NimbleClientRealizeStateInit")
    case True
    with assms False obtain e c where u: "nimbleClientUpdate L (client r) now w = Some (e, c, w')"
      and "r' = (if targetState r = realizeState r then r\<lparr>client := c\<rparr> else steer (r\<lparr>client := c\<rparr>))"
      by (auto simp: nimbleClientRealizeUpdate_def split: if_splits)
    moreover have "state c \<in> set (server_moves (state (client r)))"
      using update_steps_table [OF steps_updates.update [OF u, unfolded update_steps_def]] False
      by (auto simp: server_moves_iff)
    ultimately show thesis using that True by simp
  next
    case none: False
    with assms False that [of "client r"] show thesis
      by (auto simp: nimbleClientRealizeUpdate_def split: if_splits)
  qed
  have "view_of (steer q) = steered (view_of q)" if "targetState q \<noteq> realizeState q" for q :: "'a NimbleClientRealize"
    using that by (cases "targetState q"; cases "state (client q)")
      (simp_all add: view_of_def steer_def steerToSynced_def)
  from this [of "r\<lparr>client := c\<rparr>"] have "view_of r' = (if targetState r = realizeState r
      then (targetState r, realizeState r, state c) else steered (targetState r, realizeState r, state c))"
    using r' by (simp add: view_of_def)
  with c False show ?thesis by (auto simp: view_of_def Let_def)
qed

lemma perform_view:
  assumes "perform L a r w = Some (r', w')"
  shows "view_of r' \<in> set (protocol_next (kind_of a) (view_of r))"
proof (cases a)
  case Reset
  with assms show ?thesis
    by (auto simp: nimbleClientRealizeReset_def view_of_def dest: reset_SomeD(1))
next
  case (ReInit s)
  with assms show ?thesis
    by (auto simp: nimbleClientRealizeReInit_def view_of_def Let_def dest!: reinit_SomeD dest: reset_SomeD(1))
next
  case (Update now)
  with assms update_view show ?thesis by simp
qed (use assms in \<open>auto simp: view_of_def nimbleClientRealizeJoinGame_def nimbleClientRealizeQuitGame_def
      nimbleClientDisconnect_def Let_def\<close>)

lemma performs_view:
  "performs L as r w = Some (r', w') \<Longrightarrow> view_of r' \<in> protocol_run (map kind_of as) {view_of r}"
proof (induction as arbitrary: r w)
  case (Cons a as)
  then obtain r1 w1 where p: "perform L a r w = Some (r1, w1)" and "performs L as r1 w1 = Some (r', w')"
    by auto
  then have "view_of r' \<in> protocol_run (map kind_of as) {view_of r1}" using Cons.IH by blast
  also have "\<dots> \<subseteq> protocol_run (map kind_of as) (set (protocol_next (kind_of a) (view_of r)))"
    using perform_view [OF p] by (intro protocol_run_mono) simp
  finally show ?case by simp
qed simp

text \<open>
  C5. The realizer refines its protocol: whatever sequence of operations an application performs
  after the initialisation, and whatever the server sends, the target, the state reached and the
  state of the client are at the end what the abstract machine can show after the same operations;
  so they form one of its 26 views. In none of them is the client just connected, nor synced with
  a realizer that is not.
\<close>

theorem realizer_refines_protocol:
  assumes "nimbleClientRealizeInit L r0 s w0 = Some (r, w)"
    and "performs L as r w = Some (r', w')"
  shows "view_of r' \<in> protocol_run (map kind_of as) {initial_view} \<and> allowed (view_of r')
    \<and> state (client r') \<noteq> NimbleClientStateConnected
    \<and> (state (client r') = NimbleClientStateSynced \<longrightarrow> realizeState r' = NimbleClientRealizeStateSynced)"
proof -
  have "view_of r = initial_view"
    using assms(1) init_SomeD(4) by (fastforce simp: nimbleClientRealizeInit_def view_of_def initial_view_def Let_def)
  then have run: "view_of r' \<in> protocol_run (map kind_of as) {initial_view}"
    using performs_view [OF assms(2)] by simp
  have "allowed (view_of r')" by (rule allowed_run [OF _ run]) (simp add: initial_view_def)
  with run show ?thesis
    by (cases "targetState r'"; cases "realizeState r'") (auto simp: view_of_def)
qed

theorem realizer_refines_protocol_witness:
  "\<exists>r w r' w'. nimbleClientRealizeInit sampleLib sample_realize sample_settings (sample_world []) = Some (r, w)
     \<and> performs sampleLib [Join \<lparr>nonce = 0, joinGameRequestRest = []\<rparr>, Quit, Update 16] r w = Some (r', w')
     \<and> allowed (view_of r')"
proof -
  obtain r w where i: "nimbleClientRealizeInit sampleLib sample_realize sample_settings (sample_world []) = Some (r, w)"
    using realize_init_defined [of sampleLib sample_realize sample_settings "sample_world []"] by blast
  have "\<exists>r' w'. performs sampleLib [Join \<lparr>nonce = 0, joinGameRequestRest = []\<rparr>, Quit, Update 16] r w = Some (r', w')"
    by (simp add: nimbleClientRealizeUpdate_def nimbleClientRealizeQuitGame_def nimbleClientDisconnect_def Let_def)
  with realizer_refines_protocol [OF i] i show ?thesis by blast
qed

end
