(* ===== verification/ReceiveLoop.thy ===== *)
theory ReceiveLoop
  imports IncomingProperties
begin

text \<open>
  When the receive loop returns: exactly when no infinite sequence of accepted datagrams lies
  before it. The loop has no bound of its own, so that a transport that always has one more
  datagram keeps the update, and with it the application, for ever.
\<close>

text \<open>One turn of the loop that goes on: a datagram is received, handled and not refused.\<close>

inductive loop_turn ::
    "('x, 'w) nimble_lib \<Rightarrow> 'x NimbleClient \<times> 'w world \<Rightarrow> 'x NimbleClient \<times> 'w world \<Rightarrow> bool"
  for L where
  "transport_receive L (transport c) (DATAGRAM_TRANSPORT_MAX_SIZE L) w = (k, b, w1) \<Longrightarrow> 0 < k \<Longrightarrow>
   nimbleClientFeed L (count_in L c) b (size_of_int k) w1 = Some (e, c2, w2) \<Longrightarrow> 0 \<le> e \<Longrightarrow>
   loop_turn L (c, w)
     (c2\<lparr>quality := nimbleClientConnectionQualityReceivedUsableDatagram L (quality c2)\<rparr>, w2)"

inductive_cases loop_turnE: "loop_turn L (c, w) s"

definition endless :: "('x, 'w) nimble_lib \<Rightarrow> 'x NimbleClient \<times> 'w world \<Rightarrow> bool" where
  "endless L s \<longleftrightarrow> (\<exists>f. f 0 = s \<and> (\<forall>i. loop_turn L (f i) (f (Suc i))))"

text \<open>An endless sequence goes on with the one turn that the loop can take.\<close>

lemma endless_turn:
  assumes "endless L s"
  obtains t where "loop_turn L s t" "endless L t"
proof -
  obtain f where "f 0 = s" "\<forall>i. loop_turn L (f i) (f (Suc i))" using assms by (auto simp: endless_def)
  then have "loop_turn L s (f 1)" "endless L (f 1)"
    by (auto simp: endless_def intro!: exI [of _ "\<lambda>i. f (Suc i)"])
  then show thesis by (rule that)
qed

lemma loop_turn_determined:
  assumes "loop_turn L (c, w) s"
    and "transport_receive L (transport c) (DATAGRAM_TRANSPORT_MAX_SIZE L) w = (k, b, w1)"
  shows "0 < k"
    and "nimbleClientFeed L (count_in L c) b (size_of_int k) w1 = Some (e, c2, w2) \<Longrightarrow>
      0 \<le> e \<and> s = (c2\<lparr>quality := nimbleClientConnectionQualityReceivedUsableDatagram L (quality c2)\<rparr>, w2)"
  using assms by (auto elim: loop_turnE)

lemma returned_not_endless:
  assumes "receiveDatagrams L count c w = Some z"
  shows "\<not> endless L (c, w)"
  using assms
proof (induction rule: receive_induct)
  case (finish count c w k b w1)
  then show ?case using loop_turn_determined(1) [OF _ finish(1)] by (metis endless_turn not_le)
next
  case (refuse c w k b w1 e c2 w2)
  then show ?case using loop_turn_determined(2) [OF _ refuse(1,3)] by (metis endless_turn not_le)
next
  case (continue c w k b w1 e c2 w2 z)
  then show ?case using loop_turn_determined(2) [OF _ continue(1,3)] by (metis endless_turn)
qed

text \<open>A loop that does not return takes a turn, after which it does not return either.\<close>

lemma stuck_turn:
  assumes "answers_ok L" "client_ok c (heap w)" "receiveDatagrams L count c w = None"
  shows "\<exists>c' w'. loop_turn L (c, w) (c', w') \<and> client_ok c' (heap w')
    \<and> receiveDatagrams L (count + 1) c' w' = None"
proof -
  obtain k b w1 where rc: "transport_receive L (transport c) (DATAGRAM_TRANSPORT_MAX_SIZE L) w = (k, b, w1)"
    by (cases "transport_receive L (transport c) (DATAGRAM_TRANSPORT_MAX_SIZE L) w") auto
  have k: "0 < k" using assms(3) by (subst (asm) receiveDatagrams.simps) (auto simp: rc split: if_splits)
  have ok: "client_ok (count_in L c) (heap w1)"
    using assms(2) transport_receive_frame(1) [OF rc] by (simp add: count_in_def client_ok_def)
  then obtain e c2 w2 where feed: "nimbleClientFeed L (count_in L c) b (size_of_int k) w1 = Some (e, c2, w2)"
    using feed_defined [OF assms(1), of "count_in L c" b "size_of_int k" w1] by (auto simp: client_ok_def)
  let ?c = "c2\<lparr>quality := nimbleClientConnectionQualityReceivedUsableDatagram L (quality c2)\<rparr>"
  have "0 \<le> e \<and> receiveDatagrams L (count + 1) ?c w2 = None"
    using assms(3) k feed by (subst (asm) receiveDatagrams.simps) (auto simp: rc count_in_def split: if_splits)
  moreover have "client_ok ?c (heap w2)" using feed_lookup_length [OF feed ok] by (simp add: client_ok_def)
  ultimately show ?thesis using loop_turn.intros [OF rc k feed] by blast
qed

lemma stuck_endless:
  assumes "answers_ok L" "client_ok c (heap w)" "receiveDatagrams L count c w = None"
  shows "endless L (c, w)"
proof -
  let ?stuck = "\<lambda>s. client_ok (fst s) (heap (snd s)) \<and> (\<exists>n. receiveDatagrams L n (fst s) (snd s) = None)"
  have "\<exists>f. \<forall>i. (?stuck (f i) \<and> (i = 0 \<longrightarrow> f i = (c, w))) \<and> loop_turn L (f i) (f (Suc i))"
  proof (rule dependent_nat_choice)
    show "\<exists>s. ?stuck s \<and> ((0 :: nat) = 0 \<longrightarrow> s = (c, w))" using assms by auto
  next
    fix s and i :: nat
    assume "?stuck s \<and> (i = 0 \<longrightarrow> s = (c, w))"
    then show "\<exists>t. (?stuck t \<and> (Suc i = 0 \<longrightarrow> t = (c, w))) \<and> loop_turn L s t"
      using stuck_turn [OF assms(1), of "fst s" "snd s"] by (metis fst_conv nat.distinct(1) prod.collapse snd_conv)
  qed
  then obtain f where "f 0 = (c, w)" "\<forall>i. loop_turn L (f i) (f (Suc i))" by blast
  then show ?thesis by (auto simp: endless_def)
qed

text \<open>
  C16. When receiving returns: for a client that satisfies its invariant the receive loop returns,
  with some result, if and only if there is no endless sequence of turns in each of which the
  transport hands out a datagram that is not refused. So a transport that runs dry at some time
  always lets it return, and one that never does never.
\<close>

theorem receive_returns_iff_not_endless:
  assumes "client_ok c (heap w)" "answers_ok L"
  shows "(\<exists>r c' w'. nimbleClientReceiveAllDatagramsFromTransport L c w = Some (r, c', w'))
    \<longleftrightarrow> \<not> endless L (c, w)"
proof (cases "receiveDatagrams L 0 c w")
  case None
  with stuck_endless [OF assms(2,1) None] show ?thesis
    by (simp add: nimbleClientReceiveAllDatagramsFromTransport_def)
next
  case (Some z)
  with returned_not_endless [OF Some] show ?thesis
    by (cases z) (simp add: nimbleClientReceiveAllDatagramsFromTransport_def)
qed

text \<open>A transport that repeats one datagram holds up even a client that ignores it.\<close>

definition flooded :: "(octets, sample_world) nimble_lib" where
  "flooded = sampleLib\<lparr>datagramTransportReceive := \<lambda>tr n w. (4, [1, 0, 50, 13], w)\<rparr>"

theorem receive_returns_iff_not_endless_witness:
  "\<not> (\<exists>r c' w'. nimbleClientReceiveAllDatagramsFromTransport flooded
      (sample_client NimbleClientStateDisconnected NimbleJoiningStateJoinedParticipant 0 0)
      (sample_world []) = Some (r, c', w'))"
proof -
  let ?c = "sample_client NimbleClientStateDisconnected NimbleJoiningStateJoinedParticipant 0 0"
  let ?q = "\<lambda>c :: octets NimbleClient. c\<lparr>quality := nimbleClientConnectionQualityReceivedUsableDatagram flooded (quality c)\<rparr>"
  have same: "count_in flooded c = c" for c by (simp add: count_in_def flooded_def sample_fields)
  have turn: "loop_turn flooded (c, w) (?q c, w)" if "state c = NimbleClientStateDisconnected" for c w
    using that
    by (intro loop_turn.intros [where k = 4 and b = "[1, 0, 50, 13]" and ?w1.0 = w and e = 0 and ?c2.0 = c])
       (simp_all add: same, simp_all add: flooded_def transport_receive_def nimbleClientFeed_def size_of_int_def Let_def)
  have fields: "state ((?q ^^ i) ?c) = NimbleClientStateDisconnected" for i
    by (induction i) (simp_all add: sample_client_def)
  have "endless flooded (?c, sample_world [])"
    unfolding endless_def
    by (rule exI [of _ "\<lambda>i. ((?q ^^ i) ?c, sample_world [])"]) (simp add: turn fields)
  moreover have "client_ok ?c (heap (sample_world []))" by (simp add: sample_client_ok game_state_ok_def)
  moreover have "answers_ok flooded" using sample_answers_ok by (simp add: answers_ok_def flooded_def)
  ultimately show ?thesis
    using receive_returns_iff_not_endless [of ?c "sample_world []" flooded] by blast
qed

end
