(* ===== verification/TickAccounting.thy ===== *)
theory TickAccounting
  imports UpdateProperties
begin

text \<open>
  The measured tick durations: what one update does to the client's clock, and that over a run the
  durations account for all the time that passed.
\<close>

definition clock_of :: "'x NimbleClient \<Rightarrow> bool \<times> int \<times> 'x StatsInt \<times> size_t" where
  "clock_of c = (lastUpdateMonotonicMsIsSet c, lastUpdateMonotonicMs c, tickDuration c, expectedTickDurationMs c)"

lemma judged_clock: "clock_of (judged L c) = clock_of c"
  by (simp add: clock_of_def judged_def checkIfDisconnectIsNeeded_def)

lemma after_receive_clock:
  assumes "updateAfterReceive L c now k w = (r, c', w')"
  shows "clock_of c' = clock_of c"
proof (cases "0 < waitTime c")
  case True
  with assms judged_clock [of L c] show ?thesis by (auto simp: after_receive_waits clock_of_def)
next
  case False
  let ?c = "showStats (calcStats L (judged L c) now)"
  obtain e c2 w2 where s: "sendPackets L ?c w = (e, c2, w2)" by (cases "sendPackets L ?c w") auto
  with assms False have "c' = c2" by (simp add: after_receive_sends [OF _ s])
  moreover have "clock_of ?c = clock_of (judged L c)" by (simp add: clock_of_def showStats_def calcStats_def)
  ultimately show ?thesis
    using send_packets_keeps(1) [OF s] judged_clock [of L c] by (simp add: sending_kept_def clock_of_def)
qed

text \<open>Of an update only the check of the interval changes the clock, also when receiving fails.\<close>

lemma update_clock:
  assumes "nimbleClientUpdate L c now w = Some (r, c', w')"
  shows "clock_of c' = clock_of (checkTickInterval L c now)"
proof -
  obtain k c1 w1 where rc: "nimbleClientReceiveAllDatagramsFromTransport L (ticked L c now) w = Some (k, c1, w1)"
    using assms by (auto simp: nimbleClientUpdate_def ticked_def Let_def)
  have "clock_of c1 = clock_of (ticked L c now)"
    using config.receive_all [OF rc] by (simp add: config_kept_def clock_of_def)
  also have "\<dots> = clock_of (checkTickInterval L c now)"
    by (simp add: ticked_def clock_of_def checkTickInterval_def Let_def)
  finally have "clock_of c1 = clock_of (checkTickInterval L c now)" .
  moreover have "k < 0 \<and> c' = c1 \<or> updateAfterReceive L c1 now k w1 = (r, c', w')"
    using assms rc by (auto simp: nimbleClientUpdate_def ticked_def Let_def split: if_splits)
  ultimately show ?thesis using after_receive_clock [of L c1 now k w1 r c' w'] by auto
qed

lemma interval_step:
  assumes "clock_of c = (True, t, s, 16)" "t \<le> now" "now - t < 2147483648"
  shows "clock_of (checkTickInterval L c now) =
    (if now - t < 6 then (True, t, s, 16) else (True, now, statsIntAdd L s (now - t), 16))"
proof -
  have "wrap_s64 (now - t) = now - t" "wrap_s64 (now - t + 10) = now - t + 10" "wrap_s32 (now - t) = now - t"
    using assms(2,3) by simp_all
  then show ?thesis
    using assms(1) by (auto simp: checkTickInterval_def clock_of_def Let_def int_of_size_def)
qed

text \<open>The durations \<open>ds\<close> lead from a clock at \<open>t\<close> to the clock of \<open>c\<close> at a time \<open>now\<close>.\<close>

definition accounted ::
    "('x, 'w) nimble_lib \<Rightarrow> 'x StatsInt \<Rightarrow> int \<Rightarrow> int list \<Rightarrow> int \<Rightarrow> 'x NimbleClient \<Rightarrow> bool" where
  "accounted L s t ds now c \<longleftrightarrow>
     clock_of c = (True, t + sum_list ds, foldl (statsIntAdd L) s ds, 16)
     \<and> (\<forall>d \<in> set ds. 6 \<le> d) \<and> t + sum_list ds \<le> now \<and> now - (t + sum_list ds) < 6"

lemma run_accounted:
  assumes "client_run L ts c w = Some (c', w')" "sorted (now # ts)" "last (now # ts) - t < 2147483648"
    and "accounted L s t ds now c" "t \<le> now"
  shows "\<exists>es. accounted L s t (ds @ es) (last (now # ts)) c' \<and> length es \<le> length ts"
  using assms
proof (induction ts arbitrary: c w now ds)
  case Nil
  then show ?case by (intro exI [of _ "[]"]) simp
next
  case (Cons u ts)
  then obtain r c1 w1 where u: "nimbleClientUpdate L c u w = Some (r, c1, w1)"
    and run: "client_run L ts c1 w1 = Some (c', w')" by auto
  have c: "clock_of c = (True, t + sum_list ds, foldl (statsIntAdd L) s ds, 16)"
    and ds: "\<forall>d \<in> set ds. 6 \<le> d" "t + sum_list ds \<le> now" "now - (t + sum_list ds) < 6"
    using Cons.prems(4) by (simp_all add: accounted_def)
  have "0 \<le> sum_list ds" using ds(1) by (intro sum_list_nonneg) auto
  moreover have "u \<le> last (u # ts)" "now \<le> u"
    using Cons.prems(2) last_in_set [of ts] by (auto split: if_splits)
  ultimately have le: "t + sum_list ds \<le> u" "u - (t + sum_list ds) < 2147483648"
    using ds(2) Cons.prems(3) by auto
  define e where "e = (if u - (t + sum_list ds) < 6 then [] else [u - (t + sum_list ds)])"
  have "accounted L s t (ds @ e) u c1"
    using interval_step [OF c le, of L] update_clock [OF u] ds le by (auto simp: accounted_def e_def)
  moreover have "sorted (u # ts)" "last (u # ts) - t < 2147483648" "t \<le> u"
    using Cons.prems \<open>now \<le> u\<close> by auto
  ultimately obtain es where "accounted L s t ((ds @ e) @ es) (last (u # ts)) c'" "length es \<le> length ts"
    using Cons.IH [OF run] by blast
  then show ?case by (intro exI [of _ "e @ es"]) (simp add: e_def)
qed

text \<open>
  C24. The measured tick durations account for the time. Over any run of updates of a client whose
  clock is not set yet, at times that never go back and span less than 2147483648 ms, whatever
  arrives and also where receiving fails: the durations that were added to the statistics are at
  least 6 ms each (an update within 5 ms of the last one that counted is taken to be too early and
  is not counted), they add up to the time from the first update to the last one counted, and less
  than 6 ms are left over. No time is lost and none is counted twice.
\<close>

theorem ticks_account_for_time:
  assumes "client_run L (t # ts) c w = Some (c', w')"
    and "\<not> lastUpdateMonotonicMsIsSet c" "expectedTickDurationMs c = 16"
    and "sorted (t # ts)" "last (t # ts) - t < 2147483648"
  shows "\<exists>ds. tickDuration c' = foldl (statsIntAdd L) (tickDuration c) ds
    \<and> (\<forall>d \<in> set ds. 6 \<le> d) \<and> length ds \<le> length ts
    \<and> lastUpdateMonotonicMs c' = t + sum_list ds
    \<and> lastUpdateMonotonicMs c' \<le> last (t # ts) \<and> last (t # ts) - lastUpdateMonotonicMs c' < 6"
proof -
  obtain r c1 w1 where u: "nimbleClientUpdate L c t w = Some (r, c1, w1)"
    and run: "client_run L ts c1 w1 = Some (c', w')" using assms(1) by auto
  have "accounted L (tickDuration c) t [] t c1"
    using update_clock [OF u] assms(2,3) by (simp add: accounted_def checkTickInterval_def clock_of_def Let_def)
  from run_accounted [OF run assms(4,5) this] obtain ds
    where "accounted L (tickDuration c) t ds (last (t # ts)) c'" "length ds \<le> length ts" by auto
  then show ?thesis by (intro exI [of _ ds]) (auto simp: accounted_def clock_of_def)
qed

theorem ticks_account_for_time_witness:
  "\<exists>c' w' ds. client_run sampleLib [16, 32, 34, 50]
      (sample_client NimbleClientStateSynced NimbleJoiningStateJoiningParticipant 0 0)
      (sample_world [[1, 0, 50, 14, 7, 3]]) = Some (c', w')
    \<and> tickDuration c' = foldl (statsIntAdd sampleLib) sample_stat ds
    \<and> lastUpdateMonotonicMs c' = 16 + sum_list ds \<and> 44 < lastUpdateMonotonicMs c'"
proof -
  let ?c = "sample_client NimbleClientStateSynced NimbleJoiningStateJoiningParticipant 0 0"
  have "client_ok ?c (heap (sample_world [[1, 0, 50, 14, 7, 3]]))"
    by (simp add: sample_client_ok game_state_ok_def)
  then obtain c' w' where run:
    "client_run sampleLib [16, 32, 34, 50] ?c (sample_world [[1, 0, 50, 14, 7, 3]]) = Some (c', w')"
    using run_defined [OF sample_answers_ok sample_drains] by blast
  have "\<not> lastUpdateMonotonicMsIsSet ?c" "expectedTickDurationMs ?c = 16" "tickDuration ?c = sample_stat"
    by (simp_all add: sample_client_def)
  with ticks_account_for_time [OF run] obtain ds
    where "tickDuration c' = foldl (statsIntAdd sampleLib) sample_stat ds"
      "lastUpdateMonotonicMs c' = 16 + sum_list ds" "50 - lastUpdateMonotonicMs c' < 6" by auto
  with run show ?thesis by (intro exI [of _ c'] exI [of _ w'] exI [of _ ds]) simp
qed

end
