(* ===== verification/QualityDescription.thy ===== *)
theory QualityDescription
  imports QualityProperties NetworkRealizer
begin

text \<open>
  What the program tells a reader of its log: the description of the connection quality, which has
  to fit its buffer of 128 characters, and the debug lines of \<open>debug.c\<close> and \<open>game_state.c\<close>.
\<close>

section \<open>The description of the quality\<close>

text \<open>The whole text, with no limit.\<close>

definition description_text ::
    "('x, 'b) stats_lib_scheme \<Rightarrow> 'x NimbleClientConnectionQuality \<Rightarrow> string" where
  "description_text L q =
     (let rating = decimal (unat (qualityRating (snd (evaluate L q)))) in
      if 40 \<le> ticksWithoutIncomingDatagrams q then
        ''not receiving datagrams from server. '' @ decimal (unat (ticksWithoutIncomingDatagrams q))
          @ '' ticks since last valid datagram. rating: '' @ rating
      else if 15 < ticksWithoutAuthoritativeStepsFromInSerialize q then
        ''not receiving datagrams from server. ''
          @ decimal (unat (ticksWithoutAuthoritativeStepsFromInSerialize q))
          @ '' ticks since last valid step from server. rating: '' @ rating
      else ''it is all good! rating: '' @ rating)"

lemma describe_text: "fst (nimbleClientConnectionQualityDescribe L q n) = take (n - 1) (description_text L q)"
proof -
  obtain why p where e: "evaluate L q = (why, p)" by fastforce
  then have "why = fst (evaluate L q)" "p = snd (evaluate L q)" by simp_all
  then have why: "why = (if 40 \<le> ticksWithoutIncomingDatagrams q then NotReceivingDatagramsFromServer
      else if 15 < ticksWithoutAuthoritativeStepsFromInSerialize q then NotReceivingStepsFromServer
      else KeepConnection)"
    and p: "ticksWithoutIncomingDatagrams p = ticksWithoutIncomingDatagrams q"
      "ticksWithoutAuthoritativeStepsFromInSerialize p = ticksWithoutAuthoritativeStepsFromInSerialize q"
    by simp_all
  show ?thesis
    using p by (simp add: nimbleClientConnectionQualityDescribe_def description_text_def e why snprintf_def Let_def)
qed

lemma description_length: "length (description_text L q) < 111"
proof -
  have r: "length (decimal (unat (qualityRating (snd (evaluate L q))))) \<le> 3" by (rule octet_decimal)
  have "length (decimal (unat (ticksWithoutIncomingDatagrams q))) \<le> 20"
    "length (decimal (unat (ticksWithoutAuthoritativeStepsFromInSerialize q))) \<le> 20"
    by (rule size_decimal)+
  with r show ?thesis by (auto simp: description_text_def Let_def)
qed

text \<open>
  C40. The description of the quality always fits: in the buffer of 128 characters that the notices
  use it is never cut off, whatever the counters are; in a smaller buffer it is a prefix that
  leaves room for the terminator. Its number reads back as the counter it reports, so that the
  text tells the 40 silent ticks from the 15 ticks without steps only by what follows the number.
\<close>

theorem description_fits:
  "fst (nimbleClientConnectionQualityDescribe L q 128) = description_text L q
   \<and> (0 < n \<longrightarrow> length (fst (nimbleClientConnectionQualityDescribe L q n)) < n)
   \<and> (40 \<le> ticksWithoutIncomingDatagrams q \<longrightarrow>
        (\<exists>ds rest. description_text L q = ''not receiving datagrams from server. '' @ ds @ '' ticks since last valid datagram'' @ rest
           \<and> list_all is_digit ds \<and> read_decimal ds = unat (ticksWithoutIncomingDatagrams q)))
   \<and> (ticksWithoutIncomingDatagrams q < 40 \<and> 15 < ticksWithoutAuthoritativeStepsFromInSerialize q \<longrightarrow>
        (\<exists>ds rest. description_text L q = ''not receiving datagrams from server. '' @ ds @ '' ticks since last valid step'' @ rest
           \<and> list_all is_digit ds \<and> read_decimal ds = unat (ticksWithoutAuthoritativeStepsFromInSerialize q)))"
proof -
  have "fst (nimbleClientConnectionQualityDescribe L q 128) = description_text L q"
    using description_length [of L q] by (simp add: describe_text)
  moreover have "0 < n \<longrightarrow> length (fst (nimbleClientConnectionQualityDescribe L q n)) < n"
    by (auto simp: describe_text min_def)
  moreover have "\<exists>ds rest. description_text L q = ''not receiving datagrams from server. '' @ ds
        @ '' ticks since last valid datagram'' @ rest
      \<and> list_all is_digit ds \<and> read_decimal ds = unat (ticksWithoutIncomingDatagrams q)"
    if "40 \<le> ticksWithoutIncomingDatagrams q"
    using that decimal_digits decimal_read
    by (intro exI [of _ "decimal (unat (ticksWithoutIncomingDatagrams q))"]
        exI [of _ "''. rating: '' @ decimal (unat (qualityRating (snd (evaluate L q))))"])
       (simp add: description_text_def Let_def)
  moreover have "\<exists>ds rest. description_text L q = ''not receiving datagrams from server. '' @ ds
        @ '' ticks since last valid step'' @ rest
      \<and> list_all is_digit ds \<and> read_decimal ds = unat (ticksWithoutAuthoritativeStepsFromInSerialize q)"
    if "ticksWithoutIncomingDatagrams q < 40 \<and> 15 < ticksWithoutAuthoritativeStepsFromInSerialize q"
    using that decimal_digits decimal_read
    by (intro exI [of _ "decimal (unat (ticksWithoutAuthoritativeStepsFromInSerialize q))"]
        exI [of _ "'' from server. rating: '' @ decimal (unat (qualityRating (snd (evaluate L q))))"])
       (simp add: description_text_def Let_def not_le)
  ultimately show ?thesis by blast
qed

theorem description_fits_witness:
  "length (fst (nimbleClientConnectionQualityDescribe sampleLib
       (sample_quality\<lparr>ticksWithoutIncomingDatagrams := 42\<rparr>) 64)) < 64
   \<and> (\<exists>ds rest. description_text sampleLib (sample_quality\<lparr>ticksWithoutIncomingDatagrams := 42\<rparr>)
          = ''not receiving datagrams from server. '' @ ds @ '' ticks since last valid datagram'' @ rest
        \<and> read_decimal ds = 42)
   \<and> (\<exists>ds rest. description_text sampleLib
          (sample_quality\<lparr>ticksWithoutIncomingDatagrams := 0, ticksWithoutAuthoritativeStepsFromInSerialize := 20\<rparr>)
          = ''not receiving datagrams from server. '' @ ds @ '' ticks since last valid step'' @ rest
        \<and> read_decimal ds = 20)"
  using description_fits [of sampleLib "sample_quality\<lparr>ticksWithoutIncomingDatagrams := 42\<rparr>" 64]
    description_fits [of sampleLib "sample_quality\<lparr>ticksWithoutIncomingDatagrams := 0,
      ticksWithoutAuthoritativeStepsFromInSerialize := 20\<rparr>" 64]
  by simp blast

end
