(* ===== verification/DebugOutput.thy ===== *)
theory DebugOutput
  imports NetworkRealizer
begin

text \<open>
  The functions that log the state for debugging, in \<open>debug.c\<close> and \<open>game_state.c\<close>. What they log
  is a list of lines, empty when the library is compiled without \<open>CLOG_LOG_ENABLED\<close>; reading past a
  name table would be undefined behaviour: \<open>None\<close>.
\<close>

definition nimbleClientDebugOutput :: "bool \<Rightarrow> 'x NimbleClient \<Rightarrow> string list option" where
  "nimbleClientDebugOutput logEnabled self =
     (if logEnabled
      then do { name \<leftarrow> nimbleClientStateToString (state self); Some [''state: '' @ name] }
      else Some [])"

definition nimbleClientRealizeDebugOutput :: "bool \<Rightarrow> 'x NimbleClientRealize \<Rightarrow> string list option" where
  "nimbleClientRealizeDebugOutput logEnabled self =
     (if logEnabled
      then
        if realizeState self \<noteq> targetState self
        then do {
          now \<leftarrow> nimbleClientRealizeStateToString (realizeState self);
          goal \<leftarrow> nimbleClientRealizeStateToString (targetState self);
          Some [''realize state. now: '' @ now @ '', but trying to reach: '' @ goal]
        }
        else do {
          now \<leftarrow> nimbleClientRealizeStateToString (realizeState self);
          Some [''realize state: '' @ now]
        }
      else Some [])"

definition nimbleClientGameStateDebug :: "bool \<Rightarrow> 'x NimbleClientGameState \<Rightarrow> string \<Rightarrow> string list" where
  "nimbleClientGameStateDebug logEnabled self debug =
     (if logEnabled
      then [''game state '' @ [CHR 0x27] @ debug @ [CHR 0x27] @ '' stepId: '' @ hex 8 (unat (stepId self))
              @ '' octetCount: '' @ decimal (unat (gameStateOctetCount self))]
      else [])"

section \<open>What the lines tell\<close>

lemma client_output_injective:
  "nimbleClientDebugOutput True c = nimbleClientDebugOutput True c' \<longleftrightarrow> state c = state c'"
  by (cases "state c"; cases "state c'")
    (simp_all add: nimbleClientDebugOutput_def nimbleClientStateToString_def lookup_name_def)

lemma realize_names:
  obtains n where "nimbleClientRealizeStateToString s = Some n"
    "n \<in> {''init'', ''reinit'', ''cleared'', ''synced'', ''disconnected''}"
  by (cases s) (simp_all add: nimbleClientRealizeStateToString_def lookup_name_def)

lemma realize_name_injective:
  "nimbleClientRealizeStateToString s = Some n \<Longrightarrow> nimbleClientRealizeStateToString t = Some n \<Longrightarrow> s = t"
  by (cases s; cases t) (auto simp: nimbleClientRealizeStateToString_def lookup_name_def)

lemma name_before_comma:
  assumes "n \<in> {''init'', ''reinit'', ''cleared'', ''synced'', ''disconnected''}"
    and "n' \<in> {''init'', ''reinit'', ''cleared'', ''synced'', ''disconnected''}"
    and "n @ '', but'' @ x = n' @ '', but'' @ y"
  shows "n = n' \<and> x = y"
  using assms by auto

text \<open>The line, given the names of the two states.\<close>

lemma realize_line:
  assumes "nimbleClientRealizeStateToString (realizeState r) = Some n"
    and "nimbleClientRealizeStateToString (targetState r) = Some g"
  shows "nimbleClientRealizeDebugOutput True r = Some [
    if realizeState r \<noteq> targetState r then ''realize state. now: '' @ n @ '', but'' @ '' trying to reach: '' @ g
    else ''realize state: '' @ n]"
  using assms by (cases "realizeState r = targetState r") (simp_all add: nimbleClientRealizeDebugOutput_def)

lemma realize_output_injective:
  "nimbleClientRealizeDebugOutput True r = nimbleClientRealizeDebugOutput True r'
   \<longleftrightarrow> realizeState r = realizeState r' \<and> targetState r = targetState r'" (is "?same \<longleftrightarrow> ?states")
proof
  obtain n where n: "nimbleClientRealizeStateToString (realizeState r) = Some n"
    "n \<in> {''init'', ''reinit'', ''cleared'', ''synced'', ''disconnected''}" by (rule realize_names)
  obtain g where g: "nimbleClientRealizeStateToString (targetState r) = Some g" by (rule realize_names)
  obtain n' where n': "nimbleClientRealizeStateToString (realizeState r') = Some n'"
    "n' \<in> {''init'', ''reinit'', ''cleared'', ''synced'', ''disconnected''}" by (rule realize_names)
  obtain g' where g': "nimbleClientRealizeStateToString (targetState r') = Some g'" by (rule realize_names)
  note lines = realize_line [OF n(1) g] realize_line [OF n'(1) g']
  assume same: ?same
  have names: "n = n' \<and> (realizeState r \<noteq> targetState r \<longrightarrow> g = g')
      \<and> (realizeState r = targetState r \<longleftrightarrow> realizeState r' = targetState r')"
    using same name_before_comma [OF n(2) n'(2), of "'' trying to reach: '' @ g" "'' trying to reach: '' @ g'"]
    by (auto simp: lines split: if_splits)
  then have "realizeState r = realizeState r'" using n n' by (blast intro: realize_name_injective)
  moreover have "targetState r = targetState r'"
    using names calculation g g' by (auto intro: realize_name_injective)
  ultimately show ?states ..
next
  assume ?states
  then show ?same by (simp add: nimbleClientRealizeDebugOutput_def)
qed

lemma game_state_output_injective:
  "nimbleClientGameStateDebug True g d = nimbleClientGameStateDebug True g' d
   \<longleftrightarrow> stepId g = stepId g' \<and> gameStateOctetCount g = gameStateOctetCount g'"
proof -
  have "unat (v :: u32) < 16 ^ 8" for v using unsigned_less [where 'a = nat, of v] by simp
  then have "hex 8 (unat (stepId g)) = hex 8 (unat (stepId g')) \<longleftrightarrow> stepId g = stepId g'"
    by (simp add: hex_inject word_unat_eq_iff)
  then show ?thesis by (auto simp: nimbleClientGameStateDebug_def decimal_inject append_eq_append_conv word_unat_eq_iff)
qed

text \<open>
  The debug output tells the states. With logging compiled in, a client, a realizer and a game
  state each give exactly one line, whatever their state (the name tables are never read out of
  range), and two of them give the same line exactly if they agree in what the line is about: the
  client's state; the realizer's state and target, although the target is printed only where it
  differs; the game state's step and size. Without logging there is no output.
\<close>

theorem debug_output_tells_states:
  "(\<exists>line. nimbleClientDebugOutput True c = Some [line])
   \<and> (nimbleClientDebugOutput True c = nimbleClientDebugOutput True c' \<longleftrightarrow> state c = state c')
   \<and> (\<exists>line. nimbleClientRealizeDebugOutput True r = Some [line])
   \<and> (nimbleClientRealizeDebugOutput True r = nimbleClientRealizeDebugOutput True r'
        \<longleftrightarrow> realizeState r = realizeState r' \<and> targetState r = targetState r')
   \<and> (nimbleClientGameStateDebug True g d = nimbleClientGameStateDebug True g' d
        \<longleftrightarrow> stepId g = stepId g' \<and> gameStateOctetCount g = gameStateOctetCount g')
   \<and> nimbleClientDebugOutput False c = Some [] \<and> nimbleClientRealizeDebugOutput False r = Some []
   \<and> nimbleClientGameStateDebug False g d = []"
proof -
  have "\<exists>line. nimbleClientDebugOutput True c = Some [line]"
    by (cases "state c") (simp_all add: nimbleClientDebugOutput_def nimbleClientStateToString_def lookup_name_def)
  moreover have "\<exists>line. nimbleClientRealizeDebugOutput True r = Some [line]"
    by (rule realize_names [of "realizeState r"], rule realize_names [of "targetState r"])
       (simp add: realize_line)
  moreover have "nimbleClientDebugOutput False c = Some []" "nimbleClientRealizeDebugOutput False r = Some []"
    "nimbleClientGameStateDebug False g d = []"
    by (simp_all add: nimbleClientDebugOutput_def nimbleClientRealizeDebugOutput_def nimbleClientGameStateDebug_def)
  ultimately show ?thesis
    using client_output_injective realize_output_injective game_state_output_injective by blast
qed

end
