(* ===== verification/ExampleClient.thy ===== *)
theory ExampleClient
  imports RealizerProperties
begin

text \<open>
  The example program \<open>examples/main.c\<close>: it sets up sockets and memory, initialises a realizer,
  asks to join with one player and then loops for ever: every 16 ms it may add a predicted step,
  updates the realizer and reads a step. The libraries that only the example uses are a record
  \<open>U\<close> of functions. Local variables that the program does not initialise are arguments.
\<close>

section \<open>Libraries of the example\<close>

text \<open>\<open>payload\<close> is a pointer: the octets from there to the end of the object that it points into.\<close>

record step_participant =
  stepParticipantId :: u8
  payload :: octets
  payloadCount :: size_t

record ('x, 'w) example_lib =
  udpClientStartup :: "'w \<Rightarrow> int \<times> 'w"
  udpClientInit :: "string \<Rightarrow> u16 \<Rightarrow> 'w \<Rightarrow> 'x \<times> 'w"
  udpClientReceive :: "'x \<Rightarrow> size_t \<Rightarrow> 'w \<Rightarrow> int \<times> octets \<times> 'w"
  udpClientSend :: "'x \<Rightarrow> octets \<Rightarrow> size_t \<Rightarrow> 'w \<Rightarrow> int \<times> 'w"
  imprintDefaultSetupInit :: "size_t \<Rightarrow> 'w \<Rightarrow> ('x \<times> 'x) \<times> 'w"
    \<comment> \<open>the allocators \<open>tagAllocator\<close> and \<open>slabAllocator\<close>\<close>
  usleep :: "nat \<Rightarrow> 'w \<Rightarrow> 'w"
  datagramTransport :: "'x \<Rightarrow> 'x"
    \<comment> \<open>the transport of a socket with \<open>clientReceive\<close> and \<open>clientSend\<close>\<close>
  serializeVersion :: "nat \<Rightarrow> nat \<Rightarrow> nat \<Rightarrow> 'x"
  onePlayer :: "'x \<Rightarrow> u8 \<Rightarrow> 'x"
    \<comment> \<open>the request with \<open>playerCount\<close> 1 and the \<open>localIndex\<close> of its first player\<close>
  nbsStepsAllowedToAdd :: "'x NbsSteps \<Rightarrow> bool"
  nbsStepsOutSerializeCombinedStep :: "step_participant list \<Rightarrow> size_t \<Rightarrow> int \<times> octets"
  nbsStepsWrite :: "'x NbsSteps \<Rightarrow> u32 \<Rightarrow> octets \<Rightarrow> size_t \<Rightarrow> int \<times> 'x NbsSteps"
  nbsStepsInSerializeStepsForParticipantsFromOctets ::
    "octets \<Rightarrow> size_t \<Rightarrow> int \<times> (size_t \<times> step_participant list) option"
    \<comment> \<open>its result code, and what it writes into the participants that it is given: their count and
       the first of them, or nothing\<close>

definition clientReceive ::
    "('x, 'w) example_lib \<Rightarrow> 'x \<Rightarrow> size_t \<Rightarrow> 'w \<Rightarrow> int \<times> octets \<times> 'w" where
  "clientReceive U self n w = udpClientReceive U self n w"

definition clientSend ::
    "('x, 'w) example_lib \<Rightarrow> 'x \<Rightarrow> octets \<Rightarrow> size_t \<Rightarrow> 'w \<Rightarrow> int \<times> 'w" where
  "clientSend U self buf n w = udpClientSend U self buf n w"

text \<open>The transport's function pointers lead to these two.\<close>

definition wired :: "('x, 'w) nimble_lib \<Rightarrow> ('x, 'w) example_lib \<Rightarrow> bool" where
  "wired L U \<longleftrightarrow>
     (\<forall>s n w. datagramTransportReceive L (datagramTransport U s) n w = clientReceive U s n w)
     \<and> (\<forall>s d n w. transportSend L (datagramTransport U s) d n w = clientSend U s d n w)"

section \<open>The program\<close>

text \<open>Up to the loop: an exit code, or the realizer that the loop runs with.\<close>

definition exampleStart ::
    "('x, 'w) nimble_lib \<Rightarrow> ('x, 'w) example_lib \<Rightarrow> 'x NimbleClientRealize
     \<Rightarrow> 'x NimbleClientRealizeSettings \<Rightarrow> 'x NimbleSerializeJoinGameRequest \<Rightarrow> 'w world
     \<Rightarrow> (int + 'x NimbleClientRealize \<times> 'w world) option" where
  "exampleStart L U clientRealize settings0 joinGameOptions w =
     (let exampleApplicationVersion = serializeVersion U 0x10 0x20 0x30;
          ((tagAllocator, slabAllocator), o1) = imprintDefaultSetupInit U (16 * 1024 * 1024) (outside w);
          (startupErr, o2) = udpClientStartup U o1
      in if startupErr < 0 then Some (Inl startupErr)
         else
           let (udpClientSocket, o3) = udpClientInit U ''127.0.0.1'' 27000 o2;
               localSettings = settings0\<lparr>settingsBlobMemory := slabAllocator, settingsMemory := tagAllocator,
                 settingsTransport := datagramTransport U udpClientSocket,
                 settingsApplicationVersion := exampleApplicationVersion\<rparr>
           in do {
             (r, w) \<leftarrow> nimbleClientRealizeInit L clientRealize localSettings (w\<lparr>outside := o3\<rparr>);
             (r, w) \<leftarrow> nimbleClientRealizeReInit L r localSettings w;
             let joinGameOptions = joinGameOptions\<lparr>joinGameRequestRest :=
               onePlayer U (joinGameRequestRest joinGameOptions) 0xca\<rparr>;
             Some (Inr (nimbleClientRealizeJoinGame r joinGameOptions, w))
           })"

text \<open>The text of the step, in octets.\<close>

definition octets_of :: "string \<Rightarrow> octets" where
  "octets_of s = map (\<lambda>c. of_nat (of_char c)) s"

text \<open>
  The step that the program would add; \<open>Inl\<close> is the exit code of \<open>main\<close>. \<open>stepString0\<close> is
  what the 32 octets of its buffer held before: the text and its 0 take 25 of them.
\<close>

definition addStep ::
    "('x, 'w) example_lib \<Rightarrow> octets \<Rightarrow> 'x NimbleClient \<Rightarrow> (int + 'x NimbleClient) option" where
  "addStep U stepString0 c =
     (case localParticipantLookup c of
        [] \<Rightarrow> None
      | entry # _ \<Rightarrow>
          let text = ''OneStep '' @ hex 16 (unat (expectedWriteId (outSteps c)));
              stepString = octets_of text @ 0 # drop (length text + 1) stepString0;
              participant = \<lparr>stepParticipantId = participantId entry,
                payload = stepString, payloadCount = of_nat (length text) + 1\<rparr>;
              (octetLength, stepBuf) = nbsStepsOutSerializeCombinedStep U [participant] 64
          in Some (
            if octetLength < 0 then Inl (wrap_s32 octetLength)
            else
              let (errorCode, steps) = nbsStepsWrite U (outSteps c) (expectedWriteId (outSteps c))
                    stepBuf (size_of_int octetLength)
              in if errorCode < 0 then Inl errorCode else Inr (c\<lparr>outSteps := steps\<rparr>)))"

text \<open>
  The step that was read, as the lines that are printed. The result code of reading the
  participants is not looked at: when nothing was written to the local variable that they are read
  into, or not as many as it counts, printing uses memory that was never initialised (in a build
  that logs, as everywhere here). A payload is
  printed as a C string, up to its first 0; when there is none before the end of the memory it lies
  in, printing reads on behind it. Both have no result: \<open>None\<close>.
\<close>

definition c_string :: "octets \<Rightarrow> string option" where
  "c_string bs = (if 0 \<in> set bs then Some (map (\<lambda>b. char_of (unat b)) (takeWhile (\<lambda>b. b \<noteq> 0) bs)) else None)"

function printParticipantsFrom :: "step_participant list \<Rightarrow> size_t \<Rightarrow> nat \<Rightarrow> string list option" where
  "printParticipantsFrom ps n i =
     (if i < unat n then
        if i < length ps then
          do { text \<leftarrow> c_string (payload (ps ! i));
               lines \<leftarrow> printParticipantsFrom ps n (Suc i);
               Some (('' participant '' @ decimal (unat (stepParticipantId (ps ! i))) @ '' '' @ [CHR 0x27] @ text
                      @ [CHR 0x27] @ '' octetCount: '' @ decimal (unat (payloadCount (ps ! i)))) # lines) }
        else None
      else Some [])"
  by pat_completeness auto
termination by (relation "measure (\<lambda>(ps, n, i). unat n - i)") auto

declare printParticipantsFrom.simps [simp del]

definition printReadStep ::
    "('x, 'w) example_lib \<Rightarrow> int \<Rightarrow> u32 \<Rightarrow> octets \<Rightarrow> string list option" where
  "printReadStep U payloadOctetCount readStepId readPayload =
     (if payloadOctetCount > 0 then
        let (_, participants) = nbsStepsInSerializeStepsForParticipantsFromOctets U readPayload
              (size_of_int payloadOctetCount)
        in do { (participantCount, ps) \<leftarrow> participants;
                lines \<leftarrow> printParticipantsFrom ps participantCount 0;
                Some ((''read step '' @ hex 16 (unat readStepId) @ ''  octetCount: ''
                       @ decimal (nat payloadOctetCount)) # lines) }
      else Some [])"

text \<open>
  The body of the loop, with what was printed so far. \<open>garbage\<close> gives, for each turn, what the
  memory of \<open>stepString\<close> holds.
\<close>

definition exampleTick ::
    "('x, 'w) nimble_lib \<Rightarrow> ('x, 'w) example_lib \<Rightarrow> (u32 \<Rightarrow> octets) \<Rightarrow> NimbleClientRealizeState
     \<Rightarrow> u32 \<times> 'x NimbleClientRealize \<times> 'w world \<times> string list
     \<Rightarrow> (int + u32 \<times> 'x NimbleClientRealize \<times> 'w world \<times> string list) option" where
  "exampleTick L U garbage reportedState s =
     (case s of (count, r, w, printed) \<Rightarrow>
        let w = w\<lparr>outside := usleep U (16 * 1000) (outside w)\<rparr>;
            count = count + 1
        in do {
          added \<leftarrow>
            (if count mod 2 = 0 \<and> reportedState = NimbleClientRealizeStateSynced
                \<and> nbsStepsAllowedToAdd U (outSteps (client r))
             then addStep U (garbage count) (client r) else Some (Inr (client r)));
          case added of
            Inl code \<Rightarrow> Some (Inl code)
          | Inr c \<Rightarrow> do {
              let (now, w) = time_now L w;
              (r, w) \<leftarrow> nimbleClientRealizeUpdate L (r\<lparr>client := c\<rparr>) now w;
              let (payloadOctetCount, readStepId, readPayload, c) = nimbleClientReadStep L (client r) 512;
              lines \<leftarrow> printReadStep U payloadOctetCount readStepId readPayload;
              Some (Inr (count, r\<lparr>client := c\<rparr>, w, printed @ lines))
            }
        })"

text \<open>The first \<open>n\<close> turns of the loop; \<open>reportedState\<close> is set before it and nowhere else.\<close>

fun exampleLoop ::
    "('x, 'w) nimble_lib \<Rightarrow> ('x, 'w) example_lib \<Rightarrow> (u32 \<Rightarrow> octets) \<Rightarrow> nat
     \<Rightarrow> u32 \<times> 'x NimbleClientRealize \<times> 'w world \<times> string list
     \<Rightarrow> (int + u32 \<times> 'x NimbleClientRealize \<times> 'w world \<times> string list) option" where
  "exampleLoop L U garbage 0 s = Some (Inr s)"
| "exampleLoop L U garbage (Suc n) s =
     do { x \<leftarrow> exampleTick L U garbage NimbleClientRealizeStateInit s;
          case x of Inl code \<Rightarrow> Some (Inl code) | Inr s \<Rightarrow> exampleLoop L U garbage n s }"

definition exampleMain ::
    "('x, 'w) nimble_lib \<Rightarrow> ('x, 'w) example_lib \<Rightarrow> (u32 \<Rightarrow> octets) \<Rightarrow> nat \<Rightarrow> 'x NimbleClientRealize
     \<Rightarrow> 'x NimbleClientRealizeSettings \<Rightarrow> 'x NimbleSerializeJoinGameRequest \<Rightarrow> 'w world
     \<Rightarrow> (int + u32 \<times> 'x NimbleClientRealize \<times> 'w world \<times> string list) option" where
  "exampleMain L U garbage n clientRealize settings0 joinGameOptions w =
     do { x \<leftarrow> exampleStart L U clientRealize settings0 joinGameOptions w;
          case x of Inl code \<Rightarrow> Some (Inl code)
          | Inr (r, w) \<Rightarrow> exampleLoop L U garbage n (0, r, w, []) }"

section \<open>What it prints\<close>

text \<open>A step whose participants cannot be printed, with its count of octets.\<close>

definition unprintable :: "('x, 'w) example_lib \<Rightarrow> int \<Rightarrow> octets \<Rightarrow> bool" where
  "unprintable U k d \<longleftrightarrow>
     (case snd (nbsStepsInSerializeStepsForParticipantsFromOctets U d (size_of_int k)) of
        None \<Rightarrow> True
      | Some (n, ps) \<Rightarrow> length ps < unat n \<or> (\<exists>p \<in> set (take (unat n) ps). 0 \<notin> set (payload p)))"

lemma printParticipants_defined:
  "i \<le> unat n \<Longrightarrow> (\<exists>lines. printParticipantsFrom ps n i = Some lines) \<longleftrightarrow>
     unat n \<le> max i (length ps) \<and> (\<forall>p \<in> set (drop i (take (unat n) ps)). 0 \<in> set (payload p))"
proof (induction ps n i rule: printParticipantsFrom.induct)
  case (1 ps n i)
  show ?case
  proof (cases "i < unat n \<and> i < length ps")
    case True
    then have "drop i (take (unat n) ps) = ps ! i # drop (Suc i) (take (unat n) ps)"
      by (simp add: Cons_nth_drop_Suc [symmetric])
    then show ?thesis
      using 1 True by (subst printParticipantsFrom.simps) (auto simp: c_string_def max_def)
  next
    case False
    then show ?thesis using "1.prems" by (subst printParticipantsFrom.simps) (auto simp: max_def)
  qed
qed

text \<open>
  Printing stays within initialised memory exactly when all participants that are counted were
  read and every payload ends in a 0, which nothing in the program sees to: the steps come from the
  server.
\<close>

lemma print_safe_iff:
  "(\<exists>lines. printReadStep U k i d = Some lines) \<longleftrightarrow> \<not> (0 < k \<and> unprintable U k d)"
proof -
  obtain e x where x: "nbsStepsInSerializeStepsForParticipantsFromOctets U d (size_of_int k) = (e, x)" by fastforce
  show ?thesis
  proof (cases x)
    case None
    with x show ?thesis by (simp add: printReadStep_def unprintable_def)
  next
    case (Some y)
    obtain n ps where "y = (n, ps)" by fastforce
    with x Some printParticipants_defined [of 0 n ps] show ?thesis
      by (cases "printParticipantsFrom ps n 0") (auto simp: printReadStep_def unprintable_def)
  qed
qed

text \<open>The step that the program would add is printed as it was written.\<close>

lemma char_less_256: "of_char ch < (256 :: nat)"
  using of_char_of [of "of_char ch :: nat"] by (metis char_of_char mod_less_divisor zero_less_numeral)

lemma octets_of_string:
  assumes "\<forall>ch \<in> set s. 0 < (of_char ch :: nat)"
  shows "c_string (octets_of s @ 0 # rest) = Some s"
proof -
  have unat: "unat (of_nat (of_char ch) :: u8) = of_char ch" for ch :: char
    using char_less_256 [of ch] by (simp add: unat_of_nat del: of_nat_of_char)
  have "(of_nat (of_char ch) :: u8) \<noteq> 0" if "ch \<in> set s" for ch
    using assms that unat [of ch] by (metis less_irrefl unat_0)
  then have "takeWhile (\<lambda>b. b \<noteq> 0) (octets_of s @ 0 # rest) = octets_of s"
    by (subst takeWhile_append2) (auto simp: octets_of_def)
  moreover have "map (\<lambda>b. char_of (unat b)) (octets_of s) = s"
    using unat by (simp add: octets_of_def comp_def)
  ultimately show ?thesis by (simp add: c_string_def)
qed

lemma hex_chars: "\<forall>ch \<in> set (hex k n). 0 < (of_char ch :: nat)"
proof -
  have "(of_char (''0123456789ABCDEF'' ! i) :: nat) > 0" if "i < 16" for i
  proof -
    have "\<forall>ch \<in> set ''0123456789ABCDEF''. 0 < (of_char ch :: nat)" by simp
    moreover have "''0123456789ABCDEF'' ! i \<in> set ''0123456789ABCDEF''" by (rule nth_mem) (use that in simp)
    ultimately show ?thesis by blast
  qed
  then show ?thesis by (auto simp: hex_def hex_digit_def)
qed

lemma written_step_is_printed:
  fixes U :: "('x, 'w) example_lib" and c :: "'x NimbleClient"
  defines "i \<equiv> expectedWriteId (outSteps c)"
  assumes entry: "localParticipantLookup c = entry # es"
    and codec: "\<And>p n d. nbsStepsOutSerializeCombinedStep U [p] 64 = (n, d) \<Longrightarrow> 0 < n \<Longrightarrow>
      \<exists>e rest. nbsStepsInSerializeStepsForParticipantsFromOctets U d (size_of_int n) =
        (e, Some (1, [p\<lparr>payload := take (unat (payloadCount p)) (payload p) @ rest\<rparr>]))"
  shows "\<exists>n d. addStep U stepString0 c = Some (if n < 0 then Inl (wrap_s32 n)
      else case nbsStepsWrite U (outSteps c) i d (size_of_int n) of (e, steps) \<Rightarrow>
        if e < 0 then Inl e else Inr (c\<lparr>outSteps := steps\<rparr>))
    \<and> (0 < n \<longrightarrow> printReadStep U n i d =
      Some [''read step '' @ hex 16 (unat i) @ ''  octetCount: '' @ decimal (nat n),
        '' participant '' @ decimal (unat (participantId entry)) @ '' '' @ [CHR 0x27] @ ''OneStep '' @ hex 16 (unat i)
          @ [CHR 0x27] @ '' octetCount: '' @ decimal 25])"
proof -
  let ?text = "''OneStep '' @ hex 16 (unat i)"
  let ?p = "\<lparr>stepParticipantId = participantId entry,
    payload = octets_of ?text @ 0 # drop (length ?text + 1) stepString0,
    payloadCount = of_nat (length ?text) + 1\<rparr>"
  obtain n d where nd: "nbsStepsOutSerializeCombinedStep U [?p] 64 = (n, d)" by fastforce
  have "\<forall>ch \<in> set ?text. 0 < (of_char ch :: nat)" using hex_chars [of 16 "unat i"] by (auto simp del: nat_of_char)
  then have shown: "c_string (octets_of ?text @ 0 # rest) = Some ?text" for rest by (rule octets_of_string)
  have front: "take 25 (octets_of ?text @ 0 # xs) = octets_of ?text @ [0]" for xs
    by (simp add: octets_of_def)
  have "printReadStep U n i d =
      Some [''read step '' @ hex 16 (unat i) @ ''  octetCount: '' @ decimal (nat n),
        '' participant '' @ decimal (unat (participantId entry)) @ '' '' @ [CHR 0x27] @ ?text
          @ [CHR 0x27] @ '' octetCount: '' @ decimal 25]" if "0 < n"
  proof -
    have count: "unat (payloadCount ?p) = 25" by simp
    from codec [OF nd that] obtain e rest where "nbsStepsInSerializeStepsForParticipantsFromOctets U d (size_of_int n) =
        (e, Some (1, [?p\<lparr>payload := take 25 (payload ?p) @ rest\<rparr>]))"
      unfolding count by blast
    moreover have "take 25 (payload ?p) @ rest = octets_of ?text @ 0 # rest"
      using front [of "drop (length ?text + 1) stepString0"] by simp
    ultimately have "nbsStepsInSerializeStepsForParticipantsFromOctets U d (size_of_int n) =
        (e, Some (1, [?p\<lparr>payload := octets_of ?text @ 0 # rest\<rparr>]))" by simp
    with that shown show ?thesis
      by (simp add: printReadStep_def printParticipantsFrom.simps [of _ _ 0] printParticipantsFrom.simps [of _ _ "Suc 0"])
  qed
  moreover have "addStep U stepString0 c = Some (if n < 0 then Inl (wrap_s32 n)
      else case nbsStepsWrite U (outSteps c) i d (size_of_int n) of (e, steps) \<Rightarrow>
        if e < 0 then Inl e else Inr (c\<lparr>outSteps := steps\<rparr>))"
    using nd by (simp add: addStep_def entry i_def Let_def)
  ultimately show ?thesis by (intro exI [of _ n] exI [of _ d]) simp
qed

section \<open>The transport stays\<close>

definition transport_kept ::
    "'x NimbleClient \<times> 'w world \<Rightarrow> 'x NimbleClient \<times> 'w world \<Rightarrow> bool" where
  "transport_kept s t \<longleftrightarrow> transport (fst t) = transport (fst s)"

interpretation transport_sends: send_blind L transport_kept
  for L :: "('x, 'w) nimble_lib"
  by unfold_locales (auto simp: transport_kept_def sending_kept_def)

interpretation transport_receives: receive_contract L transport_kept
  for L :: "('x, 'w) nimble_lib"
  by (rule config.coarser) (auto simp: transport_kept_def config_kept_def)

interpretation transport_updates: update_contract L transport_kept
  for L :: "('x, 'w) nimble_lib"
  by unfold_locales (simp_all add: transport_kept_def)

lemma update_transport:
  assumes "nimbleClientRealizeUpdate L r now w = Some (r', w')"
  shows "transport (client r') = transport (client r)"
proof -
  have "transport (client (steer_if r)) = transport (client r)" for r :: "'a NimbleClientRealize"
    by (simp add: steer_if_def steer_def steerToSynced_def
        split: NimbleClientRealizeState.split NimbleClientState.split)
  with assms show ?thesis
    by (cases rule: realize_update_cases)
       (auto simp: transport_kept_def dest: transport_updates.update)
qed

section \<open>It runs until it cannot print\<close>

text \<open>What a turn of the loop reads from the realizer: the count of octets, the id and the octets.\<close>

definition turn_reads ::
    "('x, 'w) nimble_lib \<Rightarrow> ('x, 'w) example_lib \<Rightarrow> u32 \<times> 'x NimbleClientRealize \<times> 'w world \<times> string list
     \<Rightarrow> (int \<times> u32 \<times> octets) option" where
  "turn_reads L U s =
     (case s of (count, r, w, printed) \<Rightarrow>
        let (now, w) = time_now L (w\<lparr>outside := usleep U (16 * 1000) (outside w)\<rparr>)
        in do { (r, w) \<leftarrow> nimbleClientRealizeUpdate L r now w;
                let (k, i, d, c) = nimbleClientReadStep L (client r) 512;
                Some (k, i, d) })"

definition reads_unprintable ::
    "('x, 'w) nimble_lib \<Rightarrow> ('x, 'w) example_lib \<Rightarrow> u32 \<times> 'x NimbleClientRealize \<times> 'w world \<times> string list
     \<Rightarrow> bool" where
  "reads_unprintable L U s =
     (case turn_reads L U s of None \<Rightarrow> False | Some (k, i, d) \<Rightarrow> 0 < k \<and> unprintable U k d)"

text \<open>What holds between the turns.\<close>

definition turning ::
    "('x \<Rightarrow> 'x BlobStreamIn \<Rightarrow> bool) \<Rightarrow> 'x \<Rightarrow> u32 \<times> 'x NimbleClientRealize \<times> 'w world \<times> string list \<Rightarrow> bool" where
  "turning G tr s \<longleftrightarrow> (case s of (count, r, w, printed) \<Rightarrow>
     realize_ok r (heap w) \<and> holds_stream G (client r) \<and> transport (client r) = tr)"

lemma tick_result:
  assumes "join_answers_ok L" "blob_streams_ok L G" "drains L m" "turning G tr s"
  shows "if reads_unprintable L U s then exampleTick L U g NimbleClientRealizeStateInit s = None
    else \<exists>s'. exampleTick L U g NimbleClientRealizeStateInit s = Some (Inr s')
      \<and> fst s' = fst s + 1 \<and> turning G tr s'"
proof -
  obtain count r w printed where s: "s = (count, r, w, printed)" by (cases s)
  let ?w = "w\<lparr>outside := usleep U (16 * 1000) (outside w)\<rparr>"
  obtain now w1 where t: "time_now L ?w = (now, w1)" by fastforce
  have ok: "realize_ok r (heap w1)" and stream: "holds_stream G (client r)" and tr: "transport (client r) = tr"
    using assms(4) time_now_frame(1) [OF t] by (simp_all add: s turning_def)
  with realize_update_defined [OF assms(1-3)] obtain r1 w2
    where u: "nimbleClientRealizeUpdate L r now w1 = Some (r1, w2)" by blast
  with update_step_ok [OF u ok] update_transport [OF u] tr
    realize_step_stream [OF realize_step.update [OF u] assms(2)] stream
  have "realize_ok r1 (heap w2)" "holds_stream G (client r1)" "transport (client r1) = tr" by simp_all
  then have next_ok: "turning G tr (count + 1, r1\<lparr>client := (client r1)\<lparr>authoritativeStepsFromServer := x\<rparr>\<rparr>, w2, out)"
    for x out by (simp add: turning_def realize_ok_def client_ok_def holds_stream_def)
  obtain k i d x where rd: "nbsStepsRead L (authoritativeStepsFromServer (client r1)) 512 = (k, i, d, x)"
    by (cases "nbsStepsRead L (authoritativeStepsFromServer (client r1)) 512") auto
  have reads: "turn_reads L U s = Some (k, i, d)"
    using t by (simp add: turn_reads_def s u rd nimbleClientReadStep_def)
  have tick: "exampleTick L U g NimbleClientRealizeStateInit s =
    do { lines \<leftarrow> printReadStep U k i d;
         Some (Inr (count + 1, r1\<lparr>client := (client r1)\<lparr>authoritativeStepsFromServer := x\<rparr>\<rparr>, w2, printed @ lines)) }"
    using t by (simp add: exampleTick_def s u rd nimbleClientReadStep_def Let_def)
  show ?thesis
  proof (cases "printReadStep U k i d")
    case None
    then have "reads_unprintable L U s" using print_safe_iff [of U k i d] by (simp add: reads_unprintable_def reads)
    with None show ?thesis by (simp add: tick)
  next
    case (Some lines)
    then have "\<not> reads_unprintable L U s" using print_safe_iff [of U k i d] by (simp add: reads_unprintable_def reads)
    with Some show ?thesis using next_ok by (simp add: tick) (simp add: s)
  qed
qed

lemma loop_result:
  assumes "join_answers_ok L" "blob_streams_ok L G" "drains L m"
  shows "turning G tr s \<Longrightarrow>
    (case exampleLoop L U g n s of
       None \<Rightarrow> \<exists>m<n. \<exists>s'. exampleLoop L U g m s = Some (Inr s') \<and> reads_unprintable L U s'
     | Some x \<Rightarrow> \<exists>s'. x = Inr s' \<and> fst s' = fst s + of_nat n \<and> turning G tr s'
         \<and> (\<forall>m<n. \<forall>s'. exampleLoop L U g m s = Some (Inr s') \<longrightarrow> \<not> reads_unprintable L U s'))"
proof (induction n arbitrary: s)
  case (Suc n)
  note tick = tick_result [OF assms Suc.prems, where U = U and g = g]
  show ?case
  proof (cases "reads_unprintable L U s")
    case True
    then have "exampleLoop L U g (Suc n) s = None" using tick by simp
    moreover have "exampleLoop L U g 0 s = Some (Inr s)" by simp
    ultimately show ?thesis using True by (simp only: option.case) blast
  next
    case False
    with tick obtain s1 where t: "exampleTick L U g NimbleClientRealizeStateInit s = Some (Inr s1)"
      and s1: "fst s1 = fst s + 1" "turning G tr s1" by auto
    show ?thesis
    proof (cases "exampleLoop L U g n s1")
      case None
      with Suc.IH [OF s1(2)] obtain m s' where "m < n" "exampleLoop L U g m s1 = Some (Inr s')"
        "reads_unprintable L U s'" by auto
      then have "Suc m < Suc n \<and> exampleLoop L U g (Suc m) s = Some (Inr s') \<and> reads_unprintable L U s'"
        by (simp add: t)
      moreover have "exampleLoop L U g (Suc n) s = None" using None by (simp add: t)
      ultimately show ?thesis by (simp only: option.case) blast
    next
      case (Some x)
      with Suc.IH [OF s1(2)] obtain s' where s': "x = Inr s'" "fst s' = fst s1 + of_nat n" "turning G tr s'"
        and before: "\<And>m s''. m < n \<Longrightarrow> exampleLoop L U g m s1 = Some (Inr s'') \<Longrightarrow> \<not> reads_unprintable L U s''"
        by auto
      have "\<not> reads_unprintable L U s''" if "m < Suc n" "exampleLoop L U g m s = Some (Inr s'')" for m s''
        using that before False by (cases m) (auto simp: t)
      with s' Some s1(1) show ?thesis by (simp add: t)
    qed
  qed
qed simp

lemma start_realize_ok:
  assumes "exampleStart L U r0 s0 q0 w0 = Some (Inr (r, w))"
    and "length (localParticipantLookup (client r0)) = NIMBLE_CLIENT_MAX_LOCAL_USERS_COUNT"
  shows "realize_ok r (heap w)" "\<exists>socket. transport (client r) = datagramTransport U socket"
    and "holds_stream G (client r) = holds_stream G (client r0)"
proof -
  from assms(1) obtain s r1 r2 w1 w2 q socket where init: "nimbleClientRealizeInit L r0 s w1 = Some (r1, w2)"
    and re: "nimbleClientRealizeReInit L r1 s w2 = Some (r2, w)" and r: "r = nimbleClientRealizeJoinGame r2 q"
    and s: "settingsTransport s = datagramTransport U socket"
    by (auto simp: exampleStart_def Let_def split: prod.splits if_splits)
  then have "realize_ok r2 (heap w)" using init_ok [OF assms(2)] reinit_step_ok by blast
  then show "realize_ok r (heap w)" unfolding r by (rule join_ok)
  from re obtain c where c: "nimbleClientReset L ((client r1)\<lparr>transport := settingsTransport s\<rparr>) w2 = Some (c, w)"
    and r2: "client r2 = c"
    by (auto simp: nimbleClientRealizeReInit_def nimbleClientReInit_def Let_def)
  then have transport: "transport (client r) = settingsTransport s"
    using reset_SomeD [OF c] by (simp add: r r2 nimbleClientRealizeJoinGame_def Let_def)
  show "holds_stream G (client r) = holds_stream G (client r0)"
    using reset_SomeD(12,17) [OF c] init_keeps_stream [OF init, of G]
    by (simp add: r r2 nimbleClientRealizeJoinGame_def holds_stream_def Let_def)
  from transport s show "\<exists>socket. transport (client r) = datagramTransport U socket" by (intro exI) (rule trans)
qed

text \<open>The functions that would serialize and write a step are never called.\<close>

lemma adds_nothing:
  "exampleMain L (U\<lparr>nbsStepsAllowedToAdd := a, nbsStepsOutSerializeCombinedStep := f, nbsStepsWrite := h\<rparr>) g
     = exampleMain L U g"
proof -
  let ?U = "U\<lparr>nbsStepsAllowedToAdd := a, nbsStepsOutSerializeCombinedStep := f, nbsStepsWrite := h\<rparr>"
  have tick: "exampleTick L ?U g NimbleClientRealizeStateInit s = exampleTick L U g NimbleClientRealizeStateInit s" for s
  proof -
    have "printReadStep ?U = printReadStep U" by (intro ext) (simp add: printReadStep_def)
    then show ?thesis by (simp add: exampleTick_def)
  qed
  have loop: "exampleLoop L ?U g n = exampleLoop L U g n" for n
  proof (induction n)
    case 0
    show ?case by (rule ext) simp
  next
    case (Suc n)
    show ?case by (rule ext) (simp add: tick Suc)
  qed
  have start: "exampleStart L ?U r s q w = exampleStart L U r s q w" for r s q w
  proof -
    obtain tags slabs o1 where 1: "imprintDefaultSetupInit U (16 * 1024 * 1024) (outside w) = ((tags, slabs), o1)"
      by (metis surj_pair)
    obtain e o2 where 2: "udpClientStartup U o1 = (e, o2)" by fastforce
    obtain socket o3 where 3: "udpClientInit U ''127.0.0.1'' 27000 o2 = (socket, o3)" by fastforce
    from 1 2 3 show ?thesis by (simp add: exampleStart_def Let_def)
  qed
  show ?thesis by (intro ext) (unfold exampleMain_def loop start, rule refl)
qed

text \<open>
  C20. The example never predicts. Once it has started, with a blob stream in its memory that was
  set up, its loop never returns an exit code: however often it turns, whatever the server sends,
  the realizer stays consistent, still holds the stream, and receives from the socket. It runs into undefined behaviour
  in one case only, which is exactly characterised: a turn reads a step whose participants cannot
  be read, are fewer than they count, or have a payload without a final 0, and prints it. And it
  never adds a step: \<open>reportedState\<close> is never assigned
  in the loop, so that the guard on the synced state never holds, and the program does the same
  whatever the functions do that would serialize and write a step.
\<close>

theorem example_never_predicts:
  assumes "exampleStart L U r0 s0 q0 w0 = Some (Inr (r, w))"
    and "length (localParticipantLookup (client r0)) = NIMBLE_CLIENT_MAX_LOCAL_USERS_COUNT"
    and "holds_stream G (client r0)"
    and "wired L U" "join_answers_ok L" "blob_streams_ok L G" "drains L m"
  shows "(exampleMain L U g n r0 s0 q0 w0 = None \<longleftrightarrow>
      (\<exists>m<n. \<exists>s. exampleMain L U g m r0 s0 q0 w0 = Some (Inr s) \<and> reads_unprintable L U s))
    \<and> (\<forall>x. exampleMain L U g n r0 s0 q0 w0 = Some x \<longrightarrow>
         (\<exists>r' w' printed. x = Inr (of_nat n, r', w', printed)
           \<and> client_ok (client r') (heap w') \<and> holds_stream G (client r')
           \<and> (\<exists>socket. \<forall>size o'.
               datagramTransportReceive L (transport (client r')) size o' = clientReceive U socket size o')))
    \<and> exampleMain L (U\<lparr>nbsStepsAllowedToAdd := a, nbsStepsOutSerializeCombinedStep := f, nbsStepsWrite := h\<rparr>)
        g n r0 s0 q0 w0 = exampleMain L U g n r0 s0 q0 w0"
proof -
  obtain socket where tr: "transport (client r) = datagramTransport U socket"
    using start_realize_ok(2) [OF assms(1,2)] by blast
  have turning: "turning G (datagramTransport U socket) (0, r, w, [])"
    using start_realize_ok(1,3) [OF assms(1,2)] assms(3) tr by (simp add: turning_def)
  have main: "exampleMain L U g n r0 s0 q0 w0 = exampleLoop L U g n (0, r, w, [])" for n
    by (simp add: exampleMain_def assms(1))
  from assms(4) have receives: "\<forall>size x. datagramTransportReceive L (datagramTransport U socket) size x
      = clientReceive U socket size x" by (simp add: wired_def)
  note result = loop_result [OF assms(5-7) turning, where U = U and g = g and n = n]
  show ?thesis
  proof (cases "exampleLoop L U g n (0, r, w, [])")
    case None
    with result show ?thesis by (auto simp: main adds_nothing)
  next
    case (Some x)
    with result obtain s' where s': "x = Inr s'" "fst s' = of_nat n" "turning G (datagramTransport U socket) s'"
      and before: "\<forall>m<n. \<forall>s'. exampleLoop L U g m (0, r, w, []) = Some (Inr s') \<longrightarrow> \<not> reads_unprintable L U s'"
      by auto
    obtain count r' w' printed where "s' = (count, r', w', printed)" by (cases s')
    with s' receives have "x = Inr (of_nat n, r', w', printed)" "client_ok (client r') (heap w')"
      "holds_stream G (client r')"
      "\<forall>size x. datagramTransportReceive L (transport (client r')) size x = clientReceive U socket size x"
      by (simp_all add: turning_def realize_ok_def)
    with Some before show ?thesis by (auto simp: main adds_nothing)
  qed
qed

definition sampleExample :: "(octets, sample_world) example_lib" where
  "sampleExample = \<lparr>udpClientStartup = \<lambda>w. (0, w), udpClientInit = \<lambda>host port w. ([], w),
    udpClientReceive = \<lambda>s n w. sample_receive w, udpClientSend = \<lambda>s d n w. (0, w),
    imprintDefaultSetupInit = \<lambda>n w. (([], []), w), usleep = \<lambda>k (ds, t, p). (ds, t + 16, p),
    datagramTransport = \<lambda>s. s, serializeVersion = \<lambda>a b c. [], onePlayer = \<lambda>q i. [i],
    nbsStepsAllowedToAdd = \<lambda>s. True, nbsStepsOutSerializeCombinedStep = \<lambda>ps n. (1, [1]),
    nbsStepsWrite = \<lambda>s i d n. (0, s),
    nbsStepsInSerializeStepsForParticipantsFromOctets = \<lambda>d n.
      (0, Some (1, [\<lparr>stepParticipantId = 1, payload = take (unat n) d, payloadCount = n\<rparr>]))\<rparr>"

lemma sample_wired: "wired sampleLib sampleExample"
  by (simp add: wired_def clientReceive_def clientSend_def sampleExample_def sample_fields)

theorem example_never_predicts_witness:
  "\<exists>r' w' printed. exampleMain sampleLib sampleExample (\<lambda>count. replicate 32 0) 500 sample_realize sample_settings
     \<lparr>nonce = 0, joinGameRequestRest = []\<rparr> (sample_world [[1, 0, 50, 11, 5]]) = Some (Inr (500, r', w', printed))
   \<and> client_ok (client r') (heap w')"
proof -
  let ?q = "\<lparr>nonce = 0, joinGameRequestRest = []\<rparr>" and ?w0 = "sample_world [[1, 0, 50, 11, 5]]"
  let ?main = "\<lambda>n. exampleMain sampleLib sampleExample (\<lambda>count. replicate 32 0) n sample_realize sample_settings ?q ?w0"
  obtain r1 w1 where i: "nimbleClientRealizeInit sampleLib sample_realize
      (sample_settings\<lparr>settingsBlobMemory := [], settingsMemory := [], settingsTransport := [],
         settingsApplicationVersion := []\<rparr>) ?w0 = Some (r1, w1)"
    using realize_init_defined by blast
  then have "client_ok (client r1) (heap w1)" using init_ok [OF sample_realize_lookup i] by (simp add: realize_ok_def)
  then obtain r2 w2 where re: "nimbleClientRealizeReInit sampleLib r1
      (sample_settings\<lparr>settingsBlobMemory := [], settingsMemory := [], settingsTransport := [],
         settingsApplicationVersion := []\<rparr>) w1 = Some (r2, w2)"
    using reset_defined [of "(client r1)\<lparr>transport := []\<rparr>" w1 sampleLib]
    by (auto simp: client_ok_def nimbleClientRealizeReInit_def nimbleClientReInit_def Let_def)
  have "?w0\<lparr>outside := outside ?w0\<rparr> = ?w0" by simp
  then have start: "exampleStart sampleLib sampleExample sample_realize sample_settings ?q ?w0
      = Some (Inr (nimbleClientRealizeJoinGame r2 (?q\<lparr>joinGameRequestRest := [0xca]\<rparr>), w2))"
    using i re by (simp add: exampleStart_def sampleExample_def Let_def)
  have "\<not> reads_unprintable sampleLib sampleExample s" for s
    by (auto simp: reads_unprintable_def turn_reads_def nimbleClientReadStep_def sample_fields
        split: prod.splits option.splits bind_splits)
  then have "?main 500 \<noteq> None"
    using example_never_predicts [OF start sample_realize_lookup sample_stream_ok(3) sample_wired
        sample_stream_ok(1,2) sample_drains, where n = 500 and g = "\<lambda>count. replicate 32 0"] by blast
  then obtain x where x: "?main 500 = Some x" by blast
  with example_never_predicts [OF start sample_realize_lookup sample_stream_ok(3) sample_wired
        sample_stream_ok(1,2) sample_drains, where n = 500 and g = "\<lambda>count. replicate 32 0"]
  obtain r' w' printed where "x = Inr (of_nat 500, r', w', printed)" "client_ok (client r') (heap w')" by blast
  with x show ?thesis by simp
qed

end
