(* ===== verification/Listener.thy ===== *)
theory Listener
  imports ServedSession
begin

text \<open>
  The listener: what the client is as far as the protocol goes. Of its 45 fields it keeps those that
  messages from the server depend on or change, and the octets of the game state instead of a
  pointer to them; it has no statistics, no clock, no waits and no outgoing side. One function per
  message says what hearing it does, one what a datagram, a batch and an update do. The program
  refines it, whatever arrives and whatever is sent.
\<close>

section \<open>Its state\<close>

record 'x listener =
  heardState :: NimbleClientState
  heardPhase :: NimbleJoiningState
  heardSequence :: 'x
  heardRemote :: u8
  heardChannel :: nat
  heardRequest :: u8
  heardStateId :: u32
  heardLogic :: 'x
  heardBlob :: "'x BlobStreamIn"
  heardGame :: "u32 \<times> octets option" \<comment> \<open>the step id and the octets of the game state\<close>
  heardSteps :: "'x NbsSteps"
  heardPending :: 'x
  heardOut :: "'x NbsSteps" \<comment> \<open>the predicted steps that the server has not acknowledged\<close>
  heardEntries :: "NimbleClientParticipantEntry list"
  heardCount :: size_t
  heardWatch :: watch

text \<open>
  \<open>f\<close> gives of the logic of the incoming blob stream what receiving depends on; replying to the
  server may change the rest of it.
\<close>

definition listener_of :: "('x \<Rightarrow> 'x) \<Rightarrow> 'x NimbleClient \<Rightarrow> (addr \<rightharpoonup> octets) \<Rightarrow> 'x listener" where
  "listener_of f c h = \<lparr>heardState = state c, heardPhase = joinParticipantPhase c,
     heardSequence = orderedDatagramIn c, heardRemote = remoteConnectionId c,
     heardChannel = joinStateChannel c, heardRequest = downloadStateClientRequestId c,
     heardStateId = joinStateId c, heardLogic = f (blobStreamInLogic c), heardBlob = blobStreamIn c,
     heardGame = (stepId (joinedGameState c), h (gameState (joinedGameState c))),
     heardSteps = authoritativeStepsFromServer c,
     heardPending = authoritativePendingStepsFromServer c, heardOut = outSteps c,
     heardEntries = localParticipantLookup c, heardCount = localParticipantCount c,
     heardWatch = watch_of (quality c)\<rparr>"

definition replies_harmless :: "('x, 'w) nimble_lib \<Rightarrow> ('x \<Rightarrow> 'x) \<Rightarrow> bool" where
  "replies_harmless L f \<longleftrightarrow>
     (\<forall>l s. f (fst (snd (blobStreamLogicInSend L l s))) = f l)
     \<and> (\<forall>l b s. case blobStreamLogicInReceive L l b s of (k, l', b', s') \<Rightarrow>
          case blobStreamLogicInReceive L (f l) b s of (m, n, q, t) \<Rightarrow>
            m = k \<and> f n = f l' \<and> q = b' \<and> t = s')"

section \<open>Hearing a message\<close>

text \<open>Each gives the code that is returned and the listener afterwards.\<close>

definition hear_connect_response ::
    "('x, 'w) nimble_lib \<Rightarrow> 'x FldInStream \<Rightarrow> 'x listener \<Rightarrow> int \<times> 'x listener" where
  "hear_connect_response L s l =
     (case nimbleSerializeClientInConnectResponse L s of (e, resp, s') \<Rightarrow>
        if e < 0 then (e, l)
        else if heardState l = NimbleClientStateRequestingConnect
        then (0, l\<lparr>heardState := NimbleClientStateConnected, heardRemote := of_nat (connectionId resp)\<rparr>)
        else (0, l))"

definition hear_join_response ::
    "('x, 'w) nimble_lib \<Rightarrow> 'x FldInStream \<Rightarrow> 'x listener \<Rightarrow> int \<times> 'x listener" where
  "hear_join_response L s l =
     (case nimbleSerializeClientInJoinGameResponse L s of (e, resp, s') \<Rightarrow>
        if e < 0 then (e, l)
        else if heardPhase l \<noteq> NimbleJoiningStateJoiningParticipant then (0, l)
        else let n = participantCount resp in
          (0, l\<lparr>heardCount := n,
                heardEntries := map entry_of (take (unat n) (participants resp)) @ drop (unat n) (heardEntries l),
                heardPhase := NimbleJoiningStateJoinedParticipant, heardChannel := 0\<rparr>))"

definition hear_no_slots ::
    "('x, 'w) nimble_lib \<Rightarrow> 'x FldInStream \<Rightarrow> 'x listener \<Rightarrow> int \<times> 'x listener" where
  "hear_no_slots L s l =
     (case nimbleSerializeInNonce L s of (e, n, s') \<Rightarrow>
        if e < 0 then (e, l) else (0, l\<lparr>heardPhase := NimbleJoiningStateOutOfParticipantSlots\<rparr>))"

definition hear_state_response ::
    "('x, 'w) nimble_lib \<Rightarrow> 'x FldInStream \<Rightarrow> 'x listener \<Rightarrow> int \<times> 'x listener" where
  "hear_state_response L s l =
     (case fldInStreamReadUInt8 L s of (e1, request, s1) \<Rightarrow>
      case nimbleSerializeInStateId L s1 of (e2, i, s2) \<Rightarrow>
      case nimbleSerializeInBlobStreamChannelId L s2 of (e3, ch, s3) \<Rightarrow>
        if e3 < 0 then (e3, l)
        else if request \<noteq> heardRequest l \<or> ch = heardChannel l then (0, l)
        else (0, l\<lparr>heardChannel := ch, heardStateId := i, heardGame := (i, snd (heardGame l)),
                   heardOut := nbsStepsReInit L (heardOut l) i,
                   heardState := NimbleClientStateJoiningDownloadingState\<rparr>))"

text \<open>A blob that is complete becomes the game state, at the step that was announced for it.\<close>

definition install :: "('x, 'w) nimble_lib \<Rightarrow> 'x listener \<Rightarrow> 'x listener" where
  "install L l =
     (let i = heardStateId l; b = heardBlob l in
      l\<lparr>heardState := NimbleClientStateSynced,
        heardGame := (i, Some (take (unat (octetCount b)) (blob b))),
        heardPending := nbsPendingStepsReset L (heardPending l) i,
        heardSteps := nbsStepsReInit L (heardSteps l) i, heardOut := nbsStepsReInit L (heardOut l) i\<rparr>)"

definition hear_state_part ::
    "('x, 'w) nimble_lib \<Rightarrow> ('x \<Rightarrow> 'x) \<Rightarrow> 'x FldInStream \<Rightarrow> 'x listener \<Rightarrow> int \<times> 'x listener" where
  "hear_state_part L f s l =
     (case nimbleSerializeInBlobStreamChannelId L s of (e, ch, s1) \<Rightarrow>
        if ch \<noteq> heardChannel l then (0, l)
        else case blobStreamLogicInReceive L (heardLogic l) (heardBlob l) s1 of (k, lg, b, s2) \<Rightarrow>
          let l = l\<lparr>heardLogic := f lg, heardBlob := b\<rparr> in
          if k < 0 then (k, l)
          else if blobStreamInIsComplete L b \<and> heardState l \<noteq> NimbleClientStateSynced
          then (0, install L l) else (0, l))"

definition hear_step_response ::
    "('x, 'w) nimble_lib \<Rightarrow> 'x FldInStream \<Rightarrow> 'x listener \<Rightarrow> int \<times> 'x listener" where
  "hear_step_response L s l =
     (case fldInStreamReadUInt8 L s of (e1, n, s1) \<Rightarrow>
      case fldInStreamReadInt8 L s1 of (e2, d, s2) \<Rightarrow>
      case fldInStreamReadUInt32 L s2 of (e3, received, s3) \<Rightarrow>
      case nbsPendingStepsInSerialize L s3 (heardPending l) of (k, s4, pending) \<Rightarrow>
        let l = l\<lparr>heardOut := nbsStepsDiscardUpTo L (heardOut l) (received + 1), heardPending := pending\<rparr> in
        if k < 0 then (wrap_s32 k, l)
        else case nbsPendingStepsCopy L (heardSteps l) pending of (e4, steps, pending) \<Rightarrow>
          (wrap_s32 k, l\<lparr>heardSteps := steps, heardPending := pending,
                         heardWatch := (heardWatch l)\<lparr>silentStepTicks := 0\<rparr>\<rparr>))"

definition hear ::
    "('x, 'w) nimble_lib \<Rightarrow> ('x \<Rightarrow> 'x) \<Rightarrow> u8 \<Rightarrow> 'x FldInStream \<Rightarrow> 'x listener \<Rightarrow> int \<times> 'x listener" where
  "hear L f cmd s l =
     (if cmd = NimbleSerializeCmdConnectResponse L then hear_connect_response L s l
      else if cmd = NimbleSerializeCmdServerOutBlobStream L then hear_state_part L f s l
      else if cmd = NimbleSerializeCmdGameStepResponse L then hear_step_response L s l
      else if cmd = NimbleSerializeCmdJoinGameResponse L then hear_join_response L s l
      else if cmd = NimbleSerializeCmdGameStateResponse L then hear_state_response L s l
      else if cmd = NimbleSerializeCmdJoinGameOutOfParticipantSlotsResponse L then hear_no_slots L s l
      else (-1, l))"

section \<open>Hearing datagrams\<close>

text \<open>A datagram has a place in the sequence, a time that is echoed, a command and a message.\<close>

definition hear_datagram ::
    "('x, 'w) nimble_lib \<Rightarrow> ('x \<Rightarrow> 'x) \<Rightarrow> octets \<Rightarrow> 'x listener \<Rightarrow> int \<times> 'x listener" where
  "hear_datagram L f d l =
     (let n = size_of_int (int (length d)) in
      if n < 1 then (-1, l)
      else if heardState l = NimbleClientStateDisconnected then (0, l)
      else case orderedDatagramInLogicReceive L (heardSequence l) (in_stream L d n) of (delta, x, s) \<Rightarrow>
        let l = l\<lparr>heardSequence := x\<rparr> in
        if delta \<le> 0 then (-91, l)
        else case fldInStreamReadUInt16 L (fldInStreamCheckMarker L s 0xdd) of (e, t, s) \<Rightarrow>
          if e < 0 then (e, l)
          else case fldInStreamReadUInt8 L s of (e', cmd, s) \<Rightarrow> hear L f cmd s l)"

text \<open>
  The batch of an update, with the batches of the updates to come: whether everything in it was
  heard, what is still to come, and the listener. A datagram that is refused ends the update, an
  empty one the receiving; what is left of the batch stays for the next update.
\<close>

fun hear_batch ::
    "('x, 'w) nimble_lib \<Rightarrow> ('x \<Rightarrow> 'x) \<Rightarrow> octets list \<Rightarrow> (nat \<Rightarrow> octets list) \<Rightarrow> 'x listener
     \<Rightarrow> bool \<times> (nat \<Rightarrow> octets list) \<times> 'x listener" where
  "hear_batch L f [] later l = (True, \<lambda>i. later (Suc i), l)"
| "hear_batch L f (d # ds) later l =
     (if d = [] then (True, later(0 := ds), l)
      else case hear_datagram L f d l of (e, l) \<Rightarrow>
        if e < 0 then (False, later(0 := ds), l)
        else hear_batch L f ds later (l\<lparr>heardWatch := (heardWatch l)\<lparr>silentDatagramTicks := 0\<rparr>\<rparr>))"

section \<open>An update\<close>

definition judge :: "'x listener \<Rightarrow> 'x listener" where
  "judge l =
     (if heardState l = NimbleClientStateSynced then
        let l = l\<lparr>heardWatch := watch_tick (heardWatch l)\<rparr> in
        if verdict (heardWatch l) \<noteq> KeepConnection then l\<lparr>heardState := NimbleClientStateDisconnected\<rparr> else l
      else l)"

definition listener_update ::
    "('x, 'w) nimble_lib \<Rightarrow> ('x \<Rightarrow> 'x) \<Rightarrow> (nat \<Rightarrow> octets list) \<times> 'x listener
     \<Rightarrow> (nat \<Rightarrow> octets list) \<times> 'x listener" where
  "listener_update L f = (\<lambda>(later, l).
     case hear_batch L f (later 0) later l of (all_heard, later, l) \<Rightarrow> (later, if all_heard then judge l else l))"

text \<open>The realizer's part: its target, the state it has reached, the arrivals and the listener.\<close>

type_synonym 'x session_state =
  "NimbleClientRealizeState \<times> NimbleClientRealizeState \<times> (nat \<Rightarrow> octets list) \<times> 'x listener"

definition steer_listener :: "'x session_state \<Rightarrow> 'x session_state" where
  "steer_listener = (\<lambda>(target, reached, later, l).
     if target = reached then (target, reached, later, l)
     else if target = NimbleClientRealizeStateCleared then (target, target, later, l)
     else if target = NimbleClientRealizeStateSynced then
       if heardState l = NimbleClientStateIdle
       then (target, reached, later, l\<lparr>heardState := NimbleClientStateRequestingConnect\<rparr>)
       else if heardState l = NimbleClientStateConnected
       then (target, reached, later, l\<lparr>heardState := NimbleClientStateJoiningRequestingState,
               heardPhase := NimbleJoiningStateJoiningParticipant\<rparr>)
       else if heardState l = NimbleClientStateSynced then (target, target, later, l)
       else (target, reached, later, l)
     else (target, reached, later, l))"

definition session_update ::
    "('x, 'w) nimble_lib \<Rightarrow> ('x \<Rightarrow> 'x) \<Rightarrow> 'x session_state \<Rightarrow> 'x session_state" where
  "session_update L f = (\<lambda>(target, reached, later, l).
     if heardState l = NimbleClientStateDisconnected
     then (target, NimbleClientRealizeStateDisconnected, later, l)
     else
       let (later, l) =
         (if reached \<noteq> NimbleClientRealizeStateCleared \<and> target \<noteq> NimbleClientRealizeStateInit
          then listener_update L f (later, l) else (later, l))
       in steer_listener (target, reached, later, l))"

definition session_of ::
    "('x \<Rightarrow> 'x) \<Rightarrow> ('w \<Rightarrow> nat \<Rightarrow> octets list) \<Rightarrow> 'x NimbleClientRealize \<Rightarrow> 'w world \<Rightarrow> 'x session_state" where
  "session_of f inbox r w =
     (targetState r, realizeState r, arrivals inbox w, listener_of f (client r) (heap w))"

end
