(* ===== verification/ListenerRefinement.thy ===== *)
theory ListenerRefinement
  imports Listener
begin

text \<open>
  The program refines the listener: every handler, the feeding of any datagram, the receive loop,
  the client's update and the realizer's update do to the listener's fields what the listener does.
\<close>

section \<open>Handlers\<close>

lemma heard_connect_response:
  assumes "nimbleClientOnConnectResponse L c s w = Some (r, c', s', w')"
  shows "hear_connect_response L s (listener_of f c (heap w)) = (r, listener_of f c' (heap w'))"
  using assms
  by (auto simp: nimbleClientOnConnectResponse_def hear_connect_response_def listener_of_def clog_assert_def
      Let_def split: prod.splits if_splits)

lemma heard_join_response:
  assumes "answers_ok L" "length (localParticipantLookup c) = NIMBLE_CLIENT_MAX_LOCAL_USERS_COUNT"
    and "nimbleClientOnJoinGameResponse L c s w = Some (r, c', s', w')"
  shows "hear_join_response L s (listener_of f c (heap w)) = (r, listener_of f c' (heap w'))"
proof -
  obtain e resp s1 where rd: "nimbleSerializeClientInJoinGameResponse L s = (e, resp, s1)"
    by (cases "nimbleSerializeClientInJoinGameResponse L s") auto
  show ?thesis
  proof (cases "e < 0 \<or> joinParticipantPhase c \<noteq> NimbleJoiningStateJoiningParticipant")
    case True
    then show ?thesis
      using assms(3) by (auto simp: nimbleClientOnJoinGameResponse_def hear_join_response_def rd listener_of_def)
  next
    case False
    then have "unat (participantCount resp) \<le> length (localParticipantLookup c)"
      "unat (participantCount resp) \<le> length (participants resp)"
      using join_answer_ok [OF answers_ok_parts(1) [OF assms(1)] rd] assms(2) by simp_all
    then have "storeParticipantsFrom (participants resp) (participantCount resp) 0 (localParticipantLookup c)
      = Some (map entry_of (take (unat (participantCount resp)) (participants resp))
          @ drop (unat (participantCount resp)) (localParticipantLookup c))"
      by (simp add: storeParticipants_result)
    with False assms(3) show ?thesis
      by (auto simp: nimbleClientOnJoinGameResponse_def hear_join_response_def rd listener_of_def Let_def)
  qed
qed

lemma heard_no_slots:
  assumes "nimbleClientOnJoinGameParticipantOutOfSpaceResponse L c s w = Some (r, c', s', w')"
  shows "hear_no_slots L s (listener_of f c (heap w)) = (r, listener_of f c' (heap w'))"
  using assms
  by (auto simp: nimbleClientOnJoinGameParticipantOutOfSpaceResponse_def hear_no_slots_def listener_of_def
      split: prod.splits if_splits)

lemma heard_state_response:
  assumes "nimbleClientOnDownloadGameStateResponse L c s w = Some (r, c', s', w')"
  shows "hear_state_response L s (listener_of f c (heap w)) = (r, listener_of f c' (heap w'))"
  using assms
  by (auto simp: nimbleClientOnDownloadGameStateResponse_def hear_state_response_def listener_of_def
      Let_def split: prod.splits if_splits)

lemma heard_state_part:
  assumes "replies_harmless L f" "nimbleClientOnDownloadGameStatePart L c s w = Some (r, c', s', w')"
  shows "hear_state_part L f s (listener_of f c (heap w)) = (r, listener_of f c' (heap w'))"
proof -
  obtain e ch s1 where rd: "nimbleSerializeInBlobStreamChannelId L s = (e, ch, s1)"
    by (cases "nimbleSerializeInBlobStreamChannelId L s") auto
  obtain k lg b s2 where b: "blobStreamLogicInReceive L (blobStreamInLogic c) (blobStreamIn c) s1 = (k, lg, b, s2)"
    by (cases "blobStreamLogicInReceive L (blobStreamInLogic c) (blobStreamIn c) s1") auto
  then obtain n where fb: "blobStreamLogicInReceive L (f (blobStreamInLogic c)) (blobStreamIn c) s1 = (k, n, b, s2)"
    "f n = f lg"
    using assms(1) [unfolded replies_harmless_def, THEN conjunct2, rule_format, of "blobStreamInLogic c" "blobStreamIn c" s1]
    by (auto split: prod.splits)
  consider "ch \<noteq> joinStateChannel c"
    | "ch = joinStateChannel c" "k < 0 \<or> \<not> blobStreamInIsComplete L b \<or> state c = NimbleClientStateSynced"
    | "ch = joinStateChannel c" "\<not> k < 0" "blobStreamInIsComplete L b" "state c \<noteq> NimbleClientStateSynced"
    by blast
  then show ?thesis
  proof cases
    case 3
    then obtain g where g: "nimbleClientGameStateInit L (joinedGameState c) (blobStreamAllocator c) (joinStateId c)
        (blob b) (octetCount b) w = Some (g, w')"
      and c': "r = 0" "c' = c\<lparr>blobStreamInLogic := lg, blobStreamIn := b, state := NimbleClientStateSynced,
        joinedGameState := g,
        authoritativePendingStepsFromServer := nbsPendingStepsReset L (authoritativePendingStepsFromServer c) (stepId g),
        authoritativeStepsFromServer := nbsStepsReInit L (authoritativeStepsFromServer c) (stepId g),
        outSteps := nbsStepsReInit L (outSteps c) (stepId g)\<rparr>"
      using assms(2)
      by (auto simp: nimbleClientOnDownloadGameStatePart_def rd b trySetInitialGameState_def Let_def)
    from g have "stepId g = joinStateId c" "heap w' (gameState g) = Some (take (unat (octetCount b)) (blob b))"
      by (auto elim: init_SomeE)
    with 3 c' fb show ?thesis
      by (simp add: hear_state_part_def rd listener_of_def install_def Let_def)
  qed (use assms(2) b fb in \<open>auto simp: nimbleClientOnDownloadGameStatePart_def hear_state_part_def rd
      listener_of_def trySetInitialGameState_def Let_def split: if_splits\<close>)
qed

text \<open>The head of a step response: of what the listener keeps only the predicted steps change.\<close>

lemma heard_step_head:
  assumes "fldInStreamReadUInt8 L s = (e1, n, s1)" "fldInStreamReadInt8 L s1 = (e2, d, s2)"
    and "fldInStreamReadUInt32 L s2 = (e3, received, s3)"
  obtains c1 where "readStepResponseHead L c s = (c1, s3)"
    and "\<forall>h. listener_of f c1 h =
      (listener_of f c h)\<lparr>heardOut := nbsStepsDiscardUpTo L (outSteps c) (received + 1)\<rparr>"
proof (rule that)
  show "readStepResponseHead L c s = (fst (readStepResponseHead L c s), s3)"
    using assms by (simp add: readStepResponseHead_def Let_def)
  have "outSteps (fst (readStepResponseHead L c s)) = nbsStepsDiscardUpTo L (outSteps c) (received + 1)"
    using assms by (simp add: readStepResponseHead_def Let_def)
  then show "\<forall>h. listener_of f (fst (readStepResponseHead L c s)) h =
      (listener_of f c h)\<lparr>heardOut := nbsStepsDiscardUpTo L (outSteps c) (received + 1)\<rparr>"
    by (auto intro: step_head_effect [of L c s] simp: listener_of_def)
qed

lemma heard_step_response:
  assumes "nimbleClientOnGameStepResponse L c s w = Some (r, c', s', w')"
  shows "hear_step_response L s (listener_of f c (heap w)) = (wrap_s32 r, listener_of f c' (heap w'))"
proof -
  obtain e1 n s1 where 1: "fldInStreamReadUInt8 L s = (e1, n, s1)" by (cases "fldInStreamReadUInt8 L s") auto
  obtain e2 d s2 where 2: "fldInStreamReadInt8 L s1 = (e2, d, s2)" by (cases "fldInStreamReadInt8 L s1") auto
  obtain e3 i s3 where 3: "fldInStreamReadUInt32 L s2 = (e3, i, s3)" by (cases "fldInStreamReadUInt32 L s2") auto
  obtain c1 where head: "readStepResponseHead L c s = (c1, s3)"
    and c1: "\<forall>h. listener_of f c1 h = (listener_of f c h)\<lparr>heardOut := nbsStepsDiscardUpTo L (outSteps c) (i + 1)\<rparr>"
    by (rule heard_step_head [OF 1 2 3, where c = c and f = f])
  have same: "authoritativePendingStepsFromServer c1 = authoritativePendingStepsFromServer c"
    "authoritativeStepsFromServer c1 = authoritativeStepsFromServer c"
    using c1 [rule_format, of Map.empty] by (simp_all add: listener_of_def)
  obtain k s4 p where k: "nbsPendingStepsInSerialize L s3 (authoritativePendingStepsFromServer c) = (k, s4, p)"
    by (cases "nbsPendingStepsInSerialize L s3 (authoritativePendingStepsFromServer c)") auto
  obtain e4 a p' where cp: "nbsPendingStepsCopy L (authoritativeStepsFromServer c) p = (e4, a, p')"
    by (cases "nbsPendingStepsCopy L (authoritativeStepsFromServer c) p") auto
  note l1 = c1 [rule_format, of "heap w", unfolded listener_of_def, simplified]
  show ?thesis
    using assms l1
    by (cases "k < 0")
       (auto simp: nimbleClientOnGameStepResponse_def head same k cp hear_step_response_def 1 2 3 listener_of_def
         nimbleClientConnectionQualityReceivedAuthoritativeSteps_def watch_of_def Let_def)
qed

lemma heard_dispatch:
  assumes "answers_ok L" "replies_harmless L f"
    and "length (localParticipantLookup c) = NIMBLE_CLIENT_MAX_LOCAL_USERS_COUNT"
    and "dispatchCommand L cmd c s w = Some (r, c', s', w')"
  shows "hear L f cmd s (listener_of f c (heap w)) = (r, listener_of f c' (heap w'))"
  using assms
  by (auto simp: dispatchCommand_def hear_def heard_connect_response heard_state_part heard_join_response
      heard_no_slots heard_state_response dest: heard_step_response split: if_splits)

section \<open>Datagrams\<close>

text \<open>The echoed time is read; the latency that it gives is nothing to the listener.\<close>

lemma pong_reads:
  assumes "fldInStreamReadUInt16 L (fldInStreamCheckMarker L s 0xdd) = (e, t, s1)"
    and "nimbleClientReceivePong L c s w = Some (r, c', s', w')"
  shows "e < 0 \<Longrightarrow> r = e" "\<not> e < 0 \<Longrightarrow> r = 0 \<and> s' = s1"
  using assms by (auto simp: nimbleClientReceivePong_def Let_def split: prod.splits)

lemma heard_pong:
  "nimbleClientReceivePong L c s w = Some (r, c', s', w') \<Longrightarrow> listener_of f c' (heap w') = listener_of f c (heap w)"
  by (elim pong_effect)
     (simp_all add: listener_of_def watch_of_def time_now_frame nimbleClientConnectionQualityGameStepLatency_def)

lemma heard_prepared:
  "listener_of f (prepared_client L delta x c) h = (listener_of f c h)\<lparr>heardSequence := x\<rparr>"
  by (simp add: listener_of_def prepared_client_def noteDroppedDatagrams_def watch_of_def
      nimbleClientConnectionQualityDroppedDatagrams_def Let_def)

lemma heard_datagram:
  fixes L :: "('x, 'w) nimble_lib"
  assumes ok: "answers_ok L" "replies_harmless L f"
    and len: "length (localParticipantLookup c) = NIMBLE_CLIENT_MAX_LOCAL_USERS_COUNT"
    and feed: "nimbleClientFeed L c d (size_of_int (int (length d))) w = Some (r, c', w')"
  shows "hear_datagram L f d (listener_of f c (heap w)) = (r, listener_of f c' (heap w'))"
proof -
  let ?n = "size_of_int (int (length d))"
  obtain delta x i where o: "orderedDatagramInLogicReceive L (orderedDatagramIn c) (in_stream L d ?n) = (delta, x, i)"
    by (cases "orderedDatagramInLogicReceive L (orderedDatagramIn c) (in_stream L d ?n)") auto
  have fields: "heardState (listener_of f c h) = state c" "heardSequence (listener_of f c h) = orderedDatagramIn c" for h
    by (simp_all add: listener_of_def)
  show ?thesis
  proof (cases "?n < 1 \<or> state c = NimbleClientStateDisconnected \<or> delta \<le> 0")
    case True
    with feed o show ?thesis
      by (auto simp: nimbleClientFeed_def readAndCheckOrderedDatagram_def in_stream_def hear_datagram_def
          fields Let_def) (simp_all add: listener_of_def)
  next
    case False
    let ?c = "prepared_client L delta x c"
    obtain e t i1 where t: "fldInStreamReadUInt16 L (fldInStreamCheckMarker L i 0xdd) = (e, t, i1)"
      by (cases "fldInStreamReadUInt16 L (fldInStreamCheckMarker L i 0xdd)") auto
    obtain k c1 i2 w1 where p: "nimbleClientReceivePong L ?c i w = Some (k, c1, i2, w1)"
      using pong_defined [of L ?c i w] by auto
    have l1: "listener_of f c1 (heap w1) = (listener_of f c (heap w))\<lparr>heardSequence := x\<rparr>"
      using heard_pong [OF p] by (simp add: heard_prepared)
    have hear: "hear_datagram L f d (listener_of f c (heap w)) =
      (if e < 0 then (e, listener_of f c1 (heap w1))
       else case fldInStreamReadUInt8 L i1 of (e', cmd, s) \<Rightarrow> hear L f cmd s (listener_of f c1 (heap w1)))"
      using False by (auto simp: hear_datagram_def fields o t l1 Let_def)
    have acc: "nimbleClientFeed L c d ?n w =
      (if k < 0 then Some (k, c1, w1)
       else do { let (e, cmd, i) = fldInStreamReadUInt8 L i2;
                 (r, c, i, w) \<leftarrow> dispatchCommand L cmd c1 i w1; Some (r, c, w) })"
      using False by (subst feed_accepted [OF o]) (simp_all add: p)
    show ?thesis
    proof (cases "e < 0")
      case True
      with pong_reads(1) [OF t p] feed show ?thesis by (simp add: hear acc)
    next
      case ok_time: False
      obtain e' cmd s where q: "fldInStreamReadUInt8 L i1 = (e', cmd, s)" by (cases "fldInStreamReadUInt8 L i1") auto
      from feed ok_time pong_reads(2) [OF t p] obtain s'
        where d: "dispatchCommand L cmd c1 s w1 = Some (r, c', s', w')"
        by (cases "dispatchCommand L cmd c1 s w1") (auto simp: acc q Let_def)
      have "length (localParticipantLookup c1) = NIMBLE_CLIENT_MAX_LOCAL_USERS_COUNT"
        using l1 len by (simp add: listener_of_def)
      from heard_dispatch [OF ok this d] ok_time show ?thesis by (simp add: hear q)
    qed
  qed
qed

end
