(* ===== verification/ListenerSession.thy ===== *)
theory ListenerSession
  imports ListenerRefinement
begin

text \<open>
  From one datagram to whole sessions: under a scripted server the receive loop hears the batch
  of the update, sending and waiting change nothing that the listener keeps, and so the realizer's
  updates are the listener's, one by one and any number of them.
\<close>

section \<open>The receive loop\<close>

lemma scripted_calls: "scripted L inbox \<Longrightarrow> library_calls L x y \<Longrightarrow> inbox y = inbox x"
  by (erule library_calls.induct [where P = "\<lambda>x y. inbox y = inbox x"]) (simp_all add: scripted_def)

lemma scripted_feed:
  "scripted L inbox \<Longrightarrow> nimbleClientFeed L c d n w = Some (r, c', w') \<Longrightarrow> arrivals inbox w' = arrivals inbox w"
  using calls.feed [of L c d n w r c' w'] scripted_calls by (fastforce simp: calls_only_def)

lemma heard_counted [simp]: "listener_of f (count_in L c) h = listener_of f c h"
  by (simp add: listener_of_def count_in_def)

lemma heard_usable [simp]:
  "listener_of f (usable L c) h =
     (listener_of f c h)\<lparr>heardWatch := (heardWatch (listener_of f c h))\<lparr>silentDatagramTicks := 0\<rparr>\<rparr>"
  by (simp add: listener_of_def watch_of_def nimbleClientConnectionQualityReceivedUsableDatagram_def)

lemma hear_batch_current [simp]: "hear_batch L f ds (later(0 := x)) l = hear_batch L f ds later l"
  by (induction ds arbitrary: l) (auto split: prod.splits)

lemma client_ok_counted [simp]: "client_ok (count_in L c) h = client_ok c h" "client_ok (usable L c) h = client_ok c h"
  by (simp_all add: client_ok_def count_in_def)

lemma int_of_size_nonneg:
  assumes "unat v < 2147483648"
  shows "0 \<le> int_of_size v"
proof -
  have "uint v = int (unat v)" by simp
  with assms have "0 \<le> uint v" "uint v < 2147483648" by linarith+
  then show ?thesis by (simp only: int_of_size_def wrap_s32_id)
qed

lemma unat_size_suc: "unat (v + 1 :: size_t) \<le> Suc (unat v)"
  by (simp add: unat_word_ariths)

lemma heard_batch:
  fixes L :: "('x, 'w) nimble_lib"
  assumes sc: "scripted L inbox" and ok: "answers_ok L" "replies_harmless L f"
  shows "client_ok c (heap w) \<Longrightarrow> arrivals inbox w 0 = ds \<Longrightarrow> unat count + length ds < 2147483648 \<Longrightarrow>
    \<exists>k c' w'. receiveDatagrams L count c w = Some (k, c', w') \<and> client_ok c' (heap w')
      \<and> hear_batch L f ds (arrivals inbox w) (listener_of f c (heap w))
          = (0 \<le> k, arrivals inbox w', listener_of f c' (heap w'))"
proof (induction ds arbitrary: count c w)
  case Nil
  obtain b w1 where r: "transport_receive L (transport c) (DATAGRAM_TRANSPORT_MAX_SIZE L) w = (0, b, w1)"
    and w1: "arrivals inbox w1 = (\<lambda>i. arrivals inbox w (Suc i))" "heap w1 = heap w"
    using scripted_receive_nothing [OF sc Nil(2)] by metis
  have "receiveDatagrams L count c w = Some (int_of_size count, c, w1)"
    by (subst receiveDatagrams.simps) (simp add: r)
  moreover have "0 \<le> int_of_size count" using Nil(3) by (simp add: int_of_size_nonneg)
  ultimately show ?case using Nil(1) w1 by simp
next
  case (Cons d ds)
  obtain w1 where r: "transport_receive L (transport c) (DATAGRAM_TRANSPORT_MAX_SIZE L) w = (int (length d), d, w1)"
    and w1: "arrivals inbox w1 = (arrivals inbox w)(0 := ds)" "heap w1 = heap w"
    using scripted_receive_datagram [OF sc Cons.prems(2)] by metis
  show ?case
  proof (cases "d = []")
    case True
    have "receiveDatagrams L count c w = Some (int_of_size count, c, w1)"
      using r True by (subst receiveDatagrams.simps) simp
    moreover have "0 \<le> int_of_size count" using Cons.prems(3) by (simp add: int_of_size_nonneg)
    ultimately show ?thesis using Cons.prems(1) w1 True by simp
  next
    case False
    have ok1: "client_ok (count_in L c) (heap w1)" using Cons.prems(1) w1 by simp
    then have len: "length (localParticipantLookup (count_in L c)) = NIMBLE_CLIENT_MAX_LOCAL_USERS_COUNT"
      by (simp add: client_ok_def)
    obtain e c2 w2 where feed: "nimbleClientFeed L (count_in L c) d (size_of_int (int (length d))) w1 = Some (e, c2, w2)"
      using feed_defined [OF ok(1) len, of d "size_of_int (int (length d))" w1] by auto
    have heard: "hear_datagram L f d (listener_of f c (heap w)) = (e, listener_of f c2 (heap w2))"
      using heard_datagram [OF ok len feed] w1 by simp
    have arr: "arrivals inbox w2 = (arrivals inbox w)(0 := ds)" using scripted_feed [OF sc feed] w1 by simp
    have ok2: "client_ok c2 (heap w2)" by (rule feed_lookup_length [OF feed ok1])
    have loop: "receiveDatagrams L count c w =
      (if e < 0 then Some (e, c2, w2) else receiveDatagrams L (count + 1) (usable L c2) w2)"
      using False feed by (subst receiveDatagrams.simps) (simp add: r count_in_def)
    show ?thesis
    proof (cases "e < 0")
      case True
      with loop heard arr ok2 False show ?thesis by simp
    next
      case e: False
      have "unat (count + 1) + length ds < 2147483648"
        using Cons.prems(3) unat_size_suc [of count] by simp
      from Cons.IH [of "usable L c2" w2 "count + 1", OF _ _ this, unfolded arr hear_batch_current heard_usable] ok2
      obtain k c' w'
        where "receiveDatagrams L (count + 1) (usable L c2) w2 = Some (k, c', w')" "client_ok c' (heap w')"
          "hear_batch L f ds (arrivals inbox w) ((listener_of f c2 (heap w2))
              \<lparr>heardWatch := (heardWatch (listener_of f c2 (heap w2)))\<lparr>silentDatagramTicks := 0\<rparr>\<rparr>)
            = (0 \<le> k, arrivals inbox w', listener_of f c' (heap w'))" by auto
      with e loop heard arr False show ?thesis by simp
    qed
  qed
qed

section \<open>Sending\<close>

text \<open>
  Sending keeps what the listener keeps of the blob stream, if replies are harmless; what else the
  listener has is in the frame of sending.
\<close>

definition stream_kept ::
    "('x, 'w) nimble_lib \<Rightarrow> ('x \<Rightarrow> 'x) \<Rightarrow> 'x NimbleClient \<times> 'w world \<Rightarrow> 'x NimbleClient \<times> 'w world \<Rightarrow> bool" where
  "stream_kept L f s t \<longleftrightarrow> (replies_harmless L f \<longrightarrow>
     blobStreamIn (fst t) = blobStreamIn (fst s) \<and> f (blobStreamInLogic (fst t)) = f (blobStreamInLogic (fst s)))"

lemma stream_message:
  assumes "replies_harmless L f" "sendMessageUsingStream L c s = (r, c', s')"
  shows "blobStreamIn c' = blobStreamIn c" "f (blobStreamInLogic c') = f (blobStreamInLogic c)"
proof -
  have "f lg = f l" if "blobStreamLogicInSend L l s = (e, lg, s2)" for l s e lg s2
    using assms(1) [unfolded replies_harmless_def, THEN conjunct1, rule_format, of l s] that by simp
  with message_stream(2) [OF assms(2)] show "f (blobStreamInLogic c') = f (blobStreamInLogic c)" by metis
qed (rule message_stream(1) [OF assms(2)])

interpretation stream_sends: outgoing_contract L "stream_kept L f"
  for L :: "('x, 'w) nimble_lib" and f
proof (unfold_locales, goal_cases)
  case (3 c tr w r c' w')
  then show ?case
    by (cases rule: send_message_effect)
       (auto simp: stream_kept_def nimbleClientCommitHeader_def dest: header_effect(1) stream_message)
next
  case (4 c tr w r c' w')
  from 4 show ?case
  proof (cases rule: send_steps_effect)
    case (stopped e c1 s1 w1 k c2 s2)
    with header_effect(1) [OF stopped(1)] stream_steps [OF stopped(2)] show ?thesis by (simp add: stream_kept_def)
  next
    case (sending e c1 s1 w1 k c2 s2)
    with header_effect(1) [OF sending(1)] stream_steps [OF sending(2)] show ?thesis
      by (simp add: stream_kept_def nimbleClientCommitHeader_def)
  qed
qed (auto simp: stream_kept_def)

lemma heard_sent:
  assumes "replies_harmless L f" "sendPackets L c w = (e, c', w')"
  shows "listener_of f c' (heap w') = listener_of f c (heap w)"
proof -
  obtain r c1 w1 where o: "nimbleClientOutgoing L c (transport c) w = (r, c1, w1)"
    by (cases "nimbleClientOutgoing L c (transport c) w") auto
  have "stream_kept L f (c, w) (c', w')"
    using assms(2) stream_sends.outgoing [OF o, of f] stream_sends.refl
    by (auto simp: sendPackets_def o Let_def split: if_splits)
  with send_packets_keeps(1) [OF assms(2)] assms(1) show ?thesis
    by (simp add: stream_kept_def sending_kept_def listener_of_def)
qed

section \<open>An update\<close>

lemma heard_judged: "listener_of f (judged L c) h = judge (listener_of f c h)"
  by (simp add: listener_of_def judge_def judged_def checkIfDisconnectIsNeeded_def watch_of_update
      should_disconnect_watch Let_def)

lemma heard_ticked [simp]: "listener_of f (ticked L c now) h = listener_of f c h"
  by (simp add: listener_of_def ticked_def checkTickInterval_def Let_def)

lemma client_ok_ticked [simp]: "client_ok (ticked L c now) h = client_ok c h"
  by (simp add: ticked_def)

lemma heard_after_receive:
  assumes "scripted L inbox" "replies_harmless L f" "updateAfterReceive L c now k w = (r, c', w')"
  shows "listener_of f c' (heap w') = judge (listener_of f c (heap w))"
    and "arrivals inbox w' = arrivals inbox w"
proof -
  have "listener_of f c' (heap w') = judge (listener_of f c (heap w)) \<and> arrivals inbox w' = arrivals inbox w"
  proof (cases "0 < waitTime c")
    case True
    then have eq: "c' = (judged L c)\<lparr>waitTime := waitTime c - 1\<rparr>" "w' = w"
      using assms(3) by (simp_all add: after_receive_waits)
    have "listener_of f c' h = listener_of f (judged L c) h" for h by (simp add: eq listener_of_def)
    then show ?thesis by (simp add: heard_judged eq(2))
  next
    case False
    let ?c = "showStats (calcStats L (judged L c) now)"
    obtain e c2 w2 where s: "sendPackets L ?c w = (e, c2, w2)" by (cases "sendPackets L ?c w") auto
    with assms(3) False have eq: "c' = c2" "w' = w2" by (simp_all add: after_receive_sends [OF _ s])
    have "listener_of f ?c (heap w) = listener_of f (judged L c) (heap w)"
      by (simp add: listener_of_def showStats_def calcStats_def)
    moreover have "arrivals inbox w2 = arrivals inbox w"
      using send_packets_keeps(2) [OF s, of "\<lambda>y. inbox y = arrivals inbox w"] scripted_closed [OF assms(1)]
      by (simp add: world_kept_def)
    ultimately show ?thesis using heard_sent [OF assms(2) s] by (simp add: heard_judged eq)
  qed
  then show "listener_of f c' (heap w') = judge (listener_of f c (heap w))"
    "arrivals inbox w' = arrivals inbox w" by simp_all
qed

lemma heard_update:
  assumes "scripted L inbox" "answers_ok L" "replies_harmless L f"
    and "client_ok c (heap w)" "length (arrivals inbox w 0) < 2147483648"
  shows "\<exists>r c' w'. nimbleClientUpdate L c now w = Some (r, c', w') \<and> client_ok c' (heap w')
    \<and> (arrivals inbox w', listener_of f c' (heap w')) = listener_update L f (arrivals inbox w, listener_of f c (heap w))"
proof -
  from heard_batch [OF assms(1-3), of "ticked L c now" w "arrivals inbox w 0" 0] assms(4,5)
  obtain k c1 w1 where rc: "receiveDatagrams L 0 (ticked L c now) w = Some (k, c1, w1)" "client_ok c1 (heap w1)"
    and b: "hear_batch L f (arrivals inbox w 0) (arrivals inbox w) (listener_of f c (heap w))
      = (0 \<le> k, arrivals inbox w1, listener_of f c1 (heap w1))" by auto
  have u: "nimbleClientUpdate L c now w =
      (if k < 0 then Some (wrap_s32 k, c1, w1) else Some (updateAfterReceive L c1 now k w1))"
    using rc(1) by (simp add: nimbleClientUpdate_def nimbleClientReceiveAllDatagramsFromTransport_def ticked_def Let_def)
  show ?thesis
  proof (cases "k < 0")
    case True
    with rc(2) show ?thesis by (simp add: u listener_update_def b)
  next
    case False
    obtain r c' w' where a: "updateAfterReceive L c1 now k w1 = (r, c', w')"
      by (cases "updateAfterReceive L c1 now k w1") auto
    from ok_updates.after_receive [OF a] rc(2) have "client_ok c' (heap w')" by (simp add: ok_kept_def)
    with False heard_after_receive [OF assms(1,3) a] show ?thesis by (simp add: u a listener_update_def b)
  qed
qed

section \<open>The realizer\<close>

lemma hear_batch_sizes:
  "hear_batch L f ds later l = (b, later', l') \<Longrightarrow> length ds < n \<Longrightarrow> \<forall>i. length (later i) < n \<Longrightarrow>
     \<forall>i. length (later' i) < n"
  by (induction L f ds later l rule: hear_batch.induct) (auto split: if_splits prod.splits)

lemma listener_update_sizes:
  assumes "\<forall>i. length (later i) < n"
  shows "\<forall>i. length (fst (listener_update L f (later, l)) i) < n"
  using hear_batch_sizes [of L f "later 0" later l _ _ _ n] assms
  by (auto simp: listener_update_def split: prod.splits)

lemma heard_steered:
  "session_of f inbox (if targetState r = realizeState r then r else steer r) w =
     steer_listener (session_of f inbox r w)"
  by (cases "targetState r"; cases "state (client r)")
     (auto simp: session_of_def steer_listener_def steer_def steerToSynced_def listener_of_def)

lemma client_ok_steer [simp]: "client_ok (client (steer r)) h = client_ok (client r) h"
  by (cases "targetState r"; cases "state (client r)") (simp_all add: steer_def steerToSynced_def client_ok_def)

lemma heard_realizer:
  assumes L: "scripted L inbox" "answers_ok L" "replies_harmless L f"
    and ok: "client_ok (client r) (heap w)" "\<forall>i. length (arrivals inbox w i) < 2147483648"
  shows "\<exists>r' w'. nimbleClientRealizeUpdate L r now w = Some (r', w') \<and> client_ok (client r') (heap w')
    \<and> (\<forall>i. length (arrivals inbox w' i) < 2147483648)
    \<and> session_of f inbox r' w' = session_update L f (session_of f inbox r w)"
proof (cases "state (client r) = NimbleClientStateDisconnected")
  case True
  with ok show ?thesis
    by (simp add: nimbleClientRealizeUpdate_def session_update_def session_of_def) (simp add: listener_of_def)
next
  case False
  let ?works = "realizeState r \<noteq> NimbleClientRealizeStateCleared \<and> targetState r \<noteq> NimbleClientRealizeStateInit"
  let ?l = "(arrivals inbox w, listener_of f (client r) (heap w))"
  obtain e c' w' where u: "nimbleClientUpdate L (client r) now w = Some (e, c', w')" "client_ok c' (heap w')"
    "(arrivals inbox w', listener_of f c' (heap w')) = listener_update L f ?l"
    using heard_update [OF L ok(1)] ok(2) by metis
  have sizes: "\<forall>i. length (arrivals inbox w' i) < 2147483648"
    using listener_update_sizes [OF ok(2), of L f "listener_of f (client r) (heap w)"] by (simp add: u(3) [symmetric])
  define r1 where "r1 = (if ?works then r\<lparr>client := c'\<rparr> else r)"
  define w1 where "w1 = (if ?works then w' else w)"
  let ?r = "if targetState r1 = realizeState r1 then r1 else steer r1"
  have run: "nimbleClientRealizeUpdate L r now w = Some (?r, w1)"
    using False by (simp add: nimbleClientRealizeUpdate_def u(1) r1_def w1_def)
  have s1: "session_of f inbox r1 w1 = (targetState r, realizeState r, if ?works then listener_update L f ?l else ?l)"
    by (simp add: session_of_def r1_def w1_def u(3) [symmetric])
  have "session_of f inbox ?r w1 = session_update L f (session_of f inbox r w)"
    using False unfolding heard_steered s1
    by (simp add: session_update_def session_of_def listener_of_def split: prod.split)
  moreover have "client_ok (client r1) (heap w1)" "\<forall>i. length (arrivals inbox w1 i) < 2147483648"
    using u(2) sizes ok by (simp_all add: r1_def w1_def)
  moreover have "client_ok (client ?r) (heap w1)"
    using calculation(2) by simp
  ultimately show ?thesis using run by blast
qed

lemma heard_run:
  assumes "scripted L inbox" "answers_ok L" "replies_harmless L f"
  shows "client_ok (client r) (heap w) \<Longrightarrow> \<forall>i. length (arrivals inbox w i) < 2147483648 \<Longrightarrow>
    \<exists>r' w'. realize_run L ts r w = Some (r', w') \<and> client_ok (client r') (heap w')
      \<and> session_of f inbox r' w' = (session_update L f ^^ length ts) (session_of f inbox r w)"
proof (induction ts arbitrary: r w)
  case (Cons t ts)
  from heard_realizer [OF assms Cons.prems, of t] obtain r1 w1
    where "nimbleClientRealizeUpdate L r t w = Some (r1, w1)"
      and "session_of f inbox r1 w1 = session_update L f (session_of f inbox r w)"
      and "client_ok (client r1) (heap w1)" "\<forall>i. length (arrivals inbox w1 i) < 2147483648" by blast
  with Cons.IH [of r1 w1] show ?case by (simp add: funpow_swap1)
qed simp

text \<open>
  C4. The program refines the listener: over any number of updates at any times, against any server
  and whatever is sent, the realizer returns, and its target, the state it has reached, what is
  still to arrive and all that a listener keeps of its client are what the listener computes from
  the datagrams alone.
\<close>

theorem realizer_refines_listener:
  assumes "scripted L inbox" "answers_ok L" "replies_harmless L f"
    and "client_ok (client r) (heap w)" "\<forall>i. length (arrivals inbox w i) < 2147483648"
  shows "\<exists>r' w'. realize_run L ts r w = Some (r', w')
    \<and> session_of f inbox r' w' = (session_update L f ^^ length ts) (session_of f inbox r w)"
  using heard_run [OF assms] by blast

text \<open>
  The witness: a whole join in five updates. One batch is empty, one holds the announcement of the
  state and, after a gap in the sequence, the state itself, and one a join answer and steps.
\<close>

lemma sample_replies: "replies_harmless sampleLib id"
  by (simp add: replies_harmless_def sample_fields sample_blob_receive_def)

lemma sample_inbox_small: "length (sample_inbox ds i) \<le> length ds"
  by (induction ds arbitrary: i rule: sample_inbox.induct) (auto split: nat.split intro: le_SucI)

lemma sample_arrivals_small:
  assumes "length ds < 2147483648"
  shows "\<forall>i. length (arrivals (\<lambda>(ds :: octets list, t :: int, p :: nat). sample_inbox ds) (sample_world ds) i) < 2147483648"
proof
  fix i
  from sample_inbox_small [of ds i] assms
  show "length (arrivals (\<lambda>(ds :: octets list, t :: int, p :: nat). sample_inbox ds) (sample_world ds) i) < 2147483648"
    by (simp add: sample_world_def)
qed

definition sample_join_session :: "octets list" where
  "sample_join_session = [[], [1, 0, 50, 11, 5], [], [2, 0, 50, 15, 1, 9, 4], [5, 0, 50, 12, 4, 7, 8], [],
     [6, 0, 50, 14, 0, 1, 3, 2], [7, 0, 50, 13, 3, 1, 0, 0, 0, 6, 9], []]"

definition sample_joiner :: "octets NimbleClientRealize" where
  "sample_joiner = sample_realize\<lparr>targetState := NimbleClientRealizeStateSynced,
     realizeState := NimbleClientRealizeStateInit,
     client := sample_client NimbleClientStateIdle NimbleJoiningStateJoiningParticipant 0 0\<rparr>"

lemma sample_session:
  "case (session_update sampleLib id ^^ 4) (NimbleClientRealizeStateSynced, NimbleClientRealizeStateInit,
       sample_inbox sample_join_session, listener_of id (client sample_joiner) (\<lambda>x. None)) of (t, reached, later, l) \<Rightarrow>
     reached = NimbleClientRealizeStateSynced \<and> heardGame l = (9, Some [7, 8]) \<and> heardCount l = 2
     \<and> take 2 (heardEntries l) = [\<lparr>isUsed = True, localUserDeviceIndex = 0, participantId = 1\<rparr>,
         \<lparr>isUsed = True, localUserDeviceIndex = 3, participantId = 2\<rparr>]"
proof -
  define l0 where "l0 = listener_of id (client sample_joiner) (\<lambda>x. None)"
  have l0: "heardState l0 = NimbleClientStateIdle" "heardPhase l0 = NimbleJoiningStateJoiningParticipant"
    "heardSequence l0 = [0]" "heardChannel l0 = 0" "heardRequest l0 = 1"
    "heardWatch l0 = \<lparr>silentDatagramTicks = 3, silentStepTicks = 4, consideringLevel = 0, verdict = KeepConnection\<rparr>"
    "length (heardEntries l0) = 8"
    by (simp_all add: l0_def listener_of_def sample_joiner_def sample_client_def watch_of_def sample_quality_def)
  note hearing = hear_datagram_def hear_def hear_connect_response_def hear_state_response_def hear_state_part_def
    install_def hear_join_response_def hear_step_response_def judge_def steer_listener_def
    in_stream_def sample_fields sample_ordered_receive_def sample_read16_def sample_read8_def sample_read32_def
    sample_join_response_def sample_blob_receive_def entry_of_def Let_def size_of_int_def wrap_s32_def
    watch_tick_def watch_count_def watch_judge_def watch_reason_def
  have four: "(g ^^ 4) x = g (g (g (g x)))" for g :: "'a \<Rightarrow> 'a" and x by (simp add: eval_nat_numeral)
  show ?thesis
    unfolding l0_def [symmetric] four
    by (simp add: session_update_def listener_update_def hearing sample_join_session_def l0)
qed

theorem realizer_refines_listener_witness:
  "\<exists>r' w'. realize_run sampleLib [16, 32, 48, 64] sample_joiner (sample_world sample_join_session) = Some (r', w')
     \<and> realizeState r' = NimbleClientRealizeStateSynced
     \<and> stepId (joinedGameState (client r')) = 9
     \<and> heap w' (gameState (joinedGameState (client r'))) = Some [7, 8]
     \<and> take 2 (localParticipantLookup (client r')) = [\<lparr>isUsed = True, localUserDeviceIndex = 0, participantId = 1\<rparr>,
         \<lparr>isUsed = True, localUserDeviceIndex = 3, participantId = 2\<rparr>]"
proof -
  let ?inbox = "\<lambda>(ds :: octets list, t :: int, p :: nat). sample_inbox ds" and ?w = "sample_world sample_join_session"
  have ok: "client_ok (client sample_joiner) (heap ?w)"
    by (simp add: sample_joiner_def sample_client_ok game_state_ok_def sample_world_def)
  have "\<forall>i. length (arrivals ?inbox ?w i) < 2147483648"
    by (rule sample_arrivals_small) (simp add: sample_join_session_def)
  from realizer_refines_listener [OF sample_scripted sample_answers_ok sample_replies ok this, of "[16, 32, 48, 64]"]
  have "\<exists>r' w'. realize_run sampleLib [16, 32, 48, 64] sample_joiner ?w = Some (r', w')
    \<and> session_of id ?inbox r' w' = (session_update sampleLib id ^^ 4) (session_of id ?inbox sample_joiner ?w)"
    by (simp only: list.size add_0_right add_Suc_right Suc_numeral One_nat_def [symmetric] one_add_one semiring_norm)
  then obtain r' w' where "realize_run sampleLib [16, 32, 48, 64] sample_joiner ?w = Some (r', w')"
    and "session_of id ?inbox r' w' = (session_update sampleLib id ^^ 4) (session_of id ?inbox sample_joiner ?w)" by blast
  moreover have "session_of id ?inbox sample_joiner ?w = (NimbleClientRealizeStateSynced, NimbleClientRealizeStateInit,
       sample_inbox sample_join_session, listener_of id (client sample_joiner) (\<lambda>x. None))"
    by (simp add: session_of_def sample_world_def sample_joiner_def)
  ultimately show ?thesis using sample_session
    by (auto simp: session_of_def listener_of_def split: prod.splits)
qed
section \<open>Nothing but the arrivals matters\<close>

text \<open>
  C14. Nothing but the datagrams decides: two realizers that agree in what a listener keeps, with the
  same datagrams to come, agree in it again after the same number of updates, at whatever different
  times these are made, whatever waits are running, whatever their clocks, statistics and estimates
  of the quality are, and whatever becomes of what they send.
\<close>

theorem arrivals_alone_decide:
  assumes "scripted L inbox" "answers_ok L" "replies_harmless L f"
    and "client_ok (client r1) (heap w1)" "client_ok (client r2) (heap w2)"
    and "\<forall>i. length (arrivals inbox w1 i) < 2147483648"
    and "session_of f inbox r1 w1 = session_of f inbox r2 w2" "length ts = length us"
  shows "\<exists>r1' w1' r2' w2'. realize_run L ts r1 w1 = Some (r1', w1') \<and> realize_run L us r2 w2 = Some (r2', w2')
    \<and> session_of f inbox r1' w1' = session_of f inbox r2' w2'"
proof -
  have "\<forall>i. length (arrivals inbox w2 i) < 2147483648" using assms(6,7) by (simp add: session_of_def)
  with heard_run [OF assms(1-4,6), of ts] heard_run [OF assms(1-3,5), of us] assms(7,8) show ?thesis by fastforce
qed

theorem arrivals_alone_decide_witness:
  "\<exists>r1 w1 r2 w2. realize_run sampleLib [16, 32] sample_joiner (sample_world sample_join_session) = Some (r1, w1)
     \<and> realize_run sampleLib [500, 90000] (sample_joiner\<lparr>client := (client sample_joiner)\<lparr>waitTime := 4, useStats := False\<rparr>\<rparr>)
         ((sample_world sample_join_session)\<lparr>trace := [AssertFailed ''earlier'']\<rparr>) = Some (r2, w2)
     \<and> state (client r1) = state (client r2) \<and> joinStateChannel (client r1) = joinStateChannel (client r2)"
proof -
  let ?inbox = "\<lambda>(ds :: octets list, t :: int, p :: nat). sample_inbox ds"
  let ?w1 = "sample_world sample_join_session"
  let ?w2 = "?w1\<lparr>trace := [AssertFailed ''earlier'']\<rparr>"
  let ?r2 = "sample_joiner\<lparr>client := (client sample_joiner)\<lparr>waitTime := 4, useStats := False\<rparr>\<rparr>"
  have ok: "client_ok (client sample_joiner) (heap ?w1)" "client_ok (client ?r2) (heap ?w2)"
    by (simp_all add: sample_joiner_def sample_client_ok game_state_ok_def sample_world_def client_ok_def)
       (simp_all add: sample_client_def NIMBLE_CLIENT_MAX_LOCAL_USERS_COUNT_def)
  have small: "\<forall>i. length (arrivals ?inbox ?w1 i) < 2147483648"
    by (rule sample_arrivals_small) (simp add: sample_join_session_def)
  have same: "session_of id ?inbox sample_joiner ?w1 = session_of id ?inbox ?r2 ?w2"
    by (simp add: session_of_def listener_of_def)
  have "length [16, 32 :: int] = length [500, 90000 :: int]" by simp
  from arrivals_alone_decide [OF sample_scripted sample_answers_ok sample_replies ok small same this]
  show ?thesis by (simp only: session_of_def listener_of_def prod.inject listener.ext_inject) blast
qed

end
