(* ===== verification/LateDatagrams.thy ===== *)
theory LateDatagrams
  imports ListenerSession
begin

text \<open>
  Datagrams that come late: repeated or overtaken ones, which the sequence refuses. Each of them
  ends its update, so that they delay the client, by an update each, and take nothing from it.
\<close>

definition late :: "('x, 'w) nimble_lib \<Rightarrow> 'x \<Rightarrow> octets \<Rightarrow> bool" where
  "late L x d \<longleftrightarrow> d \<noteq> [] \<and> length d < 2147483648
     \<and> (case orderedDatagramInLogicReceive L x (in_stream L d (of_nat (length d))) of (delta, y, s) \<Rightarrow> delta \<le> 0 \<and> y = x)"

section \<open>What the client hears of them\<close>

lemma late_size:
  assumes "late L x d"
  shows "size_of_int (int (length d)) = of_nat (length d)" "\<not> (of_nat (length d) :: size_t) < 1"
  using assms by (simp_all add: late_def size_of_int_def word_less_nat_alt unat_of_nat take_bit_nat_eq_self Suc_le_eq)

lemma hear_late:
  assumes "late L (heardSequence l) d" "heardState l \<noteq> NimbleClientStateDisconnected"
  shows "hear_datagram L f d l = (-91, l)"
  using assms late_size(2) [OF assms(1)]
  by (cases l) (auto simp: hear_datagram_def late_size(1) [OF assms(1)] late_def Let_def split: prod.splits)

section \<open>What they do to the client\<close>

text \<open>Nothing but statistics changes, nothing is sent and nothing asserted.\<close>

definition held_up :: "'x NimbleClientRealize \<times> 'w world \<Rightarrow> 'x NimbleClientRealize \<times> 'w world \<Rightarrow> bool" where
  "held_up = (\<lambda>(r, w) (r', w'). targetState r' = targetState r \<and> realizeState r' = realizeState r
     \<and> state (client r') = state (client r) \<and> waitTime (client r') = waitTime (client r)
     \<and> orderedDatagramOut (client r') = orderedDatagramOut (client r)
     \<and> orderedDatagramIn (client r') = orderedDatagramIn (client r)
     \<and> quality (client r') = quality (client r) \<and> outSteps (client r') = outSteps (client r)
     \<and> trace w' = trace w)"

lemma feed_late:
  assumes "late L (orderedDatagramIn c) d" "state c \<noteq> NimbleClientStateDisconnected"
  shows "nimbleClientFeed L c d (size_of_int (int (length d))) w = Some (-91, c, w)"
  using assms late_size(2) [OF assms(1)]
  by (cases c) (auto simp: nimbleClientFeed_def readAndCheckOrderedDatagram_def late_size(1) [OF assms(1)] late_def
      in_stream_def Let_def split: prod.splits)

lemma late_update:
  assumes "scripted L inbox" "arrivals inbox w 0 = d # ds" "late L (orderedDatagramIn c) d"
    and "state c \<noteq> NimbleClientStateDisconnected"
  obtains w1 where "nimbleClientUpdate L c now w = Some (-91, count_in L (ticked L c now), w1)"
    and "trace w1 = trace w"
proof -
  let ?c = "count_in L (ticked L c now)"
  obtain w1 where r: "transport_receive L (transport (ticked L c now)) (DATAGRAM_TRANSPORT_MAX_SIZE L) w
      = (int (length d), d, w1)" and w1: "trace w1 = trace w"
    using scripted_receive_datagram [OF assms(1,2)] by metis
  have "orderedDatagramIn ?c = orderedDatagramIn c" "state ?c = state c"
    by (simp_all add: count_in_def ticked_def checkTickInterval_def Let_def)
  with assms(3,4) have "nimbleClientFeed L ?c d (size_of_int (int (length d))) w1 = Some (-91, ?c, w1)"
    by (intro feed_late) simp_all
  moreover have "d \<noteq> []" using assms(3) by (simp add: late_def)
  ultimately have "receiveDatagrams L 0 (ticked L c now) w = Some (-91, ?c, w1)"
    using r by (subst receiveDatagrams.simps) (simp only: prod.case count_in_def [symmetric], simp)
  with that [of w1] w1 show thesis
    by (simp add: nimbleClientUpdate_def nimbleClientReceiveAllDatagramsFromTransport_def ticked_def wrap_s32_id Let_def)
qed

lemma held_up_trans: "held_up a b \<Longrightarrow> held_up b c \<Longrightarrow> held_up a c"
  by (auto simp: held_up_def split: prod.splits)

lemma late_realizer:
  assumes "scripted L inbox" "arrivals inbox w 0 = d # ds" "late L (orderedDatagramIn (client r)) d"
    and "state (client r) \<noteq> NimbleClientStateDisconnected"
    and "targetState r = NimbleClientRealizeStateSynced" "realizeState r = NimbleClientRealizeStateSynced"
  obtains r1 w1 where "nimbleClientRealizeUpdate L r now w = Some (r1, w1)" "held_up (r, w) (r1, w1)"
proof -
  obtain w1 where u: "nimbleClientUpdate L (client r) now w = Some (-91, count_in L (ticked L (client r) now), w1)"
    and w1: "trace w1 = trace w" by (rule late_update [OF assms(1-4)])
  let ?r = "r\<lparr>client := count_in L (ticked L (client r) now)\<rparr>"
  have "nimbleClientRealizeUpdate L r now w = Some (?r, w1)"
    using assms(4-6) by (simp add: nimbleClientRealizeUpdate_def u)
  moreover have "held_up (r, w) (?r, w1)"
    using w1 by (simp add: held_up_def count_in_def ticked_def checkTickInterval_def Let_def)
  ultimately show thesis by (rule that)
qed

section \<open>Any number of them\<close>

lemma late_session:
  assumes "later 0 = d # ds" "late L (heardSequence l) d" "heardState l \<noteq> NimbleClientStateDisconnected"
  shows "session_update L f (NimbleClientRealizeStateSynced, NimbleClientRealizeStateSynced, later, l)
    = (NimbleClientRealizeStateSynced, NimbleClientRealizeStateSynced, later(0 := ds), l)"
proof -
  have "d \<noteq> []" using assms(2) by (simp add: late_def)
  then show ?thesis
    by (simp add: session_update_def listener_update_def assms(1,3) hear_late [OF assms(2,3)] steer_listener_def)
qed

lemma late_run:
  assumes L: "scripted L inbox" "answers_ok L" "replies_harmless L f"
  shows "client_ok (client r) (heap w) \<Longrightarrow> \<forall>i. length (arrivals inbox w i) < 2147483648 \<Longrightarrow>
    state (client r) \<noteq> NimbleClientStateDisconnected \<Longrightarrow>
    targetState r = NimbleClientRealizeStateSynced \<Longrightarrow> realizeState r = NimbleClientRealizeStateSynced \<Longrightarrow>
    arrivals inbox w 0 = ds @ rest \<Longrightarrow> \<forall>d \<in> set ds. late L (orderedDatagramIn (client r)) d \<Longrightarrow> length ts = length ds \<Longrightarrow>
    \<exists>r1 w1. realize_run L ts r w = Some (r1, w1) \<and> held_up (r, w) (r1, w1)
      \<and> session_of f inbox r1 w1 = (NimbleClientRealizeStateSynced, NimbleClientRealizeStateSynced,
          (arrivals inbox w)(0 := rest), listener_of f (client r) (heap w))
      \<and> client_ok (client r1) (heap w1) \<and> (\<forall>i. length (arrivals inbox w1 i) < 2147483648)"
proof (induction ts arbitrary: ds r w)
  case Nil
  then have "(arrivals inbox w)(0 := rest) = arrivals inbox w" by (intro ext) simp
  with Nil show ?case by (simp add: held_up_def session_of_def)
next
  case (Cons t ts)
  then obtain d ds' where ds: "ds = d # ds'" by (cases ds) auto
  have a: "arrivals inbox w 0 = d # (ds' @ rest)" "late L (orderedDatagramIn (client r)) d"
    using Cons.prems(6,7) by (simp_all add: ds)
  obtain r1 w1 where u: "nimbleClientRealizeUpdate L r t w = Some (r1, w1)" and h: "held_up (r, w) (r1, w1)"
    by (rule late_realizer [OF L(1) a Cons.prems(3-5)])
  from heard_realizer [OF L Cons.prems(1,2), of t] u
  have ok: "client_ok (client r1) (heap w1)" "\<forall>i. length (arrivals inbox w1 i) < 2147483648"
    and s: "session_of f inbox r1 w1 = session_update L f (session_of f inbox r w)" by auto
  have "session_of f inbox r w = (NimbleClientRealizeStateSynced, NimbleClientRealizeStateSynced, arrivals inbox w,
      listener_of f (client r) (heap w))" using Cons.prems(4,5) by (simp add: session_of_def)
  then have s1: "session_of f inbox r1 w1 = (NimbleClientRealizeStateSynced, NimbleClientRealizeStateSynced,
      (arrivals inbox w)(0 := ds' @ rest), listener_of f (client r) (heap w))"
    using late_session [where later = "arrivals inbox w", OF a(1), of L "listener_of f (client r) (heap w)" f] a(2) Cons.prems(3) s
    by (simp add: listener_of_def)
  have "state (client r1) \<noteq> NimbleClientStateDisconnected" "targetState r1 = NimbleClientRealizeStateSynced"
    "realizeState r1 = NimbleClientRealizeStateSynced" "arrivals inbox w1 0 = ds' @ rest"
    "\<forall>d \<in> set ds'. late L (orderedDatagramIn (client r1)) d" "length ts = length ds'"
    using h s1 Cons.prems(3-5,7,8) by (auto simp: held_up_def session_of_def ds)
  from Cons.IH [OF ok this] u h s1 show ?case
    by (fastforce simp: session_of_def intro: held_up_trans)
qed

text \<open>
  C7. Late datagrams delay a synced client and do nothing else. However many repeated or overtaken
  datagrams are waiting, each costs the client a whole update, in which it sends nothing, runs down
  no wait and does not count the tick in its watchdog, so that even a hundred such updates without
  any step do not end the connection. Nothing is lost by them: once they are through, whatever comes
  then and for any number of updates, the session goes on as if they had never come.
\<close>

theorem late_datagrams_only_delay:
  assumes "scripted L inbox" "answers_ok L" "replies_harmless L f"
    and "client_ok (client r) (heap w)" "\<forall>i. length (arrivals inbox w i) < 2147483648"
    and "state (client r) \<noteq> NimbleClientStateDisconnected"
    and "targetState r = NimbleClientRealizeStateSynced" "realizeState r = NimbleClientRealizeStateSynced"
    and "arrivals inbox w 0 = ds @ rest" "\<forall>d \<in> set ds. late L (orderedDatagramIn (client r)) d"
    and "length ts = length ds"
  shows "\<exists>r1 w1. realize_run L ts r w = Some (r1, w1) \<and> trace w1 = trace w
    \<and> state (client r1) = state (client r) \<and> waitTime (client r1) = waitTime (client r)
    \<and> orderedDatagramOut (client r1) = orderedDatagramOut (client r) \<and> quality (client r1) = quality (client r)
    \<and> (\<forall>us. \<exists>r2 w2. realize_run L us r1 w1 = Some (r2, w2)
        \<and> session_of f inbox r2 w2 = (session_update L f ^^ length us)
            (NimbleClientRealizeStateSynced, NimbleClientRealizeStateSynced, (arrivals inbox w)(0 := rest),
             listener_of f (client r) (heap w)))"
proof -
  from late_run [OF assms] obtain r1 w1
    where r1: "realize_run L ts r w = Some (r1, w1)" "held_up (r, w) (r1, w1)"
      "session_of f inbox r1 w1 = (NimbleClientRealizeStateSynced, NimbleClientRealizeStateSynced,
          (arrivals inbox w)(0 := rest), listener_of f (client r) (heap w))"
      "client_ok (client r1) (heap w1)" "\<forall>i. length (arrivals inbox w1 i) < 2147483648" by blast
  have "\<exists>r2 w2. realize_run L us r1 w1 = Some (r2, w2)
        \<and> session_of f inbox r2 w2 = (session_update L f ^^ length us)
            (NimbleClientRealizeStateSynced, NimbleClientRealizeStateSynced, (arrivals inbox w)(0 := rest),
             listener_of f (client r) (heap w))" for us
    using heard_run [OF assms(1-3) r1(4,5), of us] unfolding r1(3) by blast
  with r1(1,2) show ?thesis
    by (intro exI [of _ r1] exI [of _ w1]) (simp add: held_up_def)
qed

text \<open>A hundred repetitions of one datagram, and then a step response.\<close>

lemma sample_inbox_repeated:
  "d \<noteq> [] \<Longrightarrow> sample_inbox (replicate n d @ ds) 0 = replicate n d @ sample_inbox ds 0"
  by (induction n) (auto simp: neq_Nil_conv)

theorem late_datagrams_only_delay_witness:
  "\<exists>r1 w1 r2 w2. realize_run sampleLib (replicate 100 16) sample_realize
       ((sample_world (replicate 100 [0, 0, 50, 13] @ [[9, 0, 50, 13, 3, 1, 0, 0, 0, 6, 9], []]))
         \<lparr>heap := [99 \<mapsto> [1, 2, 3, 4, 5]]\<rparr>) = Some (r1, w1)
     \<and> trace w1 = [] \<and> state (client r1) = NimbleClientStateSynced
     \<and> realize_run sampleLib [1616] r1 w1 = Some (r2, w2) \<and> state (client r2) = NimbleClientStateSynced
     \<and> expectedWriteId (authoritativeStepsFromServer (client r2))
       = expectedWriteId (authoritativeStepsFromServer (client sample_realize)) + 1"
proof -
  let ?inbox = "\<lambda>(ds :: octets list, t :: int, p :: nat). sample_inbox ds"
  let ?w = "(sample_world (replicate 100 [0, 0, 50, 13] @ [[9, 0, 50, 13, 3, 1, 0, 0, 0, 6, 9], []]))
         \<lparr>heap := [99 \<mapsto> [1, 2, 3, 4, 5]]\<rparr>"
  let ?d = "[0, 0, 50, 13] :: octets" and ?s = "[9, 0, 50, 13, 3, 1, 0, 0, 0, 6, 9] :: octets"
  let ?l = "listener_of id (client sample_realize) (heap ?w)"
  let ?later = "(arrivals ?inbox ?w)(0 := [?s])"
  have ok: "client_ok (client sample_realize) (heap ?w)"
    by (simp add: sample_realize_def sample_client_ok game_state_ok_def)
  have small: "\<forall>i. length (arrivals ?inbox ?w i) < 2147483648"
  proof
    fix i
    from sample_inbox_small [of "replicate 100 ?d @ [?s, []]" i]
    have "length (arrivals ?inbox ?w i) \<le> 102" by (simp add: sample_world_def)
    also have "(102 :: nat) < 2147483648" by simp
    finally show "length (arrivals ?inbox ?w i) < 2147483648" .
  qed
  have c: "state (client sample_realize) \<noteq> NimbleClientStateDisconnected"
    "targetState sample_realize = NimbleClientRealizeStateSynced" "realizeState sample_realize = NimbleClientRealizeStateSynced"
    "orderedDatagramIn (client sample_realize) = [0]" "state (client sample_realize) = NimbleClientStateSynced"
    by (simp_all add: sample_realize_def sample_client_def)
  have now: "arrivals ?inbox ?w 0 = replicate 100 ?d @ [?s]"
    by (simp add: sample_world_def sample_inbox_repeated)
  have late: "\<forall>d \<in> set (replicate 100 ?d). late sampleLib (orderedDatagramIn (client sample_realize)) d"
    by (simp add: late_def c(4) in_stream_def sample_fields sample_ordered_receive_def sample_read8_def)
  have "length (replicate 100 (16 :: int)) = length (replicate 100 ?d)" by simp
  from late_datagrams_only_delay [OF sample_scripted sample_answers_ok sample_replies ok small c(1-3) now late this]
  obtain r1 w1 where r1: "realize_run sampleLib (replicate 100 16) sample_realize ?w = Some (r1, w1)"
    "trace w1 = trace ?w" "state (client r1) = NimbleClientStateSynced"
    and later: "\<exists>r2 w2. realize_run sampleLib [1616] r1 w1 = Some (r2, w2)
        \<and> session_of id ?inbox r2 w2 = (session_update sampleLib id ^^ length [1616 :: int])
            (NimbleClientRealizeStateSynced, NimbleClientRealizeStateSynced, ?later, ?l)"
    unfolding c(5) by blast
  note hearing = hear_datagram_def hear_def hear_step_response_def judge_def steer_listener_def
    in_stream_def sample_fields sample_ordered_receive_def sample_read16_def sample_read8_def sample_read32_def
    Let_def size_of_int_def watch_tick_def watch_count_def watch_judge_def watch_reason_def
  have l: "heardState ?l = NimbleClientStateSynced" "heardSequence ?l = [0]"
    "heardSteps ?l = authoritativeStepsFromServer (client sample_realize)"
    "heardWatch ?l = \<lparr>silentDatagramTicks = 3, silentStepTicks = 4, consideringLevel = 0, verdict = KeepConnection\<rparr>"
    by (simp_all add: listener_of_def sample_realize_def sample_client_def watch_of_def sample_quality_def)
  define l where "l = ?l"
  obtain later' l' where one: "session_update sampleLib id (NimbleClientRealizeStateSynced, NimbleClientRealizeStateSynced, ?later, l)
      = (NimbleClientRealizeStateSynced, NimbleClientRealizeStateSynced, later', l')"
    "heardState l' = NimbleClientStateSynced"
    "expectedWriteId (heardSteps l') = expectedWriteId (authoritativeStepsFromServer (client sample_realize)) + 1"
    using l [folded l_def] by (simp add: session_update_def listener_update_def hearing)
  obtain r2 w2 where "realize_run sampleLib [1616] r1 w1 = Some (r2, w2)"
    "session_of id ?inbox r2 w2 = (NimbleClientRealizeStateSynced, NimbleClientRealizeStateSynced, later', l')"
    using later one(1) by (auto simp: l_def)
  with r1 one(2,3) show ?thesis
    by (intro exI [of _ r1] exI [of _ w1] exI [of _ r2] exI [of _ w2])
       (auto simp: session_of_def listener_of_def sample_world_def)
qed

end
