(* ===== verification/BatchRuns.thy ===== *)
theory BatchRuns
  imports LateDatagrams
begin

text \<open>
  Sessions batch by batch. A batch takes an update of its own and one more for every late datagram
  in it; \<open>runs\<close> counts them. A realizer that is to be synced is followed together with the
  listener, datagram by datagram.
\<close>

section \<open>Runs\<close>

text \<open>
  A realizer that is to be synced takes the listener through the given batches in \<open>n\<close> updates,
  whatever comes behind them.
\<close>

definition runs ::
    "('x, 'w) nimble_lib \<Rightarrow> ('x \<Rightarrow> 'x) \<Rightarrow> NimbleClientRealizeState \<times> 'x listener \<Rightarrow> octets list list \<Rightarrow> nat
     \<Rightarrow> NimbleClientRealizeState \<times> 'x listener \<Rightarrow> bool" where
  "runs L f = (\<lambda>(r, l) bs n (r', l'). \<forall>later. map later [0..<length bs] = bs \<longrightarrow>
     (session_update L f ^^ n) (NimbleClientRealizeStateSynced, r, later, l)
       = (NimbleClientRealizeStateSynced, r', \<lambda>i. later (length bs + i), l'))"

lemma runs_nil [simp]: "runs L f s [] 0 s"
  by (cases s) (simp add: runs_def)

lemma map_upt_append:
  assumes "map g [0..<length bs + length cs] = bs @ cs"
  shows "map g [0..<length bs] = bs" "map (\<lambda>i. g (length bs + i)) [0..<length cs] = cs"
proof -
  have g: "g i = (bs @ cs) ! i" if "i < length bs + length cs" for i
    using that arg_cong [OF assms, of "\<lambda>xs. xs ! i"] by simp
  show "map g [0..<length bs] = bs" by (rule nth_equalityI) (simp_all add: g nth_append)
  show "map (\<lambda>i. g (length bs + i)) [0..<length cs] = cs" by (rule nth_equalityI) (simp_all add: g)
qed

lemma runs_append:
  assumes "runs L f s bs m s'" "runs L f s' cs n s''"
  shows "runs L f s (bs @ cs) (m + n) s''"
proof -
  obtain r l r' l' r'' l'' where s: "s = (r, l)" "s' = (r', l')" "s'' = (r'', l'')" by (metis prod.exhaust)
  show ?thesis
    unfolding runs_def s prod.case
  proof (intro allI impI)
    fix later :: "nat \<Rightarrow> octets list"
    assume "map later [0..<length (bs @ cs)] = bs @ cs"
    then have b: "map later [0..<length bs] = bs" "map (\<lambda>i. later (length bs + i)) [0..<length cs] = cs"
      by (simp_all add: map_upt_append)
    have "(session_update L f ^^ (n + m)) (NimbleClientRealizeStateSynced, r, later, l)
        = (NimbleClientRealizeStateSynced, r'', \<lambda>i. later (length bs + (length cs + i)), l'')"
      using assms b unfolding runs_def s by (simp add: funpow_add)
    then show "(session_update L f ^^ (m + n)) (NimbleClientRealizeStateSynced, r, later, l)
        = (NimbleClientRealizeStateSynced, r'', \<lambda>i. later (length (bs @ cs) + i), l'')"
      by (simp add: add.commute add.left_commute)
  qed
qed

lemma runs_cons: "runs L f s [b] m s' \<Longrightarrow> runs L f s' bs n s'' \<Longrightarrow> runs L f s (b # bs) (m + n) s''"
  using runs_append [of L f s "[b]" m s' bs n s''] by simp

abbreviation under_way :: "NimbleClientRealizeState \<Rightarrow> bool" where
  "under_way r \<equiv> r \<noteq> NimbleClientRealizeStateCleared \<and> r \<noteq> NimbleClientRealizeStateSynced"

section \<open>Datagram by datagram\<close>

text \<open>What the realizer does after an update, seen from its state and the listener.\<close>

definition steered ::
    "NimbleClientRealizeState \<times> 'x listener \<Rightarrow> NimbleClientRealizeState \<times> 'x listener" where
  "steered = (\<lambda>(r, l).
     case steer_listener (NimbleClientRealizeStateSynced, r, (\<lambda>i. []), l) of (t, r', later, l') \<Rightarrow> (r', l'))"

lemma steer_listener_steered:
  "steer_listener (NimbleClientRealizeStateSynced, r, later, l) =
     (case steered (r, l) of (r', l') \<Rightarrow> (NimbleClientRealizeStateSynced, r', later, l'))"
  by (simp add: steered_def steer_listener_def)

lemma steered_simps:
  "steered (NimbleClientRealizeStateSynced, l) = (NimbleClientRealizeStateSynced, l)"
  "under_way r \<Longrightarrow> heardState l = NimbleClientStateIdle \<Longrightarrow>
     steered (r, l) = (r, l\<lparr>heardState := NimbleClientStateRequestingConnect\<rparr>)"
  "under_way r \<Longrightarrow> heardState l = NimbleClientStateConnected \<Longrightarrow>
     steered (r, l) = (r, l\<lparr>heardState := NimbleClientStateJoiningRequestingState,
       heardPhase := NimbleJoiningStateJoiningParticipant\<rparr>)"
  "heardState l = NimbleClientStateSynced \<Longrightarrow> steered (r, l) = (NimbleClientRealizeStateSynced, l)"
  "heardState l \<in> {NimbleClientStateRequestingConnect, NimbleClientStateJoiningRequestingState,
       NimbleClientStateJoiningDownloadingState} \<Longrightarrow> steered (r, l) = (r, l)"
  by (auto simp: steered_def steer_listener_def)

text \<open>What hearing a datagram comes to, when it is not refused.\<close>

abbreviation noticed :: "'x listener \<Rightarrow> 'x listener" where
  "noticed l \<equiv> l\<lparr>heardWatch := (heardWatch l)\<lparr>silentDatagramTicks := 0\<rparr>\<rparr>"

abbreviation live :: "NimbleClientRealizeState \<times> 'x listener \<Rightarrow> bool" where
  "live s \<equiv> fst s \<noteq> NimbleClientRealizeStateCleared \<and> heardState (snd s) \<noteq> NimbleClientStateDisconnected"

lemma runs_single:
  assumes "\<And>later. later 0 = b \<Longrightarrow> (session_update L f ^^ n) (NimbleClientRealizeStateSynced, r, later, l)
    = (NimbleClientRealizeStateSynced, r', \<lambda>i. later (Suc i), l')"
  shows "runs L f (r, l) [b] n (r', l')"
  using assms by (simp add: runs_def)

lemma runs_singleD:
  assumes "runs L f (r, l) [b] n (r', l')" "later 0 = b"
  shows "(session_update L f ^^ n) (NimbleClientRealizeStateSynced, r, later, l)
    = (NimbleClientRealizeStateSynced, r', \<lambda>i. later (Suc i), l')"
  using assms by (simp add: runs_def)

lemma runs_end:
  assumes "live (r, l)"
  shows "runs L f (r, l) [[]] (Suc 0) (steered (r, judge l))"
proof -
  obtain r' l' where s: "steered (r, judge l) = (r', l')" by fastforce
  show ?thesis
    unfolding s
    by (rule runs_single)
       (use assms in \<open>simp add: session_update_def listener_update_def steer_listener_steered s\<close>)
qed

lemma runs_heard:
  assumes "live (r, l)" "hear_datagram L f d l = (e, l1)" "0 \<le> e" "d \<noteq> []"
    and "heardState l1 \<noteq> NimbleClientStateDisconnected"
    and "runs L f (r, noticed l1) [ds] (Suc n) z"
  shows "runs L f (r, l) [d # ds] (Suc n) z"
proof -
  obtain r' l' where z: "z = (r', l')" by fastforce
  show ?thesis
    unfolding z
  proof (rule runs_single)
    fix later :: "nat \<Rightarrow> octets list"
    assume l: "later 0 = d # ds"
    have "session_update L f (NimbleClientRealizeStateSynced, r, later, l)
        = session_update L f (NimbleClientRealizeStateSynced, r, later(0 := ds), noticed l1)"
      using assms(1-5) by (simp add: session_update_def listener_update_def l)
    with runs_singleD [OF assms(6) [unfolded z], of "later(0 := ds)"]
    show "(session_update L f ^^ Suc n) (NimbleClientRealizeStateSynced, r, later, l)
        = (NimbleClientRealizeStateSynced, r', \<lambda>i. later (Suc i), l')"
      by (simp add: funpow_Suc_right del: funpow.simps)
  qed
qed

lemma runs_late:
  assumes "live (r, l)" "late L (heardSequence l) d" "runs L f (steered (r, l)) [ds] n z"
  shows "runs L f (r, l) [d # ds] (Suc n) z"
proof -
  obtain r' l' where z: "z = (r', l')" by fastforce
  obtain r1 l1 where s: "steered (r, l) = (r1, l1)" by fastforce
  have "d \<noteq> []" using assms(2) by (simp add: late_def)
  show ?thesis
    unfolding z
  proof (rule runs_single)
    fix later :: "nat \<Rightarrow> octets list"
    assume l: "later 0 = d # ds"
    have "session_update L f (NimbleClientRealizeStateSynced, r, later, l)
        = (NimbleClientRealizeStateSynced, r1, later(0 := ds), l1)"
      using assms(1) \<open>d \<noteq> []\<close> hear_late [OF assms(2), of f]
      by (simp add: session_update_def listener_update_def l steer_listener_steered s)
    with runs_singleD [OF assms(3) [unfolded z s], of "later(0 := ds)"]
    show "(session_update L f ^^ Suc n) (NimbleClientRealizeStateSynced, r, later, l)
        = (NimbleClientRealizeStateSynced, r', \<lambda>i. later (Suc i), l')"
      by (simp add: funpow_Suc_right del: funpow.simps)
  qed
qed

section \<open>Batches of late datagrams\<close>

text \<open>After the first of them the realizer has done what it can, and nothing changes any more.\<close>

lemma late_batch_still:
  assumes "live (r, l)" "judge l = l" "steered (r, l) = (r, l)"
  shows "\<forall>d \<in> set ds. late L (heardSequence l) d \<Longrightarrow> runs L f (r, l) [ds] (Suc (length ds)) (r, l)"
proof (induction ds)
  case Nil
  from runs_end [OF assms(1)] assms(2,3) show ?case by simp
next
  case (Cons d ds)
  then have "runs L f (steered (r, l)) [ds] (Suc (length ds)) (r, l)" by (simp add: assms(3))
  with Cons.prems runs_late [OF assms(1)] show ?case by fastforce
qed

lemma late_batch:
  assumes "live (r, l)" "judge l = l" "steered (r, l) = (r', l')"
    and "live (r', l')" "judge l' = l'" "steered (r', l') = (r', l')" "heardSequence l' = heardSequence l"
    and "\<forall>d \<in> set ds. late L (heardSequence l) d"
  shows "runs L f (r, l) [ds] (Suc (length ds)) (r', l')"
proof (cases ds)
  case Nil
  from runs_end [OF assms(1)] assms(2,3) Nil show ?thesis by simp
next
  case (Cons d es)
  have "runs L f (steered (r, l)) [es] (Suc (length es)) (r', l')"
    unfolding assms(3) by (rule late_batch_still) (use assms Cons in auto)
  with runs_late [OF assms(1)] assms(8) Cons show ?thesis by fastforce
qed

text \<open>Behind the datagram that synced the client they only put off the tick.\<close>

lemma late_batch_synced:
  assumes "r \<noteq> NimbleClientRealizeStateCleared" "heardState l = NimbleClientStateSynced"
    and "heardState (judge l) = NimbleClientStateSynced"
  shows "\<forall>d \<in> set ds. late L (heardSequence l) d \<Longrightarrow>
    runs L f (r, l) [ds] (Suc (length ds)) (NimbleClientRealizeStateSynced, judge l)"
  using assms(1)
proof (induction ds arbitrary: r)
  case Nil
  with runs_end [of r l] assms show ?case by (simp add: steered_simps)
next
  case (Cons d ds)
  then have "runs L f (steered (r, l)) [ds] (Suc (length ds)) (NimbleClientRealizeStateSynced, judge l)"
    by (simp add: steered_simps assms(2))
  with Cons.prems runs_late [of r l] assms(2) show ?case by fastforce
qed

text \<open>A listener that waits, for any number of batches in which there is nothing but late datagrams.\<close>

lemma late_batches:
  assumes "live (r, l)" "judge l = l" "steered (r, l) = (r, l)"
  shows "\<forall>d \<in> set (concat bs). late L (heardSequence l) d \<Longrightarrow>
    runs L f (r, l) bs (length bs + length (concat bs)) (r, l)"
proof (induction bs)
  case (Cons ds bs)
  have "runs L f (r, l) [ds] (Suc (length ds)) (r, l)" by (rule late_batch_still) (use assms Cons.prems in auto)
  from runs_cons [OF this Cons.IH] Cons.prems show ?case by (simp add: algebra_simps)
qed simp

text \<open>A batch in which one datagram is not late; \<open>n\<close> of them are.\<close>

inductive among :: "('x, 'w) nimble_lib \<Rightarrow> 'x \<Rightarrow> octets \<Rightarrow> 'x \<Rightarrow> octets list \<Rightarrow> nat \<Rightarrow> bool"
  for L :: "('x, 'w) nimble_lib" and x d y where
  here: "\<forall>e \<in> set ds. late L y e \<Longrightarrow> among L x d y (d # ds) (length ds)"
| behind: "late L x e \<Longrightarrow> among L x d y ds n \<Longrightarrow> among L x d y (e # ds) (Suc n)"

lemma among_runs:
  assumes "live (r, l)" "steered (r, l) = (r, l)" "d \<noteq> []"
    and "hear_datagram L f d l = (e, l1)" "0 \<le> e" "heardState l1 \<noteq> NimbleClientStateDisconnected" "heardSequence l1 = y"
    and "\<And>ds. \<forall>e \<in> set ds. late L y e \<Longrightarrow> runs L f (r, noticed l1) [ds] (Suc (length ds)) z"
  shows "among L (heardSequence l) d y ds n \<Longrightarrow> runs L f (r, l) [ds] (Suc n) z"
proof (induction rule: among.induct)
  case (here ds)
  from runs_heard [OF assms(1,4,5,3,6) assms(8) [OF here]] show ?case .
next
  case (behind e ds n)
  from behind.IH have "runs L f (steered (r, l)) [ds] (Suc n) z" by (simp add: assms(2))
  from runs_late [OF assms(1) behind.hyps(1) this] show ?case .
qed

end
