(* ===== verification/DownloadParts.thy ===== *)
theory DownloadParts
  imports BatchRuns
begin

text \<open>
  A game state that comes in parts. The parts may be spread over the updates in any way, several in
  one, and datagrams may be missing in between or come late. Shown for the listener, and so for the
  program.
\<close>

section \<open>Parts\<close>

text \<open>
  What a part does to the place in the sequence, the logic of the blob stream and the blob;
  \<open>None\<close> is a datagram that is refused or is no part on this channel.
\<close>

definition take_part ::
    "('x, 'w) nimble_lib \<Rightarrow> ('x \<Rightarrow> 'x) \<Rightarrow> nat \<Rightarrow> 'x \<times> 'x \<times> 'x BlobStreamIn \<Rightarrow> octets
     \<Rightarrow> ('x \<times> 'x \<times> 'x BlobStreamIn) option" where
  "take_part L f ch = (\<lambda>(x, lg, b) d.
     let n = size_of_int (int (length d)) in
     case orderedDatagramInLogicReceive L x (in_stream L d n) of (delta, y, s) \<Rightarrow>
     case fldInStreamReadUInt16 L (fldInStreamCheckMarker L s 0xdd) of (e, t, s) \<Rightarrow>
     case fldInStreamReadUInt8 L s of (e', cmd, s) \<Rightarrow>
     case nimbleSerializeInBlobStreamChannelId L s of (e'', c, s) \<Rightarrow>
     case blobStreamLogicInReceive L lg b s of (k, lg', b', s) \<Rightarrow>
       if n < 1 \<or> delta \<le> 0 \<or> e < 0 \<or> cmd \<noteq> NimbleSerializeCmdServerOutBlobStream L \<or> c \<noteq> ch \<or> k < 0
       then None else Some (y, f lg', b'))"

abbreviation completed :: "('x, 'w) nimble_lib \<Rightarrow> 'x \<times> 'x \<times> 'x BlobStreamIn \<Rightarrow> bool" where
  "completed L p \<equiv> blobStreamInIsComplete L (snd (snd p))"

text \<open>Parts that complete the blob with the last of them and not before, with \<open>n\<close> late datagrams among them.\<close>

inductive parts ::
    "('x, 'w) nimble_lib \<Rightarrow> ('x \<Rightarrow> 'x) \<Rightarrow> nat \<Rightarrow> 'x \<times> 'x \<times> 'x BlobStreamIn \<Rightarrow> octets list \<Rightarrow> nat
     \<Rightarrow> 'x \<times> 'x \<times> 'x BlobStreamIn \<Rightarrow> bool"
  for L :: "('x, 'w) nimble_lib" and f ch where
  none: "parts L f ch p [] 0 p"
| part: "\<not> completed L p \<Longrightarrow> take_part L f ch p d = Some q \<Longrightarrow> parts L f ch q ds n z \<Longrightarrow> parts L f ch p (d # ds) n z"
| late: "late L (fst p) d \<Longrightarrow> parts L f ch p ds n z \<Longrightarrow> parts L f ch p (d # ds) (Suc n) z"

inductive_cases parts_nilE: "parts L f ch p [] n z"

lemma parts_append:
  assumes "parts L f ch p (ds @ es) n z"
  obtains m k q where "parts L f ch p ds m q" "parts L f ch q es k z" "n = m + k"
  using assms
proof (induction ds arbitrary: p n thesis)
  case Nil
  from Nil.prems(1) [of 0 p n] Nil.prems(2) show ?case by (simp add: parts.none)
next
  case (Cons d ds)
  from Cons.prems(2) have "parts L f ch p (d # (ds @ es)) n z" by simp
  then show ?case
  proof cases
    case (part q)
    obtain m k q' where "parts L f ch q ds m q'" "parts L f ch q' es k z" "n = m + k"
      using Cons.IH [OF _ part(3)] by blast
    with part Cons.prems(1) show ?thesis by (blast intro: parts.part)
  next
    case (late n')
    obtain m k q' where "parts L f ch p ds m q'" "parts L f ch q' es k z" "n' = m + k"
      using Cons.IH [OF _ late(3)] by blast
    with late Cons.prems(1) [of "Suc m" q' k] show ?thesis by (auto intro: parts.late)
  qed
qed

lemma parts_completed:
  "parts L f ch p ds n z \<Longrightarrow> completed L p \<Longrightarrow> z = p \<and> n = length ds \<and> (\<forall>d \<in> set ds. late L (fst p) d)"
  by (induction rule: parts.induct) auto

lemma parts_missing: "parts L f ch p ds n z \<Longrightarrow> \<not> completed L z \<Longrightarrow> \<not> completed L p"
  using parts_completed by fastforce

section \<open>Hearing the parts\<close>

text \<open>The octets of a complete blob.\<close>

definition blob_octets :: "'x BlobStreamIn \<Rightarrow> octets" where
  "blob_octets b = take (unat (octetCount b)) (blob b)"

abbreviation progress :: "'x listener \<Rightarrow> 'x \<times> 'x \<times> 'x BlobStreamIn" where
  "progress l \<equiv> (heardSequence l, heardLogic l, heardBlob l)"

abbreviation calm :: "'x listener \<Rightarrow> bool" where
  "calm l \<equiv> verdict (heardWatch l) = KeepConnection \<and> consideringLevel (heardWatch l) = 0"

text \<open>What the parts leave alone: the participants, the connection id and the silence of the steps.\<close>

definition aside :: "'x listener \<Rightarrow> NimbleJoiningState \<times> u8 \<times> NimbleClientParticipantEntry list \<times> size_t \<times> size_t" where
  "aside l = (heardPhase l, heardRemote l, heardEntries l, heardCount l, silentStepTicks (heardWatch l))"

text \<open>Step buffers that have been started at step \<open>i\<close>.\<close>

definition fresh_steps :: "('x, 'w) nimble_lib \<Rightarrow> 'x listener \<Rightarrow> u32 \<Rightarrow> bool" where
  "fresh_steps L l i \<longleftrightarrow> (\<exists>a p. heardSteps l = nbsStepsReInit L a i \<and> heardPending l = nbsPendingStepsReset L p i)"

text \<open>While parts are missing, and once the blob is complete.\<close>

definition downloads :: "'x listener \<Rightarrow> nat \<Rightarrow> u32 \<Rightarrow> bool" where
  "downloads l ch i \<longleftrightarrow> heardState l = NimbleClientStateJoiningDownloadingState \<and> heardChannel l = ch
     \<and> heardStateId l = i \<and> calm l"

definition installed :: "('x, 'w) nimble_lib \<Rightarrow> 'x listener \<Rightarrow> u32 \<Rightarrow> 'x \<Rightarrow> octets \<Rightarrow> bool" where
  "installed L l i x bs \<longleftrightarrow> heardState l = NimbleClientStateSynced \<and> heardGame l = (i, Some bs)
     \<and> heardSequence l = x \<and> fresh_steps L l i \<and> calm l"

definition after_parts :: "('x, 'w) nimble_lib \<Rightarrow> 'x listener \<Rightarrow> nat \<Rightarrow> u32 \<Rightarrow> 'x \<times> 'x \<times> 'x BlobStreamIn \<Rightarrow> bool" where
  "after_parts L l ch i p \<longleftrightarrow>
     (if completed L p then installed L l i (fst p) (blob_octets (snd (snd p)))
      else downloads l ch i \<and> progress l = p)"

lemma hear_part:
  assumes "commands_distinct L" "downloads l ch i" "take_part L f ch (progress l) d = Some p"
  shows "\<exists>l'. hear_datagram L f d l = (0, l') \<and> after_parts L l' ch i p \<and> aside l' = aside l" "d \<noteq> []"
proof -
  let ?n = "size_of_int (int (length d))"
  obtain delta y s1 where 1: "orderedDatagramInLogicReceive L (heardSequence l) (in_stream L d ?n) = (delta, y, s1)"
    by (cases "orderedDatagramInLogicReceive L (heardSequence l) (in_stream L d ?n)") auto
  obtain e t s2 where 2: "fldInStreamReadUInt16 L (fldInStreamCheckMarker L s1 0xdd) = (e, t, s2)"
    by (cases "fldInStreamReadUInt16 L (fldInStreamCheckMarker L s1 0xdd)") auto
  obtain e' cmd s3 where 3: "fldInStreamReadUInt8 L s2 = (e', cmd, s3)" by (cases "fldInStreamReadUInt8 L s2") auto
  obtain e'' c s4 where 4: "nimbleSerializeInBlobStreamChannelId L s3 = (e'', c, s4)"
    by (cases "nimbleSerializeInBlobStreamChannelId L s3") auto
  obtain k lg b s5 where 5: "blobStreamLogicInReceive L (heardLogic l) (heardBlob l) s4 = (k, lg, b, s5)"
    by (cases "blobStreamLogicInReceive L (heardLogic l) (heardBlob l) s4") auto
  have p: "\<not> ?n < 1" "0 < delta" "\<not> e < 0" "cmd = NimbleSerializeCmdServerOutBlobStream L" "c = ch" "\<not> k < 0"
    "p = (y, f lg, b)"
    using assms(3) by (auto simp: take_part_def 1 2 3 4 5 Let_def split: if_splits)
  have other: "NimbleSerializeCmdServerOutBlobStream L \<noteq> NimbleSerializeCmdConnectResponse L"
    using assms(1) by (auto simp: commands_distinct_def)
  let ?l = "l\<lparr>heardSequence := y, heardLogic := f lg, heardBlob := b\<rparr>"
  have "hear_datagram L f d l = (0, if blobStreamInIsComplete L b then install L ?l else ?l)"
    using assms(2) p other by (simp add: hear_datagram_def 1 2 3 hear_def hear_state_part_def 4 5 downloads_def Let_def)
  then show "\<exists>l'. hear_datagram L f d l = (0, l') \<and> after_parts L l' ch i p \<and> aside l' = aside l"
    using assms(2) p(7)
    by (auto simp: after_parts_def downloads_def installed_def install_def blob_octets_def aside_def fresh_steps_def
        Let_def)
  show "d \<noteq> []" using p(1) by (auto simp: size_of_int_def)
qed

lemma calm_tick: "verdict s = KeepConnection \<Longrightarrow> consideringLevel s = 0 \<Longrightarrow> verdict (watch_tick s) = KeepConnection"
  by (simp add: watch_tick_def watch_judge_def watch_count_def)

definition first_tick :: watch where
  "first_tick = \<lparr>silentDatagramTicks = 1, silentStepTicks = 1, consideringLevel = 0, verdict = KeepConnection\<rparr>"

lemma first_tick:
  assumes "verdict s = KeepConnection" "consideringLevel s = 0" "silentStepTicks s = 0" "silentDatagramTicks s = 0"
  shows "watch_tick s = first_tick"
  using assms
  by (cases s) (simp add: watch_tick_def watch_judge_def watch_count_def watch_reason_def first_tick_def word_le_nat_alt)

text \<open>After the update in which the last part came: one tick has passed.\<close>

definition begins :: "('x, 'w) nimble_lib \<Rightarrow> 'x listener \<Rightarrow> u32 \<Rightarrow> 'x \<Rightarrow> octets \<Rightarrow> bool" where
  "begins L l i x bs \<longleftrightarrow> heardState l = NimbleClientStateSynced \<and> heardGame l = (i, Some bs)
     \<and> heardSequence l = x \<and> fresh_steps L l i"

lemma installed_judged:
  assumes "installed L l i x bs" "silentDatagramTicks (heardWatch l) = 0"
  shows "begins L (judge l) i x bs"
    and "silentStepTicks (heardWatch l) = 0 \<Longrightarrow> heardWatch (judge l) = first_tick"
    and "(heardPhase (judge l), heardRemote (judge l), heardEntries (judge l), heardCount (judge l))
      = (heardPhase l, heardRemote l, heardEntries l, heardCount l)"
  using assms calm_tick [of "heardWatch l"] first_tick [of "heardWatch l"]
  by (auto simp: installed_def judge_def begins_def fresh_steps_def)

section \<open>Until the last part\<close>

text \<open>
  A batch of parts. While the blob is not complete the realizer and the listener go on downloading;
  with the last part both are synced, and the late datagrams behind it put off the first tick.
\<close>

lemma parts_batch:
  assumes "commands_distinct L"
  shows "parts L f ch p ds n q \<Longrightarrow> under_way r \<Longrightarrow> downloads l ch i \<Longrightarrow> progress l = p \<Longrightarrow> \<not> completed L p \<Longrightarrow>
    if completed L q
    then \<exists>l'. runs L f (r, l) [ds] (Suc n) (NimbleClientRealizeStateSynced, l')
      \<and> begins L l' i (fst q) (blob_octets (snd (snd q)))
      \<and> (silentStepTicks (heardWatch l) = 0 \<longrightarrow> heardWatch l' = first_tick
           \<and> (heardPhase l', heardRemote l', heardEntries l', heardCount l')
             = (heardPhase l, heardRemote l, heardEntries l, heardCount l))
    else \<exists>l'. runs L f (r, l) [ds] (Suc n) (r, l') \<and> downloads l' ch i \<and> progress l' = q \<and> aside l' = aside l"
proof (induction arbitrary: l rule: parts.induct)
  case (none p)
  then have "live (r, l)" "steered (r, judge l) = (r, l)" by (simp_all add: downloads_def judge_def steered_simps)
  with runs_end [of r l L f] none show ?case by (auto intro: exI [of _ l])
next
  case (part p d q ds n z)
  from hear_part [OF assms part.prems(2), of f d q] part.hyps(2) part.prems(3) obtain l1
    where l1: "hear_datagram L f d l = (0, l1)" "after_parts L l1 ch i q" "aside l1 = aside l" "d \<noteq> []" by auto
  have live: "live (r, l)" "heardState l1 \<noteq> NimbleClientStateDisconnected"
    using part.prems(1,2) l1(2) by (auto simp: downloads_def after_parts_def installed_def split: if_splits)
  note first = runs_heard [OF live(1) l1(1) _ l1(4) live(2)]
  show ?case
  proof (cases "completed L q")
    case True
    then have i: "installed L (noticed l1) i (fst q) (blob_octets (snd (snd q)))"
      using l1(2) by (simp add: after_parts_def installed_def fresh_steps_def)
    then have b: "begins L (judge (noticed l1)) i (fst q) (blob_octets (snd (snd q)))"
      by (rule installed_judged) simp
    note z = parts_completed [OF part.hyps(3) True]
    have "runs L f (r, noticed l1) [ds] (Suc n) (NimbleClientRealizeStateSynced, judge (noticed l1))"
      using z b i part.prems(1) late_batch_synced [of r "noticed l1" ds L f] by (auto simp: begins_def installed_def)
    from first [OF _ this] b z True l1(3) installed_judged(2,3) [OF i] show ?thesis
      by (auto simp: aside_def intro!: exI [of _ "judge (noticed l1)"])
  next
    case False
    then have "downloads (noticed l1) ch i" "progress (noticed l1) = q" "aside (noticed l1) = aside l"
      using l1(2,3) by (simp_all add: after_parts_def downloads_def aside_def)
    with part.IH [OF part.prems(1) this(1,2) False] first show ?thesis
      by (fastforce simp: aside_def split: if_splits)
  qed
next
  case (late p d ds n z)
  have s: "live (r, l)" "steered (r, l) = (r, l)" "late L (heardSequence l) d"
    using late.prems(1-3) late.hyps(1) by (auto simp: downloads_def steered_simps)
  note first = runs_late [OF s(1,3), of f, unfolded s(2)]
  from late.IH [OF late.prems] first show ?case by (fastforce split: if_splits)
qed

text \<open>Any number of batches without the last part.\<close>

lemma parts_run:
  assumes "commands_distinct L" "under_way r"
  shows "parts L f ch p (concat bs) n q \<Longrightarrow> downloads l ch i \<Longrightarrow> progress l = p \<Longrightarrow> \<not> completed L q \<Longrightarrow>
    \<exists>l'. runs L f (r, l) bs (length bs + n) (r, l') \<and> downloads l' ch i \<and> progress l' = q \<and> aside l' = aside l"
proof (induction bs arbitrary: l p n)
  case Nil
  then show ?case by (intro exI [of _ l]) (auto elim!: parts_nilE)
next
  case (Cons ds bs)
  from Cons.prems(1) obtain m k p1 where p1: "parts L f ch p ds m p1" "parts L f ch p1 (concat bs) k q" "n = m + k"
    by (auto elim: parts_append)
  have missing: "\<not> completed L p1" "\<not> completed L p"
    using parts_missing [OF p1(2) Cons.prems(4)] parts_missing [OF p1(1)] by simp_all
  from parts_batch [OF assms(1) p1(1) assms(2) Cons.prems(2,3) missing(2)] missing(1) obtain l1
    where l1: "runs L f (r, l) [ds] (Suc m) (r, l1)" "downloads l1 ch i" "progress l1 = p1" "aside l1 = aside l" by auto
  from Cons.IH [OF p1(2) l1(2,3) Cons.prems(4)] obtain l2
    where "runs L f (r, l1) bs (length bs + k) (r, l2)" "downloads l2 ch i" "progress l2 = q" "aside l2 = aside l1" by blast
  with runs_cons [OF l1(1)] l1(4) p1(3) show ?case by (fastforce simp: algebra_simps)
qed

text \<open>
  C11. A game state that comes in parts is installed with the last of them: a client that downloads
  on a channel, steered by a realizer that is to be synced, takes the parts in whatever way they are
  spread over its updates, several in one or none at all, also when datagrams between them were
  lost, and with repeated and overtaken datagrams among them, for each of which it needs an update
  more; in the updates in which the batch comes that completes the blob, the client and the realizer
  are synced, with the octets of the blob at the step that was announced for it.
\<close>

theorem download_in_parts_is_installed:
  assumes "scripted L inbox" "answers_ok L" "replies_harmless L f" "commands_distinct L"
    and "client_ok (client r) (heap w)" "\<forall>i. length (arrivals inbox w i) < 2147483648"
    and "targetState r = NimbleClientRealizeStateSynced"
    and "realizeState r \<noteq> NimbleClientRealizeStateCleared" "realizeState r \<noteq> NimbleClientRealizeStateSynced"
    and "state (client r) = NimbleClientStateJoiningDownloadingState"
    and "reason (quality (client r)) = KeepConnection" "consideringDisconnectCounter (quality (client r)) = 0"
    and "parts L f (joinStateChannel (client r))
        (orderedDatagramIn (client r), f (blobStreamInLogic (client r)), blobStreamIn (client r))
        (concat (map (arrivals inbox w) [0..<n])) m p"
    and "\<not> blobStreamInIsComplete L (snd (snd p))"
    and "parts L f (joinStateChannel (client r)) p (arrivals inbox w n) k (x, lg, b)" "blobStreamInIsComplete L b"
    and "length ts = Suc n + m + k"
  shows "\<exists>r' w'. realize_run L ts r w = Some (r', w') \<and> realizeState r' = NimbleClientRealizeStateSynced
    \<and> state (client r') = NimbleClientStateSynced \<and> stepId (joinedGameState (client r')) = joinStateId (client r)
    \<and> heap w' (gameState (joinedGameState (client r'))) = Some (take (unat (octetCount b)) (blob b))"
proof -
  let ?l = "listener_of f (client r) (heap w)" and ?ch = "joinStateChannel (client r)" and ?i = "joinStateId (client r)"
  obtain r' w' where run: "realize_run L ts r w = Some (r', w')"
    "session_of f inbox r' w' = (session_update L f ^^ length ts) (session_of f inbox r w)"
    using heard_run [OF assms(1-3,5,6), of ts] by auto
  have l: "downloads ?l ?ch ?i"
    "progress ?l = (orderedDatagramIn (client r), f (blobStreamInLogic (client r)), blobStreamIn (client r))"
    using assms(10-12) by (simp_all add: downloads_def listener_of_def watch_of_def)
  from parts_run [OF assms(4) conjI [OF assms(8,9)] assms(13) l assms(14)] obtain l1
    where l1: "runs L f (realizeState r, ?l) (map (arrivals inbox w) [0..<n]) (n + m) (realizeState r, l1)"
      "downloads l1 ?ch ?i" "progress l1 = p" by auto
  from parts_batch [OF assms(4,15) conjI [OF assms(8,9)] l1(2,3)] assms(14,16) obtain l'
    where "runs L f (realizeState r, l1) [arrivals inbox w n] (Suc k) (NimbleClientRealizeStateSynced, l')"
      and b: "begins L l' ?i x (blob_octets b)" by auto
  from runs_append [OF l1(1) this(1)]
  have "runs L f (realizeState r, ?l) (map (arrivals inbox w) [0..<Suc n]) (length ts) (NimbleClientRealizeStateSynced, l')"
    using assms(17) by (simp add: algebra_simps)
  then obtain later' where "(session_update L f ^^ length ts) (session_of f inbox r w)
      = (NimbleClientRealizeStateSynced, NimbleClientRealizeStateSynced, later', l')"
    by (auto simp: runs_def session_of_def assms(7) simp del: upt_Suc)
  with run b show ?thesis by (auto simp: session_of_def listener_of_def blob_octets_def begins_def)
qed

text \<open>
  The witness: parts that are appended, the last of them marked. The logic of the stream counts the
  parts it got and remembers its replies, of which \<open>take 1\<close> keeps the former.
\<close>

definition partLib :: "(octets, sample_world) nimble_lib" where
  "partLib = sampleLib\<lparr>
     blobStreamLogicInReceive := (\<lambda>l b s.
       (0, (case l of [] \<Rightarrow> [1] | k # replies \<Rightarrow> (k + 1) # replies),
        b\<lparr>blob := blob b @ tl (inRest s), octetCount := word_of_nat (length (blob b @ tl (inRest s))),
          blobStreamInRest := take 1 (inRest s)\<rparr>, s\<lparr>inPos := inSize s, inRest := []\<rparr>)),
     blobStreamLogicInSend := (\<lambda>l out.
       (0, (case l of [] \<Rightarrow> [] | k # replies \<Rightarrow> k # 9 # replies), sample_write out (replicate 12 9)))\<rparr>"

lemma part_lib_ok:
  "scripted partLib (\<lambda>(ds, t, p). sample_inbox ds)" "answers_ok partLib" "commands_distinct partLib"
  using sample_scripted sample_answers_ok
  by (simp_all add: scripted_def answers_ok_def commands_distinct_def partLib_def sample_fields)

lemma part_replies: "replies_harmless partLib (take 1)"
  by (auto simp: replies_harmless_def partLib_def sample_fields split: list.splits)

text \<open>The second part comes a second time, and the first one once more behind the last.\<close>

theorem download_in_parts_is_installed_witness:
  "\<exists>r' w'. realize_run partLib [16, 32, 48, 64, 80]
       (sample_realize\<lparr>realizeState := NimbleClientRealizeStateInit,
          client := (sample_client NimbleClientStateJoiningDownloadingState NimbleJoiningStateJoiningParticipant 0 0)
            \<lparr>joinStateChannel := 4, joinStateId := 9, blobStreamInLogic := [0]\<rparr>\<rparr>)
       (sample_world [[5, 0, 50, 12, 4, 0, 7], [6, 0, 50, 12, 4, 0, 8], [6, 0, 50, 12, 4, 0, 8], [], [],
          [9, 0, 50, 12, 4, 1, 6], [5, 0, 50, 12, 4, 0, 7], []]) = Some (r', w')
     \<and> realizeState r' = NimbleClientRealizeStateSynced \<and> stepId (joinedGameState (client r')) = 9
     \<and> heap w' (gameState (joinedGameState (client r'))) = Some [7, 8, 6]"
proof -
  let ?inbox = "\<lambda>(ds :: octets list, t :: int, p :: nat). sample_inbox ds"
  let ?r = "sample_realize\<lparr>realizeState := NimbleClientRealizeStateInit,
          client := (sample_client NimbleClientStateJoiningDownloadingState NimbleJoiningStateJoiningParticipant 0 0)
            \<lparr>joinStateChannel := 4, joinStateId := 9, blobStreamInLogic := [0]\<rparr>\<rparr>"
  let ?w = "sample_world [[5, 0, 50, 12, 4, 0, 7], [6, 0, 50, 12, 4, 0, 8], [6, 0, 50, 12, 4, 0, 8], [], [],
          [9, 0, 50, 12, 4, 1, 6], [5, 0, 50, 12, 4, 0, 7], []]"
  let ?b = "\<lambda>n bs i. \<lparr>blob = bs, octetCount = n, blobStreamInRest = i\<rparr> :: octets BlobStreamIn"
  note read = take_part_def late_def partLib_def in_stream_def sample_fields sample_ordered_receive_def
    sample_read16_def sample_read8_def size_of_int_def Let_def
  have two: "concat (map g [0..<2]) = g 0 @ g 1" for g :: "nat \<Rightarrow> octets list"
    by (simp add: eval_nat_numeral)
  have arr: "concat (map (arrivals ?inbox ?w) [0..<2])
      = [[5, 0, 50, 12, 4, 0, 7], [6, 0, 50, 12, 4, 0, 8], [6, 0, 50, 12, 4, 0, 8]]"
    "arrivals ?inbox ?w 2 = [[9, 0, 50, 12, 4, 1, 6], [5, 0, 50, 12, 4, 0, 7]]"
    unfolding two by (simp_all add: sample_world_def numeral_2_eq_2)
  have "parts partLib (take 1) 4 ([0], [0], ?b 0 [] [])
      [[5, 0, 50, 12, 4, 0, 7], [6, 0, 50, 12, 4, 0, 8], [6, 0, 50, 12, 4, 0, 8]] (Suc 0) ([6], [2], ?b 2 [7, 8] [0])"
    by (rule parts.part [where q = "([5], [1], ?b 1 [7] [0])"], simp add: read, simp add: read,
        rule parts.part [where q = "([6], [2], ?b 2 [7, 8] [0])"], simp add: read, simp add: read,
        rule parts.late [OF _ parts.none], simp add: read)
  then have first: "parts partLib (take 1) (joinStateChannel (client ?r))
      (orderedDatagramIn (client ?r), take 1 (blobStreamInLogic (client ?r)), blobStreamIn (client ?r))
      (concat (map (arrivals ?inbox ?w) [0..<2])) (Suc 0) ([6], [2], ?b 2 [7, 8] [0])"
    unfolding arr by (simp add: sample_client_def)
  have "parts partLib (take 1) 4 ([6], [2], ?b 2 [7, 8] [0])
      [[9, 0, 50, 12, 4, 1, 6], [5, 0, 50, 12, 4, 0, 7]] (Suc 0) ([9], [3], ?b 3 [7, 8, 6] [1])"
    by (rule parts.part [where q = "([9], [3], ?b 3 [7, 8, 6] [1])"], simp add: read, simp add: read,
        rule parts.late [OF _ parts.none], simp add: read)
  then have last: "parts partLib (take 1) (joinStateChannel (client ?r)) ([6], [2], ?b 2 [7, 8] [0])
      (arrivals ?inbox ?w 2) (Suc 0) ([9], [3], ?b 3 [7, 8, 6] [1])"
    unfolding arr by (simp add: sample_client_def)
  have ok: "client_ok (client ?r) (heap ?w)"
    by (simp add: client_ok_def sample_client_def NIMBLE_CLIENT_MAX_LOCAL_USERS_COUNT_def game_state_ok_def)
  have small: "\<forall>i. length (arrivals ?inbox ?w i) < 2147483648" by (rule sample_arrivals_small) simp
  have r: "targetState ?r = NimbleClientRealizeStateSynced" "realizeState ?r \<noteq> NimbleClientRealizeStateCleared"
    "realizeState ?r \<noteq> NimbleClientRealizeStateSynced"
    "state (client ?r) = NimbleClientStateJoiningDownloadingState" "reason (quality (client ?r)) = KeepConnection"
    "consideringDisconnectCounter (quality (client ?r)) = 0" "joinStateId (client ?r) = 9"
    by (simp_all add: sample_realize_def sample_client_def sample_quality_def)
  have complete: "\<not> blobStreamInIsComplete partLib (snd (snd ([6], [2], ?b 2 [7, 8] [0])))"
    "blobStreamInIsComplete partLib (?b 3 [7, 8, 6] [1])"
    by (simp_all add: partLib_def sample_fields)
  have "length [16, 32, 48, 64, 80 :: int] = Suc 2 + Suc 0 + Suc 0" by simp
  from download_in_parts_is_installed [OF part_lib_ok(1,2) part_replies part_lib_ok(3) ok small r(1-6) first complete(1)
      last complete(2) this]
  obtain r' w' where run: "realize_run partLib [16, 32, 48, 64, 80] ?r ?w = Some (r', w')"
    and s: "realizeState r' = NimbleClientRealizeStateSynced" "stepId (joinedGameState (client r')) = 9"
    and h: "heap w' (gameState (joinedGameState (client r'))) = Some [7, 8, 6]"
    unfolding r(7) by auto
  show ?thesis by (intro exI conjI) (rule run s h)+
qed

end
