(* ===== verification/WholeSession.thy ===== *)
theory WholeSession
  imports DownloadParts Handshake
begin

text \<open>
  A whole session: from joining, over a game state in parts, to steps and the join answer, in which
  datagrams may be lost, repeated and overtaken, and several may come in one update. It is followed
  by the listener; the refinement carries it over to the program.
\<close>

section \<open>On the way\<close>

lemma hear_as:
  assumes "arrives_as L (heardSequence l) d x cmd s" "heardState l \<noteq> NimbleClientStateDisconnected"
  shows "hear_datagram L f d l = hear L f cmd s (l\<lparr>heardSequence := x\<rparr>)" "d \<noteq> []"
proof -
  have n: "size_of_int (int (length d)) = of_nat (length d)" "\<not> (of_nat (length d) :: size_t) < 1"
    using assms(1) by (simp_all add: arrives_as_def size_of_int_def word_less_nat_alt unat_of_nat
        take_bit_nat_eq_self Suc_le_eq)
  show "hear_datagram L f d l = hear L f cmd s (l\<lparr>heardSequence := x\<rparr>)"
    using assms n(2) by (auto simp: hear_datagram_def n(1) arrives_as_def Let_def split: prod.splits)
  show "d \<noteq> []" using assms(1) by (simp add: arrives_as_def)
qed

text \<open>A realizer that waits for an answer, whatever comes late, and the answers.\<close>

lemma quiet_runs:
  assumes "under_way r" "heardState l \<in> {NimbleClientStateRequestingConnect, NimbleClientStateJoiningRequestingState}"
    and "\<forall>d \<in> set (concat bs). late L (heardSequence l) d"
  shows "runs L f (r, l) bs (length bs + length (concat bs)) (r, l)"
  by (rule late_batches) (use assms in \<open>auto simp: judge_def steered_simps\<close>)

lemma first_runs:
  assumes "under_way r" "heardState l = NimbleClientStateIdle" "bs \<noteq> []"
    and "\<forall>d \<in> set (concat bs). late L (heardSequence l) d"
  shows "runs L f (r, l) bs (length bs + length (concat bs)) (r, l\<lparr>heardState := NimbleClientStateRequestingConnect\<rparr>)"
proof -
  obtain ds cs where bs: "bs = ds # cs" using assms(3) by (cases bs) auto
  let ?l = "l\<lparr>heardState := NimbleClientStateRequestingConnect\<rparr>"
  have "runs L f (r, l) [ds] (Suc (length ds)) (r, ?l)"
    by (rule late_batch) (use assms bs in \<open>auto simp: judge_def steered_simps\<close>)
  from runs_cons [OF this quiet_runs [of r ?l cs L f]] assms(1,4) show ?thesis by (simp add: bs algebra_simps)
qed

lemma connect_run:
  assumes "under_way r" "heardState l = NimbleClientStateRequestingConnect"
    and "arrives_as L (heardSequence l) d x (NimbleSerializeCmdConnectResponse L) s" "connect_answer L s remote"
    and "among L (heardSequence l) d x ds n"
  shows "runs L f (r, l) [ds] (Suc n) (r, (noticed l)\<lparr>heardState := NimbleClientStateJoiningRequestingState,
    heardPhase := NimbleJoiningStateJoiningParticipant, heardSequence := x, heardRemote := remote\<rparr>)"
proof -
  let ?l = "l\<lparr>heardSequence := x, heardState := NimbleClientStateConnected, heardRemote := remote\<rparr>"
  obtain e resp s' where rd: "nimbleSerializeClientInConnectResponse L s = (e, resp, s')" "0 \<le> e"
    "of_nat (connectionId resp) = remote"
    using assms(4) by (auto simp: connect_answer_def split: prod.splits)
  then have heard: "hear_datagram L f d l = (0, ?l)"
    using hear_as(1) [OF assms(3), of f] assms(2) by (simp add: hear_def hear_connect_response_def)
  show ?thesis
    by (rule among_runs [OF _ _ hear_as(2) [OF assms(3)] heard _ _ _ _ assms(5)])
       (use assms(1,2) in \<open>auto simp: judge_def steered_simps intro!: late_batch\<close>)
qed

lemma state_run:
  assumes "commands_distinct L" "under_way r" "heardState l = NimbleClientStateJoiningRequestingState"
    and "arrives_as L (heardSequence l) d x (NimbleSerializeCmdGameStateResponse L) s" "state_answer L s sid ch"
    and "heardRequest l = 1" "ch \<noteq> heardChannel l" "among L (heardSequence l) d x ds n"
  shows "runs L f (r, l) [ds] (Suc n) (r, (noticed l)\<lparr>heardState := NimbleClientStateJoiningDownloadingState,
    heardSequence := x, heardChannel := ch, heardStateId := sid, heardGame := (sid, snd (heardGame l)),
    heardOut := nbsStepsReInit L (heardOut l) sid\<rparr>)"
proof -
  let ?l = "l\<lparr>heardSequence := x, heardChannel := ch, heardStateId := sid, heardGame := (sid, snd (heardGame l)),
    heardOut := nbsStepsReInit L (heardOut l) sid, heardState := NimbleClientStateJoiningDownloadingState\<rparr>"
  have heard: "hear_datagram L f d l = (0, ?l)"
    using hear_as(1) [OF assms(4), of f] assms(1,3,5,6,7)
    by (auto simp: hear_def commands_distinct_def hear_state_response_def state_answer_def split: prod.splits)
  show ?thesis
    by (rule among_runs [OF _ _ hear_as(2) [OF assms(4)] heard _ _ _ _ assms(8)])
       (use assms(2,3) in \<open>auto simp: judge_def steered_simps intro!: late_batch\<close>)
qed

section \<open>In the session\<close>

text \<open>Steps that can be read, and join answers that can be read.\<close>

datatype 'x session_message = StepsMessage "'x FldInStream" | JoinMessage "'x FldInStream"

fun message_arrives ::
    "('x, 'w) nimble_lib \<Rightarrow> 'x \<Rightarrow> octets \<Rightarrow> 'x \<Rightarrow> 'x session_message \<Rightarrow> bool" where
  "message_arrives L x d y (StepsMessage s) \<longleftrightarrow>
     arrives_as L x d y (NimbleSerializeCmdGameStepResponse L) s \<and> readable_steps L s"
| "message_arrives L x d y (JoinMessage s) \<longleftrightarrow>
     arrives_as L x d y (NimbleSerializeCmdJoinGameResponse L) s
     \<and> 0 \<le> fst (nimbleSerializeClientInJoinGameResponse L s)"

text \<open>The messages in a batch of datagrams, \<open>n\<close> of which are late.\<close>

inductive messages ::
    "('x, 'w) nimble_lib \<Rightarrow> 'x \<Rightarrow> octets list \<Rightarrow> 'x session_message list \<Rightarrow> nat \<Rightarrow> 'x \<Rightarrow> bool"
  for L :: "('x, 'w) nimble_lib" where
  none: "messages L x [] [] 0 x"
| more: "message_arrives L x d y m \<Longrightarrow> messages L y ds ms n z \<Longrightarrow> messages L x (d # ds) (m # ms) n z"
| late: "late L x d \<Longrightarrow> messages L x ds ms n z \<Longrightarrow> messages L x (d # ds) ms (Suc n) z"

fun steps_of :: "'x session_message list \<Rightarrow> 'x FldInStream list" where
  "steps_of [] = []"
| "steps_of (StepsMessage s # ms) = s # steps_of ms"
| "steps_of (JoinMessage s # ms) = steps_of ms"

fun joins_of :: "'x session_message list \<Rightarrow> 'x FldInStream list" where
  "joins_of [] = []"
| "joins_of (StepsMessage s # ms) = joins_of ms"
| "joins_of (JoinMessage s # ms) = s # joins_of ms"

lemma message_lists_append [simp]:
  "steps_of (ms @ ns) = steps_of ms @ steps_of ns" "joins_of (ms @ ns) = joins_of ms @ joins_of ns"
  by (induction ms rule: steps_of.induct) simp_all

text \<open>
  The batches of a session from sequence state \<open>x\<close> on, \<open>k\<close> ticks after the last steps: any number of
  messages in each, \<open>n\<close> late datagrams in all, and no more than 14 ticks in a row without steps.
\<close>

inductive played ::
    "('x, 'w) nimble_lib \<Rightarrow> 'x \<Rightarrow> nat \<Rightarrow> octets list list \<Rightarrow> 'x session_message list \<Rightarrow> nat \<Rightarrow> bool"
  for L :: "('x, 'w) nimble_lib" where
  over: "played L x k [] [] 0"
| batch: "messages L x ds ms m y \<Longrightarrow> steps_of ms \<noteq> [] \<or> k < 15 \<Longrightarrow>
    played L y (if steps_of ms \<noteq> [] then 1 else Suc k) bs ns n \<Longrightarrow> played L x k (ds # bs) (ms @ ns) (m + n)"

text \<open>The first join answer gives the participants, every later one is ignored.\<close>

type_synonym party = "NimbleJoiningState \<times> NimbleClientParticipantEntry list \<times> size_t"

fun joined_by :: "('x, 'w) nimble_lib \<Rightarrow> 'x FldInStream list \<Rightarrow> party \<Rightarrow> party" where
  "joined_by L [] p = p"
| "joined_by L (s # ss) (phase, es, n) =
     (if phase \<noteq> NimbleJoiningStateJoiningParticipant then (phase, es, n)
      else case nimbleSerializeClientInJoinGameResponse L s of (e, resp, s') \<Rightarrow>
        let n = participantCount resp in
        (NimbleJoiningStateJoinedParticipant,
         map entry_of (take (unat n) (participants resp)) @ drop (unat n) es, n))"

lemma joined_by_append: "joined_by L (ss @ ts) p = joined_by L ts (joined_by L ss p)"
  by (cases ss; cases ts; cases p) (auto simp: Let_def split: prod.splits)

abbreviation party_of :: "'x listener \<Rightarrow> party" where
  "party_of l \<equiv> (heardPhase l, heardEntries l, heardCount l)"

abbreviation steps_heard :: "'x listener \<Rightarrow> 'x NbsSteps \<times> 'x" where
  "steps_heard l \<equiv> (heardSteps l, heardPending l)"

text \<open>A listener in a session, the last steps having come \<open>k\<close> ticks ago.\<close>

definition in_session :: "'x listener \<Rightarrow> 'x \<Rightarrow> nat \<Rightarrow> bool" where
  "in_session l x k \<longleftrightarrow> heardState l = NimbleClientStateSynced \<and> heardSequence l = x \<and> calm l
     \<and> unat (silentStepTicks (heardWatch l)) = k \<and> unat (silentDatagramTicks (heardWatch l)) \<le> k"

lemma hear_message:
  assumes "commands_distinct L" "message_arrives L (heardSequence l) d y m" "heardState l = NimbleClientStateSynced"
  shows "\<exists>e l'. hear_datagram L f d l = (e, l') \<and> 0 \<le> e \<and> d \<noteq> []
    \<and> heardState l' = NimbleClientStateSynced \<and> heardSequence l' = y
    \<and> heardGame l' = heardGame l \<and> heardRemote l' = heardRemote l
    \<and> steps_heard l' = fold (deliver L) (steps_of [m]) (steps_heard l)
    \<and> party_of l' = joined_by L (joins_of [m]) (party_of l)
    \<and> heardWatch l' = (if steps_of [m] = [] then heardWatch l else (heardWatch l)\<lparr>silentStepTicks := 0\<rparr>)"
proof (cases m)
  case (StepsMessage s)
  let ?l = "l\<lparr>heardSequence := y\<rparr>"
  have a: "arrives_as L (heardSequence l) d y (NimbleSerializeCmdGameStepResponse L) s" "readable_steps L s"
    using assms(2) by (simp_all add: StepsMessage)
  obtain e1 n s1 where 1: "fldInStreamReadUInt8 L s = (e1, n, s1)" by (cases "fldInStreamReadUInt8 L s") auto
  obtain e2 v s2 where 2: "fldInStreamReadInt8 L s1 = (e2, v, s2)" by (cases "fldInStreamReadInt8 L s1") auto
  obtain e3 i s3 where 3: "fldInStreamReadUInt32 L s2 = (e3, i, s3)" by (cases "fldInStreamReadUInt32 L s2") auto
  obtain k s4 p where k: "nbsPendingStepsInSerialize L s3 (heardPending l) = (k, s4, p)"
    by (cases "nbsPendingStepsInSerialize L s3 (heardPending l)") auto
  obtain e4 q p' where c: "nbsPendingStepsCopy L (heardSteps l) p = (e4, q, p')"
    by (cases "nbsPendingStepsCopy L (heardSteps l) p") auto
  have head: "behind_head L s = s3" by (simp add: behind_head_def 1 2 3)
  have "0 \<le> k \<and> k < 2147483648"
    using a(2) [unfolded readable_steps_def, rule_format, of "heardPending l"] by (simp add: head k)
  then show ?thesis
    using hear_as(1) [OF a(1), where f = f] hear_as(2) [OF a(1)] assms(1,3)
    by (auto simp: StepsMessage hear_def commands_distinct_def hear_step_response_def 1 2 3 k c deliver_def head Let_def)
next
  case (JoinMessage s)
  have a: "arrives_as L (heardSequence l) d y (NimbleSerializeCmdJoinGameResponse L) s"
    "0 \<le> fst (nimbleSerializeClientInJoinGameResponse L s)"
    using assms(2) by (simp_all add: JoinMessage)
  obtain e resp s' where rd: "nimbleSerializeClientInJoinGameResponse L s = (e, resp, s')"
    by (cases "nimbleSerializeClientInJoinGameResponse L s") auto
  show ?thesis
    using hear_as(1) [OF a(1), where f = f] hear_as(2) [OF a(1)] assms(1,3) a(2)
    by (auto simp: JoinMessage hear_def commands_distinct_def hear_join_response_def rd Let_def)
qed

text \<open>What a batch leaves of a listener, up to the tick.\<close>

definition after_messages ::
    "('x, 'w) nimble_lib \<Rightarrow> 'x listener \<Rightarrow> 'x session_message list \<Rightarrow> 'x \<Rightarrow> 'x listener \<Rightarrow> bool" where
  "after_messages L l ms y l' \<longleftrightarrow> heardState l' = NimbleClientStateSynced \<and> heardSequence l' = y
     \<and> heardGame l' = heardGame l \<and> heardRemote l' = heardRemote l
     \<and> steps_heard l' = fold (deliver L) (steps_of ms) (steps_heard l)
     \<and> party_of l' = joined_by L (joins_of ms) (party_of l)
     \<and> silentStepTicks (heardWatch l') = (if steps_of ms = [] then silentStepTicks (heardWatch l) else 0)
     \<and> silentDatagramTicks (heardWatch l') = (if ms = [] then silentDatagramTicks (heardWatch l) else 0)
     \<and> verdict (heardWatch l') = verdict (heardWatch l)
     \<and> consideringLevel (heardWatch l') = consideringLevel (heardWatch l)"

lemma hear_messages:
  assumes "commands_distinct L"
  shows "messages L (heardSequence l) ds ms n y \<Longrightarrow> heardState l = NimbleClientStateSynced \<Longrightarrow>
    \<exists>l'. after_messages L l ms y l' \<and> (heardState (judge l') = NimbleClientStateSynced \<longrightarrow>
      runs L f (NimbleClientRealizeStateSynced, l) [ds] (Suc n) (NimbleClientRealizeStateSynced, judge l'))"
proof (induction "heardSequence l" ds ms n y arbitrary: l rule: messages.induct)
  case none
  then show ?case
    using runs_end [of NimbleClientRealizeStateSynced l L f]
    by (intro exI [of _ l]) (simp add: after_messages_def steered_simps)
next
  case (more d y m ds ms n z)
  from hear_message [OF assms more.hyps(1) more.prems, of f] obtain e l1
    where l1: "hear_datagram L f d l = (e, l1)" "0 \<le> e" "d \<noteq> []" "heardState l1 = NimbleClientStateSynced"
      "heardSequence l1 = y" "heardGame l1 = heardGame l" "heardRemote l1 = heardRemote l"
      "steps_heard l1 = fold (deliver L) (steps_of [m]) (steps_heard l)"
      "party_of l1 = joined_by L (joins_of [m]) (party_of l)"
      "heardWatch l1 = (if steps_of [m] = [] then heardWatch l else (heardWatch l)\<lparr>silentStepTicks := 0\<rparr>)" by blast
  obtain l2 where l2: "after_messages L (noticed l1) ms z l2" "heardState (judge l2) = NimbleClientStateSynced \<longrightarrow>
      runs L f (NimbleClientRealizeStateSynced, noticed l1) [ds] (Suc n) (NimbleClientRealizeStateSynced, judge l2)"
    using more.hyps(3) [of "noticed l1"] l1(4,5) by auto
  have cons: "steps_of (m # ms) = steps_of [m] @ steps_of ms" "joins_of (m # ms) = joins_of [m] @ joins_of ms"
    using message_lists_append [of "[m]" ms] by simp_all
  have "after_messages L l (m # ms) z l2"
    using l1 l2(1) unfolding after_messages_def cons by (auto simp: joined_by_append)
  moreover have "live (NimbleClientRealizeStateSynced, l)" "heardState l1 \<noteq> NimbleClientStateDisconnected"
    using more.prems l1(4) by simp_all
  ultimately show ?case using l2(2) runs_heard [OF _ l1(1,2,3)] by blast
next
  case (late d ds ms n z)
  from late.hyps(3) [OF refl late.prems] obtain l' where l': "after_messages L l ms z l'"
    "heardState (judge l') = NimbleClientStateSynced \<longrightarrow>
      runs L f (NimbleClientRealizeStateSynced, l) [ds] (Suc n) (NimbleClientRealizeStateSynced, judge l')" by blast
  have "live (NimbleClientRealizeStateSynced, l)" using late.prems by simp
  from runs_late [OF this late.hyps(1), of f, unfolded steered_simps(1)] l' show ?case by blast
qed

text \<open>A batch of a session, with its tick.\<close>

lemma session_batch:
  assumes "commands_distinct L" "messages L x ds ms n y" "steps_of ms \<noteq> [] \<or> k < 15" "in_session l x k" "k \<le> 15"
  shows "\<exists>l'. runs L f (NimbleClientRealizeStateSynced, l) [ds] (Suc n) (NimbleClientRealizeStateSynced, l')
    \<and> in_session l' y (if steps_of ms \<noteq> [] then 1 else Suc k)
    \<and> heardGame l' = heardGame l \<and> heardRemote l' = heardRemote l
    \<and> steps_heard l' = fold (deliver L) (steps_of ms) (steps_heard l)
    \<and> party_of l' = joined_by L (joins_of ms) (party_of l)"
proof -
  have l: "messages L (heardSequence l) ds ms n y" "heardState l = NimbleClientStateSynced" "calm l"
    using assms(2,4) by (simp_all add: in_session_def)
  obtain l1 where "after_messages L l ms y l1" and run: "heardState (judge l1) = NimbleClientStateSynced \<longrightarrow>
      runs L f (NimbleClientRealizeStateSynced, l) [ds] (Suc n) (NimbleClientRealizeStateSynced, judge l1)"
    using hear_messages [OF assms(1) l(1,2), of f] by blast
  then have l1: "heardState l1 = NimbleClientStateSynced" "heardSequence l1 = y"
      "heardGame l1 = heardGame l" "heardRemote l1 = heardRemote l"
      "steps_heard l1 = fold (deliver L) (steps_of ms) (steps_heard l)"
      "party_of l1 = joined_by L (joins_of ms) (party_of l)"
      "silentStepTicks (heardWatch l1) = (if steps_of ms = [] then silentStepTicks (heardWatch l) else 0)"
      "silentDatagramTicks (heardWatch l1) = (if ms = [] then silentDatagramTicks (heardWatch l) else 0)"
      "verdict (heardWatch l1) = verdict (heardWatch l)"
      "consideringLevel (heardWatch l1) = consideringLevel (heardWatch l)"
    unfolding after_messages_def by blast+
  let ?d = "unat (silentDatagramTicks (heardWatch l1))" and ?k = "if steps_of ms = [] then k else 0"
  have empty: "ms = [] \<Longrightarrow> steps_of ms = []" by simp
  have t: "unat (silentStepTicks (heardWatch l1)) = ?k" "?d \<le> ?k" "Suc ?d < 40" "Suc ?k \<le> 15"
    using l1(7,8) assms(3,4,5) empty by (auto simp: in_session_def)
  have calm: "verdict (heardWatch l1) = KeepConnection" "consideringLevel (heardWatch l1) = 0" using l1(9,10) l(3) by simp_all
  note tick = watch_tick_calm [OF refl t(1,3,4) calm(2)]
  then have j: "judge l1 = l1\<lparr>heardWatch := watch_tick (heardWatch l1)\<rparr>"
    using l1(1) calm by (simp add: judge_def)
  have "in_session (judge l1) y (if steps_of ms \<noteq> [] then 1 else Suc k)"
    using l1(1,2) tick t(2) calm by (auto simp: in_session_def j)
  moreover have "heardState (judge l1) = NimbleClientStateSynced" by (simp add: j l1(1))
  ultimately show ?thesis using l1(3-6) run by (intro exI [of _ "judge l1"]) (simp add: j)
qed

lemma session_runs:
  assumes "commands_distinct L"
  shows "played L x k bs ms n \<Longrightarrow> in_session l x k \<Longrightarrow> k \<le> 15 \<Longrightarrow>
    \<exists>l'. runs L f (NimbleClientRealizeStateSynced, l) bs (length bs + n) (NimbleClientRealizeStateSynced, l')
      \<and> heardState l' = NimbleClientStateSynced \<and> calm l'
      \<and> heardGame l' = heardGame l \<and> heardRemote l' = heardRemote l
      \<and> steps_heard l' = fold (deliver L) (steps_of ms) (steps_heard l)
      \<and> party_of l' = joined_by L (joins_of ms) (party_of l)"
proof (induction arbitrary: l rule: played.induct)
  case (over x k)
  then show ?case by (intro exI [of _ l]) (simp add: in_session_def)
next
  case (batch x ds ms m y k bs ns n)
  from session_batch [OF assms batch.hyps(1,2) batch.prems, of f] obtain l1
    where r1: "runs L f (NimbleClientRealizeStateSynced, l) [ds] (Suc m) (NimbleClientRealizeStateSynced, l1)"
      and l1: "in_session l1 y (if steps_of ms \<noteq> [] then 1 else Suc k)" "heardGame l1 = heardGame l"
        "heardRemote l1 = heardRemote l" "steps_heard l1 = fold (deliver L) (steps_of ms) (steps_heard l)"
        "party_of l1 = joined_by L (joins_of ms) (party_of l)" by blast
  have "(if steps_of ms \<noteq> [] then 1 else Suc k) \<le> 15" using batch.hyps(2) by auto
  from batch.IH [OF l1(1) this] obtain l2
    where r2: "runs L f (NimbleClientRealizeStateSynced, l1) bs (length bs + n) (NimbleClientRealizeStateSynced, l2)"
      and l2: "heardState l2 = NimbleClientStateSynced" "calm l2" "heardGame l2 = heardGame l1"
        "heardRemote l2 = heardRemote l1" "steps_heard l2 = fold (deliver L) (steps_of ns) (steps_heard l1)"
        "party_of l2 = joined_by L (joins_of ns) (party_of l1)" by blast
  have "runs L f (NimbleClientRealizeStateSynced, l) (ds # bs) (length (ds # bs) + (m + n))
      (NimbleClientRealizeStateSynced, l2)"
    using runs_cons [OF r1 r2] by (simp add: algebra_simps)
  with l1 l2 show ?case by (intro exI [of _ l2]) (simp add: joined_by_append)
qed

section \<open>From joining to playing\<close>

text \<open>All the batches, from the update in which the realizer is told to join on.\<close>

lemma whole_runs:
  assumes L: "commands_distinct L" "under_way r"
    and l: "heardState l = NimbleClientStateIdle" "heardRequest l = 1" "calm l" "silentStepTicks (heardWatch l) = 0"
    and q1: "q1 \<noteq> []" "\<forall>d \<in> set (concat q1). late L (heardSequence l) d"
    and d1: "arrives_as L (heardSequence l) d1 x1 (NimbleSerializeCmdConnectResponse L) s1" "connect_answer L s1 remote"
      "among L (heardSequence l) d1 x1 a1 k1"
    and q2: "\<forall>d \<in> set (concat q2). late L x1 d"
    and d2: "arrives_as L x1 d2 x2 (NimbleSerializeCmdGameStateResponse L) s2" "state_answer L s2 sid ch"
      "ch \<noteq> heardChannel l" "among L x1 d2 x2 a2 k2"
    and ps: "parts L f ch (x2, heardLogic l, heardBlob l) (concat ps) k3 p" "\<not> completed L p"
      "parts L f ch p pl k4 (x3, lg, b)" "blobStreamInIsComplete L b"
    and play: "played L x3 1 rest ms k5"
    and n: "n = length (q1 @ [a1] @ q2 @ [a2] @ ps @ [pl] @ rest)
      + (length (concat q1) + k1 + length (concat q2) + k2 + k3 + k4 + k5)"
  shows "\<exists>l'. runs L f (r, l) (q1 @ [a1] @ q2 @ [a2] @ ps @ [pl] @ rest) n (NimbleClientRealizeStateSynced, l')
    \<and> heardState l' = NimbleClientStateSynced \<and> calm l' \<and> heardGame l' = (sid, Some (blob_octets b))
    \<and> heardRemote l' = remote
    \<and> (\<exists>a p. steps_heard l' = fold (deliver L) (steps_of ms) (nbsStepsReInit L a sid, nbsPendingStepsReset L p sid))
    \<and> party_of l' = joined_by L (joins_of ms) (NimbleJoiningStateJoiningParticipant, heardEntries l, heardCount l)"
proof -
  define l1 where "l1 = l\<lparr>heardState := NimbleClientStateRequestingConnect\<rparr>"
  define l2 where "l2 = (noticed l1)\<lparr>heardState := NimbleClientStateJoiningRequestingState,
    heardPhase := NimbleJoiningStateJoiningParticipant, heardSequence := x1, heardRemote := remote\<rparr>"
  define l3 where "l3 = (noticed l2)\<lparr>heardState := NimbleClientStateJoiningDownloadingState,
    heardSequence := x2, heardChannel := ch, heardStateId := sid, heardGame := (sid, snd (heardGame l2)),
    heardOut := nbsStepsReInit L (heardOut l2) sid\<rparr>"
  have r1: "runs L f (r, l) q1 (length q1 + length (concat q1)) (r, l1)"
    unfolding l1_def by (rule first_runs [OF L(2) l(1) q1])
  have r2: "runs L f (r, l1) [a1] (Suc k1) (r, l2)"
    unfolding l2_def by (rule connect_run [where d = d1, OF L(2) _ _ d1(2)]) (simp_all add: l1_def d1)
  have r3: "runs L f (r, l2) q2 (length q2 + length (concat q2)) (r, l2)"
    by (rule quiet_runs [OF L(2)]) (use q2 in \<open>simp_all add: l2_def\<close>)
  have r4: "runs L f (r, l2) [a2] (Suc k2) (r, l3)"
    unfolding l3_def by (rule state_run [where d = d2, OF L _ _ d2(2)]) (simp_all add: l2_def l1_def d2 l(2))
  have f3: "downloads l3 ch sid" "progress l3 = (x2, heardLogic l, heardBlob l)" "silentStepTicks (heardWatch l3) = 0"
    "party_of l3 = (NimbleJoiningStateJoiningParticipant, heardEntries l, heardCount l)" "heardRemote l3 = remote"
    using l(3,4) by (simp_all add: l3_def l2_def l1_def downloads_def)
  from parts_run [OF L ps(1) f3(1,2) ps(2)] obtain l4
    where r5: "runs L f (r, l3) ps (length ps + k3) (r, l4)" and f4: "downloads l4 ch sid" "progress l4 = p" "aside l4 = aside l3"
    by blast
  from parts_batch [OF L(1) ps(3) L(2) f4(1,2) ps(2)] ps(4) f3(3-5) f4(3) obtain l5
    where r6: "runs L f (r, l4) [pl] (Suc k4) (NimbleClientRealizeStateSynced, l5)" and b: "begins L l5 sid x3 (blob_octets b)"
      and f5: "heardWatch l5 = first_tick" "heardRemote l5 = remote"
        "party_of l5 = (NimbleJoiningStateJoiningParticipant, heardEntries l, heardCount l)" by (auto simp: aside_def)
  have "in_session l5 x3 1" using b f5(1) by (simp add: in_session_def begins_def first_tick_def)
  from session_runs [OF L(1) play this, of f] obtain l6
    where r7: "runs L f (NimbleClientRealizeStateSynced, l5) rest (length rest + k5) (NimbleClientRealizeStateSynced, l6)"
      and f6: "heardState l6 = NimbleClientStateSynced" "calm l6" "heardGame l6 = heardGame l5"
        "heardRemote l6 = heardRemote l5" "steps_heard l6 = fold (deliver L) (steps_of ms) (steps_heard l5)"
        "party_of l6 = joined_by L (joins_of ms) (party_of l5)" by auto
  obtain a p where fresh: "steps_heard l5 = (nbsStepsReInit L a sid, nbsPendingStepsReset L p sid)"
    using b by (auto simp: begins_def fresh_steps_def)
  note all = runs_append [OF r1 runs_append [OF r2 runs_append [OF r3 runs_append [OF r4 runs_append
    [OF r5 runs_append [OF r6 r7]]]]]]
  have "runs L f (r, l) (q1 @ [a1] @ q2 @ [a2] @ ps @ [pl] @ rest) n (NimbleClientRealizeStateSynced, l6)"
    using all by (rule back_subst [of "\<lambda>n. runs L f (r, l) _ n _"]) (simp add: n)
  with f6 f5 b fresh show ?thesis by (intro exI [of _ l6]) (auto simp: begins_def)
qed

text \<open>
  C3. A whole session. An initialised realizer is told to join. After any number of updates the
  server accepts the connection, after any number more it announces the game state, and then sends
  it in parts, spread over the updates in any way, none or several in each; after the last part come
  step responses and join answers, any number in an update, with at most 14 ticks in a row without
  steps. Anywhere in between datagrams may be lost, and datagrams may come late, repeated or
  overtaken; each of these takes an update of its own. Then the realizer is synced and stays so: its
  client has the connection id that it was given, exactly the octets that the parts make up at the
  step that was announced, in its step buffers all the steps in the order in which they came, and as
  its participants those of the first join answer, whatever further answers came.
\<close>

theorem whole_session:
  assumes "nimbleClientRealizeInit L r0 s w0 = Some (r, w)"
    and "length (localParticipantLookup (client r0)) = NIMBLE_CLIENT_MAX_LOCAL_USERS_COUNT"
    and "scripted L inbox" "answers_ok L" "replies_harmless L f" "commands_distinct L"
    and "\<forall>i. length (arrivals inbox w i) < 2147483648"
    and "map (arrivals inbox w) [0..<n] = q1 @ [a1] @ q2 @ [a2] @ ps @ [pl] @ rest"
    and "q1 \<noteq> []" "\<forall>d \<in> set (concat q1). late L (orderedDatagramIn (client r)) d"
    and "arrives_as L (orderedDatagramIn (client r)) d1 x1 (NimbleSerializeCmdConnectResponse L) s1"
      "connect_answer L s1 remote" "among L (orderedDatagramIn (client r)) d1 x1 a1 k1"
    and "\<forall>d \<in> set (concat q2). late L x1 d"
    and "arrives_as L x1 d2 x2 (NimbleSerializeCmdGameStateResponse L) s2" "state_answer L s2 sid ch"
      "ch \<noteq> joinStateChannel (client r)" "among L x1 d2 x2 a2 k2"
    and "parts L f ch (x2, f (blobStreamInLogic (client r)), blobStreamIn (client r)) (concat ps) k3 p"
      "\<not> blobStreamInIsComplete L (snd (snd p))" "parts L f ch p pl k4 (x3, lg, b)" "blobStreamInIsComplete L b"
    and "played L x3 1 rest ms k5"
    and "length ts = n + (length (concat q1) + k1 + length (concat q2) + k2 + k3 + k4 + k5)"
  shows "\<exists>r' w' a p. realize_run L ts (nimbleClientRealizeJoinGame r q) w = Some (r', w')
    \<and> realizeState r' = NimbleClientRealizeStateSynced \<and> state (client r') = NimbleClientStateSynced
    \<and> remoteConnectionId (client r') = remote \<and> consideringDisconnectCounter (quality (client r')) = 0
    \<and> stepId (joinedGameState (client r')) = sid
    \<and> heap w' (gameState (joinedGameState (client r'))) = Some (take (unat (octetCount b)) (blob b))
    \<and> step_buffers (client r')
      = fold (deliver L) (steps_of ms) (nbsStepsReInit L a sid, nbsPendingStepsReset L p sid)
    \<and> (joinParticipantPhase (client r'), localParticipantLookup (client r'), localParticipantCount (client r'))
      = joined_by L (joins_of ms) (NimbleJoiningStateJoiningParticipant,
          localParticipantLookup (client r), localParticipantCount (client r))"
proof -
  let ?j = "nimbleClientRealizeJoinGame r q"
  let ?l = "listener_of f (client ?j) (heap w)"
  have ok: "client_ok (client ?j) (heap w)"
    using join_ok [OF init_ok [OF assms(2,1)], of q] by (simp add: realize_ok_def)
  have way: "on_the_way ?j (orderedDatagramIn (client r)) NimbleClientStateIdle (joinStateChannel (client r))"
    by (rule joined_on_the_way [OF assms(1)])
  then have target: "targetState ?j = NimbleClientRealizeStateSynced" "under_way (realizeState ?j)"
    by (auto simp: on_the_way_def)
  have l: "heardState ?l = NimbleClientStateIdle" "heardRequest ?l = 1" "calm ?l" "silentStepTicks (heardWatch ?l) = 0"
    "heardSequence ?l = orderedDatagramIn (client r)" "heardChannel ?l = joinStateChannel (client r)"
    using way by (simp_all add: on_the_way_def waiting_def listener_of_def watch_of_def)
  have same: "heardLogic ?l = f (blobStreamInLogic (client r))" "heardBlob ?l = blobStreamIn (client r)"
    "heardEntries ?l = localParticipantLookup (client r)" "heardCount ?l = localParticipantCount (client r)"
    by (simp_all add: listener_of_def nimbleClientRealizeJoinGame_def Let_def)
  have len: "n = length (q1 @ [a1] @ q2 @ [a2] @ ps @ [pl] @ rest)"
    using arg_cong [OF assms(8), of length] by simp
  note whole = whole_runs [OF assms(6) target(2) l(1-4), unfolded l(5,6) same(1,2), OF assms(9-23)
    assms(24) [unfolded len]]
  obtain l' where run: "runs L f (realizeState ?j, ?l) (map (arrivals inbox w) [0..<n]) (length ts)
      (NimbleClientRealizeStateSynced, l')"
    and l': "heardState l' = NimbleClientStateSynced" "calm l'" "heardGame l' = (sid, Some (blob_octets b))"
      "heardRemote l' = remote"
      "\<exists>a p. steps_heard l' = fold (deliver L) (steps_of ms) (nbsStepsReInit L a sid, nbsPendingStepsReset L p sid)"
      "party_of l' = joined_by L (joins_of ms) (NimbleJoiningStateJoiningParticipant, heardEntries ?l, heardCount ?l)"
    using whole unfolding assms(8) by blast
  obtain r' w' where r': "realize_run L ts ?j w = Some (r', w')"
    and s: "session_of f inbox r' w' = (session_update L f ^^ length ts) (session_of f inbox ?j w)"
    using heard_run [OF assms(3-5) ok assms(7), of ts] by blast
  have "session_of f inbox r' w' = (NimbleClientRealizeStateSynced, NimbleClientRealizeStateSynced,
      \<lambda>i. arrivals inbox w (n + i), l')"
    using run target(1) unfolding s by (simp add: runs_def session_of_def)
  then have last: "realizeState r' = NimbleClientRealizeStateSynced" "l' = listener_of f (client r') (heap w')"
    by (simp_all add: session_of_def)
  obtain a p where "steps_heard l' = fold (deliver L) (steps_of ms) (nbsStepsReInit L a sid, nbsPendingStepsReset L p sid)"
    using l'(5) by blast
  with r' last(1) l'(1-4,6) show ?thesis
    unfolding last(2) same(3,4)
    by (intro exI [of _ r'] exI [of _ w'] exI [of _ a] exI [of _ p])
       (simp add: listener_of_def watch_of_def blob_octets_def)
qed

text \<open>
  The witness, on the library in which parts are appended. The connect answer comes twice, a part is
  repeated behind the last one, and after two lost datagrams a step response and a join answer come
  together, the join answer twice.
\<close>

definition sample_whole_session :: "octets list" where
  "sample_whole_session = [[], [1, 0, 50, 11, 5], [1, 0, 50, 11, 5], [], [2, 0, 50, 15, 1, 9, 4], [],
     [3, 0, 50, 12, 4, 0, 7], [4, 0, 50, 12, 4, 0, 8], [], [], [7, 0, 50, 12, 4, 1, 6], [3, 0, 50, 12, 4, 0, 7], [],
     [8, 0, 50, 13, 3, 1, 0, 0, 0, 6, 9], [9, 0, 50, 14, 0, 1, 3, 2], [9, 0, 50, 14, 0, 1, 3, 2], []]"

lemma part_init_fields:
  assumes "nimbleClientInit partLib (client sample_realize) mem ba tr so mp ver dbg w = Some (e, c, w')"
  shows "orderedDatagramIn c = [0]" "joinStateChannel c = 0" "blobStreamInLogic c = []"
    "blobStreamIn c = \<lparr>blob = [], octetCount = 0, blobStreamInRest = []\<rparr>"
    "fst (outside w') = fst (outside w)"
  using assms
  by (auto simp: nimbleClientInit_def initBeforeReInit_def nimbleClientReInit_def nimbleClientReset_def
      resetSteps_def resetStats_def steps_init_def pending_steps_init_def time_now_def dropJoinedGameState_def
      destroy_result partLib_def sample_fields sample_realize_def sample_client_def Let_def
      split: prod.splits if_splits)

theorem whole_session_witness:
  "\<exists>r w r' w'. nimbleClientRealizeInit partLib sample_realize sample_settings (sample_world sample_whole_session) = Some (r, w)
     \<and> realize_run partLib (replicate 10 16)
         (nimbleClientRealizeJoinGame r \<lparr>nonce = 0, joinGameRequestRest = []\<rparr>) w = Some (r', w')
     \<and> realizeState r' = NimbleClientRealizeStateSynced \<and> remoteConnectionId (client r') = 5
     \<and> stepId (joinedGameState (client r')) = 9
     \<and> heap w' (gameState (joinedGameState (client r'))) = Some [7, 8, 6]
     \<and> expectedWriteId (authoritativeStepsFromServer (client r')) = 10
     \<and> localParticipantCount (client r') = 2
     \<and> take 2 (localParticipantLookup (client r')) = [\<lparr>isUsed = True, localUserDeviceIndex = 0, participantId = 1\<rparr>,
         \<lparr>isUsed = True, localUserDeviceIndex = 3, participantId = 2\<rparr>]"
proof -
  let ?inbox = "\<lambda>(ds :: octets list, t :: int, p :: nat). sample_inbox ds"
  let ?ts = "replicate 10 16 :: int list"
  let ?q = "\<lparr>nonce = 0, joinGameRequestRest = []\<rparr> :: octets NimbleSerializeJoinGameRequest"
  obtain r w where i: "nimbleClientRealizeInit partLib sample_realize sample_settings (sample_world sample_whole_session)
      = Some (r, w)"
    using realize_init_defined by blast
  then obtain e where c: "nimbleClientInit partLib (client sample_realize) (settingsMemory sample_settings)
      (settingsBlobMemory sample_settings) (settingsTransport sample_settings)
      (settingsMaximumSingleParticipantStepOctetCount sample_settings)
      (settingsMaximumNumberOfParticipants sample_settings) (settingsApplicationVersion sample_settings)
      (settingsWantsDebugStreams sample_settings) (sample_world sample_whole_session) = Some (e, client r, w)"
    by (auto simp: nimbleClientRealizeInit_def Let_def)
  note r = part_init_fields(1-4) [OF c]
  have w: "fst (outside w) = sample_whole_session" using part_init_fields(5) [OF c] by (simp add: sample_world_def)
  note read = arrives_as_def late_def in_stream_def partLib_def sample_fields sample_ordered_receive_def
    sample_read16_def sample_read8_def
  let ?s = "\<lambda>n k xs. \<lparr>inPos = k, inSize = n, readDebugInfo = True, inRest = xs\<rparr>"
  have d1: "arrives_as partLib (orderedDatagramIn (client r)) [1, 0, 50, 11, 5] [1]
      (NimbleSerializeCmdConnectResponse partLib) (?s 5 4 [5])"
    "connect_answer partLib (?s 5 4 [5]) 5"
    "among partLib (orderedDatagramIn (client r)) [1, 0, 50, 11, 5] [1] [[1, 0, 50, 11, 5], [1, 0, 50, 11, 5]]
       (length [[1, 0, 50, 11, 5 :: u8]])"
    by (simp add: r read, simp add: read connect_answer_def, rule among.here, simp add: read)
  have d2: "arrives_as partLib [1] [2, 0, 50, 15, 1, 9, 4] [2] (NimbleSerializeCmdGameStateResponse partLib)
      (?s 7 4 [1, 9, 4])" "state_answer partLib (?s 7 4 [1, 9, 4]) 9 4" "4 \<noteq> joinStateChannel (client r)"
    "among partLib [1] [2, 0, 50, 15, 1, 9, 4] [2] [[2, 0, 50, 15, 1, 9, 4]] (length ([] :: octets list))"
    by (simp_all add: r read state_answer_def) (rule among.here [where ds = "[]", simplified])
  let ?b = "\<lambda>n bs i. \<lparr>blob = bs, octetCount = n, blobStreamInRest = i\<rparr> :: octets BlobStreamIn"
  let ?ps = "[[[3, 0, 50, 12, 4, 0, 7], [4, 0, 50, 12, 4, 0, 8]], []] :: octets list list"
  let ?pl = "[[7, 0, 50, 12, 4, 1, 6], [3, 0, 50, 12, 4, 0, 7]] :: octets list"
  note take = take_part_def read size_of_int_def Let_def
  have first: "parts partLib (take 1) 4 ([2], take 1 (blobStreamInLogic (client r)), blobStreamIn (client r))
      (concat ?ps) 0 ([4], [2], ?b 2 [7, 8] [0])"
    unfolding r concat.simps append.simps
    by (rule parts.part [where q = "([3], [1], ?b 1 [7] [0])"], simp add: read, simp add: take,
        rule parts.part [where q = "([4], [2], ?b 2 [7, 8] [0])", OF _ _ parts.none], simp add: read, simp add: take)
  have last: "parts partLib (take 1) 4 ([4], [2], ?b 2 [7, 8] [0]) ?pl (Suc 0) ([7], [3], ?b 3 [7, 8, 6] [1])"
    by (rule parts.part [where q = "([7], [3], ?b 3 [7, 8, 6] [1])"], simp add: read, simp add: take,
        rule parts.late [OF _ parts.none], simp add: read)
  have blob: "\<not> blobStreamInIsComplete partLib (snd (snd ([4], [2], ?b 2 [7, 8] [0])))"
    "blobStreamInIsComplete partLib (?b 3 [7, 8, 6] [1])"
    by (simp_all add: partLib_def sample_fields)
  let ?ms = "[StepsMessage (?s 11 4 [3, 1, 0, 0, 0, 6, 9]), JoinMessage (?s 8 4 [0, 1, 3, 2])]"
  let ?al = "[[8, 0, 50, 13, 3, 1, 0, 0, 0, 6, 9], [9, 0, 50, 14, 0, 1, 3, 2], [9, 0, 50, 14, 0, 1, 3, 2]] :: octets list"
  have "readable_steps partLib s" for s by (simp add: readable_steps_def partLib_def sample_fields)
  then have "messages partLib [7] ?al ?ms (Suc 0) [9]"
    by (intro messages.more [where y = "[8]"] messages.more [where y = "[9]"] messages.late [OF _ messages.none])
       (simp_all add: read sample_join_response_def Let_def)
  from played.batch [OF this _ played.over, of 1]
  have play: "played partLib [7] 1 [?al] ?ms (Suc 0)" by simp
  have arr: "map (arrivals ?inbox w) [0..<7] = [[]] @ [[[1, 0, 50, 11, 5], [1, 0, 50, 11, 5]]]
      @ [] @ [[[2, 0, 50, 15, 1, 9, 4]]] @ ?ps @ [?pl] @ [?al]"
    using w by (cases "outside w") (simp add: sample_whole_session_def upt_rec eval_nat_numeral)
  have small: "\<forall>i. length (arrivals ?inbox w i) < 2147483648"
  proof
    fix i
    have "length (arrivals ?inbox w i) \<le> length sample_whole_session"
      using w sample_inbox_small [of sample_whole_session i] by (cases "outside w") simp
    then show "length (arrivals ?inbox w i) < 2147483648" by (simp add: sample_whole_session_def)
  qed
  have "length ?ts = 7 + (length (concat [[]]) + length [[1, 0, 50, 11, 5 :: u8]] + length (concat [])
      + length ([] :: octets list) + 0 + Suc 0 + Suc 0)" by simp
  from whole_session [OF i sample_realize_lookup part_lib_ok(1,2) part_replies part_lib_ok(3) small arr _ _
      d1 _ d2 first blob(1) last blob(2) play this, of ?q]
  obtain r' w' a p where run: "realize_run partLib ?ts (nimbleClientRealizeJoinGame r ?q) w = Some (r', w')"
    and s: "realizeState r' = NimbleClientRealizeStateSynced" "remoteConnectionId (client r') = 5"
      "stepId (joinedGameState (client r')) = 9"
      "heap w' (gameState (joinedGameState (client r'))) = Some [7, 8, 6]"
    and steps: "step_buffers (client r') = fold (deliver partLib) (steps_of ?ms)
          (nbsStepsReInit partLib a 9, nbsPendingStepsReset partLib p 9)"
    and party: "(joinParticipantPhase (client r'), localParticipantLookup (client r'), localParticipantCount (client r'))
        = joined_by partLib (joins_of ?ms) (NimbleJoiningStateJoiningParticipant,
            localParticipantLookup (client r), localParticipantCount (client r))" by fastforce
  have "expectedWriteId (fst (fold (deliver partLib) (steps_of ?ms)
      (nbsStepsReInit partLib a 9, nbsPendingStepsReset partLib p 9))) = 10" for a p
    by (simp add: deliver_def behind_head_def partLib_def sample_fields split: prod.splits)
  then have "expectedWriteId (authoritativeStepsFromServer (client r')) = 10"
    using arg_cong [OF steps, of fst] by simp
  moreover have "joined_by partLib (joins_of ?ms) (NimbleJoiningStateJoiningParticipant, es, n)
      = (NimbleJoiningStateJoinedParticipant, [\<lparr>isUsed = True, localUserDeviceIndex = 0, participantId = 1\<rparr>,
         \<lparr>isUsed = True, localUserDeviceIndex = 3, participantId = 2\<rparr>] @ drop 2 es, 2)" for es n
    by (simp add: partLib_def sample_fields sample_join_response_def entry_of_def Let_def)
  with party have "localParticipantCount (client r') = 2"
    "take 2 (localParticipantLookup (client r')) = [\<lparr>isUsed = True, localUserDeviceIndex = 0, participantId = 1\<rparr>,
         \<lparr>isUsed = True, localUserDeviceIndex = 3, participantId = 2\<rparr>]" by simp_all
  ultimately show ?thesis using i run s
    by (intro exI [of _ r] exI [of _ w] exI [of _ r'] exI [of _ w']) simp
qed

end
