(* ===== verification/DatagramAccounting.thy ===== *)
theory DatagramAccounting
  imports OutgoingProperties
begin

text \<open>
  The statistics of what is sent: every datagram that is handed to the transport is counted, once,
  over any number of updates and whatever arrives meanwhile.
\<close>

section \<open>Statistics per second\<close>

text \<open>What becomes of a statistic to which one is added \<open>n\<close> times, with any number of updates in between.\<close>

inductive tallied :: "('x, 'w) nimble_lib \<Rightarrow> nat \<Rightarrow> 'x \<Rightarrow> 'x \<Rightarrow> bool" for L :: "('x, 'w) nimble_lib" where
  start: "tallied L 0 s s"
| add: "tallied L n s t \<Longrightarrow> tallied L (Suc n) s (statsIntPerSecondAdd L t 1)"
| tick: "tallied L n s t \<Longrightarrow> tallied L n s (statsIntPerSecondUpdate L t now)"

declare tallied.intros [intro]

lemma tallied_trans: "tallied L n t u \<Longrightarrow> tallied L m s t \<Longrightarrow> tallied L (m + n) s u"
  by (induction rule: tallied.induct) auto

section \<open>Across updates\<close>

text \<open>
  What a datagram carries: the header and a message that a client could write, or the header alone.
\<close>

definition carries :: "('x, 'w) nimble_lib \<Rightarrow> message option \<Rightarrow> octets \<Rightarrow> bool" where
  "carries L k d \<longleftrightarrow>
     (\<exists>c x now. case k of
        None \<Rightarrow> d = take (unat (outPos (header_stream L x now))) (outOctets (header_stream L x now))
      | Some m \<Rightarrow> snd (write_message L c m (header_stream L x now)) \<and> d = message_octets L c x now m)"

text \<open>\<open>ds\<close> were sent, with \<open>ks\<close>.\<close>

definition tallied_by ::
    "('x, 'w) nimble_lib \<Rightarrow> message option list \<Rightarrow> octets list
     \<Rightarrow> 'x NimbleClient \<times> 'w world \<Rightarrow> 'x NimbleClient \<times> 'w world \<Rightarrow> bool" where
  "tallied_by L ks ds = (\<lambda>(c, w) (c', w'). datagrams w' = datagrams w @ ds \<and> list_all2 (carries L) ks ds
     \<and> tallied L (length ds) (packetsPerSecondOut c) (packetsPerSecondOut c')
     \<and> tallied L (count_list ks (Some Steps))
         (sentStepsDatagramCountPerSecond c) (sentStepsDatagramCountPerSecond c'))"

definition counts_sent ::
    "('x, 'w) nimble_lib \<Rightarrow> 'x NimbleClient \<times> 'w world \<Rightarrow> 'x NimbleClient \<times> 'w world \<Rightarrow> bool" where
  "counts_sent L s t \<longleftrightarrow> (\<exists>ks ds. tallied_by L ks ds s t)"

lemma counts_trans:
  assumes "counts_sent L s t" "counts_sent L t u"
  shows "counts_sent L s u"
proof -
  obtain ks ds ls es where "tallied_by L ks ds s t" "tallied_by L ls es t u" using assms by (auto simp: counts_sent_def)
  then have "tallied_by L (ks @ ls) (ds @ es) s u"
    by (auto simp: tallied_by_def intro: tallied_trans list_all2_appendI)
  then show ?thesis by (auto simp: counts_sent_def)
qed

lemma counts_same:
  assumes "packetsPerSecondOut c' = packetsPerSecondOut c" "datagrams w' = datagrams w"
    and "sentStepsDatagramCountPerSecond c' = sentStepsDatagramCountPerSecond c"
  shows "counts_sent L (c, w) (c', w')"
  unfolding counts_sent_def by (intro exI [of _ "[]"]) (use assms in \<open>auto simp: tallied_by_def\<close>)

lemma header_stats:
  assumes "nimbleClientWriteHeader L c s w = (e, c', s', w')"
  shows "packetsPerSecondOut c' = packetsPerSecondOut c"
    "sentStepsDatagramCountPerSecond c' = sentStepsDatagramCountPerSecond c"
  using header_effect(1) [OF assms] by simp_all

lemma message_stats:
  assumes "sendMessageUsingStream L c s = (r, c', s')"
  shows "packetsPerSecondOut c' = packetsPerSecondOut c"
    "sentStepsDatagramCountPerSecond c' = sentStepsDatagramCountPerSecond c"
  by (insert assms; elim message_effect; simp)+

lemma steps_stats:
  assumes "sendStepsToStream L c s = (r, c', s')"
  shows "packetsPerSecondOut c' = packetsPerSecondOut c"
    "sentStepsDatagramCountPerSecond c' = sentStepsDatagramCountPerSecond c"
  by (insert assms; elim steps_stream_effect; simp)+

text \<open>What the two senders put behind the header.\<close>

lemma header_written:
  "nimbleClientWriteHeader L c (fresh_out L) w = (e, c', s', w') \<Longrightarrow> \<exists>x now. s' = header_stream L x now"
  using header_effect(5) [of L c "fresh_out L" w e c' s' w'] by (auto simp: header_stream_def)

lemma message_carried:
  assumes "sendMessageUsingStream L c (header_stream L x now) = (k, c', s')" "0 \<le> k"
  shows "\<exists>m. m \<noteq> Some Steps \<and> carries L m (take (unat (outPos s')) (outOctets s'))"
proof (cases "\<exists>ms m. messages_due (state c) (joinParticipantPhase c) = ms @ [m] \<and> m \<noteq> Steps")
  case True
  then obtain ms m where due: "messages_due (state c) (joinParticipantPhase c) = ms @ [m]" "m \<noteq> Steps" by blast
  from message_written [OF assms(1) due] assms(2) due(2) show ?thesis
    by (intro exI [of _ "Some m"]) (auto simp: carries_def message_octets_def Let_def)
next
  case False
  then have "state c \<notin> {NimbleClientStateRequestingConnect, NimbleClientStateJoiningRequestingState,
      NimbleClientStateJoiningDownloadingState}"
    and "state c = NimbleClientStateSynced \<Longrightarrow> joinParticipantPhase c \<noteq> NimbleJoiningStateJoiningParticipant"
    by auto
  then have "s' = header_stream L x now"
    using assms(1)
    by (cases "state c"; cases "joinParticipantPhase c")
       (simp_all add: sendMessageUsingStream_def updateSyncedSubState_def)
  then show ?thesis by (intro exI [of _ None]) (auto simp: carries_def)
qed

lemma steps_carried:
  assumes "sendStepsToStream L c (header_stream L x now) = (k, c', s')" "0 < k"
  shows "carries L (Some Steps) (take (unat (outPos s')) (outOctets s'))"
proof -
  let ?s = "header_stream L x now"
  let ?s1 = "nimbleSerializeWriteCommand L ?s (NimbleSerializeCmdGameStep L)"
  obtain m i where rm: "nbsPendingStepsReceiveMask L (authoritativePendingStepsFromServer c) = (m, i)"
    by fastforce
  obtain e s2 where h: "nbsPendingStepsSerializeOutHeader L ?s1 i m = (e, s2)" by fastforce
  obtain n s3 where o: "nbsStepsOutSerialize L s2 (outSteps c) = (n, s3)" by fastforce
  have "0 \<le> e \<and> 0 < n" using assms
    by (cases "e < 0"; cases "n < 0") (auto simp: sendStepsToStream_def rm h o Let_def)
  then have "snd (write_message L c Steps ?s)" by (simp add: rm h o)
  with steps_written(1) [OF assms(1) this] show ?thesis
    unfolding carries_def message_octets_def Let_def option.case by blast
qed

interpretation counts_sends: outgoing_contract L "counts_sent L"
  for L :: "('x, 'w) nimble_lib"
proof (unfold_locales, goal_cases)
  case (1 s)
  show ?case by (cases s) (simp add: counts_same)
next
  case (2 s t u)
  then show ?case by (rule counts_trans)
next
  case (3 c tr w r c' w')
  then show ?case
  proof (cases rule: send_message_effect)
    case (sending e c1 s1 w1 k c2 s2)
    from header_written [OF sending(1)] obtain x now where s1: "s1 = header_stream L x now" by blast
    from message_carried [OF sending(2) [unfolded s1] sending(3)]
    obtain m where m: "m \<noteq> Some Steps" "carries L m (take (unat (outPos s2)) (outOctets s2))" by blast
    from m(1) have none: "count_list [m] (Some Steps) = 0" by simp
    have "tallied_by L [m] [take (unat (outPos s2)) (outOctets s2)] (c, w) (c', w')"
      using datagrams_send [OF sending(6)] datagrams_header [OF sending(1)] header_stats [OF sending(1)]
        message_stats [OF sending(2)] sending(5) m(2)
      unfolding tallied_by_def none
      by (simp add: nimbleClientCommitHeader_def tallied.start tallied.add)
    then show ?thesis by (auto simp: counts_sent_def)
  qed (auto intro!: counts_same simp: datagrams_header header_stats message_stats nimbleClientCommitHeader_def)
next
  case (4 c tr w r c' w')
  then show ?case
  proof (cases rule: send_steps_effect)
    case (sending e c1 s1 w1 k c2 s2)
    from header_written [OF sending(1)] obtain x now where s1: "s1 = header_stream L x now" by blast
    note steps_carried [OF sending(2) [unfolded s1] sending(3)]
    then have "tallied_by L [Some Steps] [take (unat (outPos s2)) (outOctets s2)] (c, w) (c', w')"
      using datagrams_send [OF sending(5)] datagrams_header [OF sending(1)] header_stats [OF sending(1)]
        steps_stats [OF sending(2)] sending(4)
      by (auto simp: tallied_by_def nimbleClientCommitHeader_def)
    then show ?thesis by (auto simp: counts_sent_def)
  qed (auto intro!: counts_same simp: datagrams_header header_stats steps_stats nimbleClientCommitHeader_def)
qed (simp add: counts_same)

interpretation counts_receives: receive_contract L "counts_sent L"
  for L :: "('x, 'w) nimble_lib"
proof (rule config.coarser)
  show "counts_sent L s t" if "config_kept s t" for s t :: "'x NimbleClient \<times> 'w world"
    using that by (cases s; cases t) (auto simp: config_kept_def datagrams_eq_sent intro: counts_same)
qed (rule counts_trans)

interpretation counts_updates: update_contract L "counts_sent L"
  for L :: "('x, 'w) nimble_lib"
proof (unfold_locales, goal_cases)
  case (5 c w now)
  show ?case
    unfolding counts_sent_def
    by (intro exI [of _ "[]"]) (auto simp: tallied_by_def showStats_def calcStats_def)
qed (auto intro!: counts_same simp: checkTickInterval_def checkIfDisconnectIsNeeded_def Let_def)

text \<open>
  C27. The statistics count what is sent: over any number of updates, whatever arrives meanwhile, the
  packets per second get one added for every datagram that is handed to the transport, whether
  sending works or fails, and for nothing else, and the datagrams with steps per second get one
  added for every one of these that carries the header and steps, and for no other;
  but for that the statistics are only brought up to date.
\<close>

theorem sent_datagrams_are_counted:
  assumes "client_run L ts c w = Some (c', w')"
  shows "\<exists>ks ds. datagrams w' = datagrams w @ ds \<and> list_all2 (carries L) ks ds
    \<and> tallied L (length ds) (packetsPerSecondOut c) (packetsPerSecondOut c')
    \<and> tallied L (count_list ks (Some Steps))
        (sentStepsDatagramCountPerSecond c) (sentStepsDatagramCountPerSecond c')"
  using counts_updates.run [OF assms] by (auto simp: counts_sent_def tallied_by_def)

text \<open>The witness, on a library whose statistics are lists that grow with every addition.\<close>

definition tallyLib :: "(octets, sample_world) nimble_lib" where
  "tallyLib = sampleLib\<lparr>statsIntPerSecondAdd := (\<lambda>s v. 1 # s)\<rparr>"

lemma tally_lib_ok: "answers_ok tallyLib" "drains tallyLib (\<lambda>(ds, t, p). length ds)"
  using sample_answers_ok sample_drains by (simp_all add: answers_ok_def drains_def tallyLib_def)

lemma tally_length: "tallied tallyLib n s t \<Longrightarrow> length t = length s + n"
  by (induction rule: tallied.induct) (simp_all add: tallyLib_def sample_fields)

theorem sent_datagrams_are_counted_witness:
  "\<exists>c' w'. client_run tallyLib [16, 32, 48]
      (sample_client NimbleClientStateSynced NimbleJoiningStateJoiningParticipant 0 0)
      (sample_world [[1, 0, 50, 14, 7, 3]]) = Some (c', w')
    \<and> length (packetsPerSecondOut c') = length (datagrams w')"
proof -
  let ?c = "sample_client NimbleClientStateSynced NimbleJoiningStateJoiningParticipant 0 0"
  let ?w = "sample_world [[1, 0, 50, 14, 7, 3]]"
  have "client_ok ?c (heap ?w)" by (simp add: sample_client_ok game_state_ok_def)
  then obtain c' w' where run: "client_run tallyLib [16, 32, 48] ?c ?w = Some (c', w')"
    using run_defined [OF tally_lib_ok] by blast
  have "packetsPerSecondOut ?c = []" "datagrams ?w = []"
    by (simp_all add: sample_client_def datagrams_def sample_world_def)
  with sent_datagrams_are_counted [OF run] tally_length have "length (packetsPerSecondOut c') = length (datagrams w')"
    by fastforce
  with run show ?thesis by blast
qed

end
