(* ===== verification/Participants.thy ===== *)
theory Participants
  imports UpdateProperties
begin

text \<open>
  The participants of a client that has joined, over any number of updates against any server: the
  contract of an update for the relation that keeps them.
\<close>

section \<open>The relation\<close>

definition settled ::
    "'x NimbleClient \<times> 'w world \<Rightarrow> 'x NimbleClient \<times> 'w world \<Rightarrow> bool" where
  "settled s t \<longleftrightarrow> (joinParticipantPhase (fst s) \<noteq> NimbleJoiningStateJoiningParticipant \<longrightarrow>
     joinParticipantPhase (fst t) \<in> {joinParticipantPhase (fst s), NimbleJoiningStateOutOfParticipantSlots}
     \<and> localParticipantLookup (fst t) = localParticipantLookup (fst s)
     \<and> localParticipantCount (fst t) = localParticipantCount (fst s))"

interpretation settled_sends: send_blind L settled
  for L :: "('x, 'w) nimble_lib"
  by unfold_locales (auto simp: settled_def sending_kept_def)

interpretation settled_receives: receive_contract L settled
  for L :: "('x, 'w) nimble_lib"
proof (unfold_locales, goal_cases)
  case 3
  then show ?case by (elim pong_effect) (simp_all add: settled_def)
next
  case 8
  then show ?case by (elim state_part_effect) (simp_all add: settled_def)
next
  case 9
  then show ?case by (elim step_response_effect) (simp_all add: settled_def)
qed (auto simp: settled_def noteDroppedDatagrams_def Let_def elim!: handler_effects)

interpretation settled_updates: update_contract L settled
  for L :: "('x, 'w) nimble_lib"
  by unfold_locales (simp_all add: settled_def checkIfDisconnectIsNeeded_def)

section \<open>Participants stay\<close>

text \<open>
  C13. Who has joined stays joined: once a client is not joining any more, whatever the server sends
  over any number of updates, join answers included, it finds the same participant id for every
  local device as before, and it never goes back to joining; all that can still happen to the
  phase is that the server reports that it has no slots left.
\<close>

theorem participants_settle:
  assumes "client_ok c (heap w)" "answers_ok L" "drains L m"
    and "joinParticipantPhase c \<noteq> NimbleJoiningStateJoiningParticipant"
  shows "\<exists>c' w'. client_run L ts c w = Some (c', w')
    \<and> (\<forall>i. nimbleClientFindParticipantId c' i = nimbleClientFindParticipantId c i)
    \<and> joinParticipantPhase c' \<in> {joinParticipantPhase c, NimbleJoiningStateOutOfParticipantSlots}"
proof -
  obtain c' w' where run: "client_run L ts c w = Some (c', w')" "client_ok c' (heap w')"
    using run_defined [OF assms(2,3,1)] by blast
  from settled_updates.run [OF run(1)] assms(4) run show ?thesis
    by (auto simp: settled_def nimbleClientFindParticipantId_def)
qed

theorem participants_settle_witness:
  "\<exists>c w. client_run sampleLib [16, 32]
       ((sample_client NimbleClientStateSynced NimbleJoiningStateJoinedParticipant 0 0)
          \<lparr>localParticipantCount := 1,
            localParticipantLookup := replicate 8 \<lparr>isUsed = True, localUserDeviceIndex = 2, participantId = 6\<rparr>\<rparr>)
       (sample_world [[1, 0, 50, 14, 2, 9], [2, 0, 50, 16, 1], []]) = Some (c, w)
     \<and> nimbleClientFindParticipantId c 2 = Some (1, 6)"
proof -
  let ?c = "(sample_client NimbleClientStateSynced NimbleJoiningStateJoinedParticipant 0 0)
          \<lparr>localParticipantCount := 1,
            localParticipantLookup := replicate 8 \<lparr>isUsed = True, localUserDeviceIndex = 2, participantId = 6\<rparr>\<rparr>"
  have "client_ok ?c (heap (sample_world ds))" for ds
    by (simp add: client_ok_def sample_client_def game_state_ok_def NIMBLE_CLIENT_MAX_LOCAL_USERS_COUNT_def)
  moreover have "joinParticipantPhase ?c \<noteq> NimbleJoiningStateJoiningParticipant" by (simp add: sample_client_def)
  moreover have "nimbleClientFindParticipantId ?c 2 = Some (1, 6)"
    by (simp add: nimbleClientFindParticipantId_def findParticipantFrom.simps)
  ultimately show ?thesis
    using participants_settle [OF _ sample_answers_ok sample_drains, of ?c _ "[16, 32]"] by metis
qed

end
