(* ===== verification/StatsReport.thy ===== *)
theory StatsReport
  imports UpdateProperties
begin

text \<open>
  What \<open>showStats\<close> of \<open>client.c\<close> reports, beside the counter that \<open>ClientUpdate\<close> has: the calls of
  the statistics library that log, with their texts, once in 3000 calls.
\<close>

datatype 'x report =
    statsIntDebug "'x StatsInt" string string
  | statsIntPerSecondDebugOutput 'x string string

definition showStatsReport :: "'x NimbleClient \<Rightarrow> 'x report list" where
  "showStatsReport self =
     (let statsCounter = statsCounter self + 1;
          shouldPrint = (statsCounter mod 3000 = 0)
      in if \<not> shouldPrint then []
         else [statsIntDebug (waitingStepsFromServer self) ''waiting steps from server'' ''steps'',
               statsIntDebug (stepCountInIncomingBufferOnServerStat self) ''incoming buffer count on server'' ''steps'',
               statsIntDebug (authoritativeBufferDeltaStat self)
                 ''delta from last authoritative step on server'' ''steps'',
               statsIntDebug (outgoingStepsInQueue self) ''outgoing steps to send to server'' ''steps'',
               statsIntPerSecondDebugOutput (packetsPerSecondOut self) ''PPS Out'' ''packets/s'',
               statsIntPerSecondDebugOutput (packetsPerSecondIn self) ''PPS In'' ''packets/s'',
               statsIntPerSecondDebugOutput (simulationStepsPerSecond self) ''SIM In'' ''steps/s'',
               statsIntPerSecondDebugOutput (sentStepsDatagramCountPerSecond self) ''SSD out'' ''steps/s''])"

section \<open>How often it reports\<close>

text \<open>The counter before the call number \<open>n\<close>, as long as it has not wrapped around.\<close>

lemma report_counter: "statsCounter ((showStats ^^ n) c) = statsCounter c + of_nat n"
  by (induction n) (simp_all add: showStats_def)

lemma reports_iff:
  assumes "unat (statsCounter c) + n < 18446744073709551615"
  shows "showStatsReport ((showStats ^^ n) c) \<noteq> [] \<longleftrightarrow> 3000 dvd Suc (unat (statsCounter c) + n)"
proof -
  let ?k = "Suc (unat (statsCounter c) + n)"
  have k: "statsCounter ((showStats ^^ n) c) + 1 = of_nat ?k" by (simp add: report_counter)
  have "unat (of_nat m :: size_t) = m" if "m < 18446744073709551616" for m
    using that by (simp add: unat_of_nat)
  from this [of ?k] assms have "unat (of_nat ?k :: size_t) = ?k" by linarith
  then have "unat ((of_nat ?k :: size_t) mod 3000) = ?k mod 3000" by (simp only: unat_mod) simp
  then show ?thesis by (simp add: showStatsReport_def k Let_def unat_eq_zero [symmetric] dvd_eq_mod_eq_0)
qed

text \<open>In any 3000 calls in a row it reports exactly once.\<close>

lemma one_report_in_3000:
  assumes "unat (statsCounter c) + 3000 < 18446744073709551615"
  shows "\<exists>!n. n < 3000 \<and> showStatsReport ((showStats ^^ n) c) \<noteq> []"
proof -
  let ?s = "unat (statsCounter c)"
  have reports: "showStatsReport ((showStats ^^ n) c) \<noteq> [] \<longleftrightarrow> 3000 dvd Suc (?s + n)" if "n < 3000" for n
    using reports_iff [of c n] assms that by simp
  define d m where "d = ?s div 3000" and "m = ?s mod 3000"
  have s: "?s = 3000 * d + m" "m < 3000" by (simp_all add: d_def m_def)
  have "\<exists>!n. n < 3000 \<and> 3000 dvd Suc (?s + n)"
  proof (intro ex1I conjI)
    show "2999 - m < 3000" by simp
    have "Suc (?s + (2999 - m)) = 3000 * (d + 1)" using s(2) unfolding s(1) by simp
    then show "3000 dvd Suc (?s + (2999 - m))" by simp
  next
    fix n
    assume n: "n < 3000 \<and> 3000 dvd Suc (?s + n)"
    then obtain k where k: "Suc (3000 * d + m + n) = 3000 * k" unfolding s(1) by (auto elim: dvdE)
    with n s(2) have "k = d + 1" by linarith
    with k show "n = 2999 - m" by linarith
  qed
  then show ?thesis using reports by blast
qed

text \<open>
  An update reports as it sends: not while a wait is running, and with the connection judged and
  the rates brought up to date before.
\<close>

definition update_report ::
    "('x, 'w) nimble_lib \<Rightarrow> 'x NimbleClient \<Rightarrow> int \<Rightarrow> 'x report list" where
  "update_report L c now =
     (if 0 < waitTime c then [] else showStatsReport (calcStats L (judged L c) now))"

lemma update_report_counts:
  "update_report L c now \<noteq> [] \<longleftrightarrow> \<not> 0 < waitTime c \<and> (statsCounter c + 1) mod 3000 = 0"
  by (simp add: update_report_def showStatsReport_def calcStats_def judged_def checkIfDisconnectIsNeeded_def Let_def)

end
