(* ===== verification/Spec2Isabelle.thy ===== *)
theory Spec2Isabelle
  imports ClientUtils Handshake ServedSession RealizerProtocol ReceiveLoop TickAccounting QualityDescription
    DebugOutput ExampleClient Listener ListenerRefinement ListenerSession BatchRuns DownloadParts WholeSession LateDatagrams
    DatagramAccounting Participants StatsReport
begin

text \<open>
  A model of the nimble client library (\<open>src/lib\<close>, \<open>src/include/nimble-client\<close>), and what makes
  it correct. The client keeps a simulation in step with a server over datagrams: it asks for a
  connection, asks for the game state, downloads it as a blob, is then synced, asks for its
  participants to be joined, sends predicted steps and receives the authoritative ones. Nothing
  blocks: an application calls \<open>nimbleClientRealizeUpdate\<close> once per tick.

  \<^bold>\<open>Parts and how they interact.\<close> The realizer (\<open>network_realizer.c\<close>) owns a client and a target
  state. Its update calls \<open>nimbleClientUpdate\<close> (\<open>client.c\<close>), which receives every waiting
  datagram (\<open>receive_transport.c\<close>), and hands each to \<open>nimbleClientFeed\<close> (\<open>incoming.c\<close>): sequence
  check, gap accounting, pong, then one handler per command. Then it ticks the connection quality
  (\<open>connection_quality.c\<close>), disconnects if that advises it, and, unless a wait runs, sends
  (\<open>outgoing.c\<close>, \<open>send_steps.c\<close>, \<open>prepare_header.c\<close>). The application reads steps
  (\<open>incoming_api.c\<close>) and asks which step to predict (\<open>client_utils.c\<close>).

  \<^bold>\<open>Theories and the code they model.\<close> A definition has the name of the C function it models; a
  record has the fields of the C struct. A loop or a part of a long function that has a
  definition of its own is named after what it does.
  \<^item> \<open>Prelude\<close>: C integers, the \<open>world\<close> (what only libraries see, the heap, the trace of sent
    datagrams and failed assertions). \<open>CFloat\<close>: binary32 as far as the rating uses it.
  \<^item> \<open>NimbleLib\<close>: the libraries as one record \<open>L\<close> of functions, an argument of every definition
    that calls them. \<open>SampleLib\<close>: one concrete \<open>L\<close>, for witnesses only.
  \<^item> \<open>ClientTypes\<close>: enumerations of \<open>client.h\<close>, \<open>network_realizer.h\<close>; name tables of \<open>debug.c\<close>.
  \<^item> \<open>GameState\<close>: \<open>game_state.c\<close>. \<open>NumberFormats\<close>: what \<open>printf\<close> makes of numbers.
    \<open>ConnectionQuality\<close>, \<open>QualityProperties\<close>, \<open>QualityDescription\<close>: \<open>connection_quality.c\<close>.
  \<^item> \<open>Client\<close>, \<open>ClientLifecycle\<close>: the record of \<open>client.h\<close> and the first half of \<open>client.c\<close>
    (reset, initialisation, destruction, participant lookup); the invariant \<open>client_ok\<close>.
  \<^item> \<open>ClientUtils\<close>: \<open>client_utils.c\<close>.
  \<^item> \<open>Incoming\<close>: \<open>incoming.c\<close>, \<open>receive_transport.c\<close> and the seven handler files;
    \<open>IncomingContracts\<close>, \<open>IncomingProperties\<close>, \<open>MessageProperties\<close>: what they keep and do;
    \<open>ReceiveLoop\<close>: when receiving returns.
  \<^item> \<open>Outgoing\<close>: \<open>outgoing.c\<close>, \<open>send_steps.c\<close>, \<open>prepare_header.c\<close>; \<open>OutgoingContracts\<close>,
    \<open>OutgoingProperties\<close>, \<open>DatagramAccounting\<close> (what is sent is counted).
  \<^item> \<open>ClientUpdate\<close>: the second half of \<open>client.c\<close>; \<open>UpdateContracts\<close>, \<open>UpdateProperties\<close>,
    \<open>TickAccounting\<close> (the measured tick durations), \<open>Participants\<close> (who has joined),
    \<open>StatsReport\<close> (the report of \<open>showStats\<close>).
  \<^item> \<open>NetworkRealizer\<close>, \<open>RealizerProperties\<close>: \<open>network_realizer.c\<close>; \<open>RealizerProtocol\<close>: the
    abstract machine that it refines.
  \<^item> \<open>DebugOutput\<close>: the functions of \<open>debug.c\<close> and \<open>game_state.c\<close> that log.
  \<^item> \<open>ScriptedServer\<close>: a server whose datagrams come at known updates, and what one update makes of
    them; \<open>ServedSession\<close>: a synced client that is served; \<open>Handshake\<close>: from joining into such a
    session.
  \<^item> \<open>Listener\<close>: an abstract client that only hears datagrams, with 16 fields and one function for
    each message, datagram, batch and update; \<open>ListenerRefinement\<close> (handlers and datagrams) and
    \<open>ListenerSession\<close> (batches, updates, the realizer): the program refines it;
    \<open>LateDatagrams\<close>: what repeated and overtaken datagrams do; \<open>BatchRuns\<close>: sessions batch by batch,
    counting the updates; \<open>DownloadParts\<close>: a game state in several parts; \<open>WholeSession\<close>: from joining,
    over the parts, to the steps and the join answers, with loss, repetition and reordering.
  \<^item> \<open>ExampleClient\<close>: \<open>examples/main.c\<close>, with the libraries that only it uses as a record \<open>U\<close>.

  \<^bold>\<open>How behaviour is represented.\<close> State is passed explicitly, a pointer argument is an
  argument and a result. Return codes are integers as in C; signed arithmetic wraps around where C
  leaves an overflow undefined. \<open>None\<close> is undefined behaviour (reading
  past an array, freeing what is not allocated, dividing by zero) or not returning at all; every
  property about it says when the result is \<open>Some\<close>. An assertion that fails is recorded in the
  trace and passed, as in a release build. Every datagram handed to the transport is recorded in
  the trace with the transport's answer. An initialisation starts from a record with arbitrary
  contents, and what the code does not write keeps its old value.

  \<^bold>\<open>Recursion.\<close> There is no fuel. The loops over participants end by a measure. The loop that
  receives is a \<open>partial_function\<close>, since a transport may hand out datagrams for ever; that it
  returns is proved for transports for which \<open>drains\<close> gives a measure that each received datagram
  lowers and no other library call raises (the number of datagrams that will ever arrive), and in
  \<open>ReceiveLoop\<close> exactly: it returns if and only if no endless sequence of datagrams is accepted. The
  endless loop of the example is its first \<open>n\<close> turns, for every \<open>n\<close>.

  \<^bold>\<open>What is relied on of the libraries,\<close> each named where it is used and shown to hold of
  \<open>sampleLib\<close>: \<open>join_answers_ok\<close> (a join answer has at most eight participants), \<open>blob_streams_ok\<close>
  (the library works on blob streams that were set up and leaves them so, and the count of a
  complete one does not exceed its octets), \<open>answers_ok\<close> (both, with every stream there can be taken
  as set up), \<open>drains\<close>, \<open>header_ok\<close> (preparing a header does not use
  the number up, a header has at most ten octets), \<open>writes_ok\<close> (writing appends to a stream),
  \<open>deliverable\<close> (a message can be written and is longer than ten octets), \<open>closed_world\<close> and
  \<open>silent_world\<close> (nothing arrives any more), \<open>scripted\<close> (the transport hands out batches of known
  datagrams), \<open>commands_distinct\<close>, and \<open>wired\<close> (the transport calls the functions that the example
  put into it), \<open>replies_harmless\<close> (of the logic of the incoming blob stream, what receiving
  depends on is not changed by replying). What the server sends is described by \<open>arrives_as\<close>, \<open>connect_answer\<close>,
  \<open>state_answer\<close>, \<open>whole_state\<close>, \<open>parts\<close>, \<open>readable_steps\<close>, \<open>late\<close> and \<open>played\<close>: what the library reads from a datagram.

  \<^bold>\<open>The blob stream.\<close> Nothing under \<open>src/\<close> sets up the blob stream of the client or leads its logic
  to it (a comment at the end of \<open>incoming.c\<close> says what is missing), yet parts of the game state are
  handed to them. In C the logic holds a pointer to the stream; in the model the stream of the client goes
  with it. What the memory must hold for this to be right is the hypothesis \<open>holds_stream G\<close>, where
  \<open>G\<close> tells the streams that were set up, together with their logic; that no operation takes such
  a stream away is proved for the realizer under any operations and for the example. Without it
  a part can be copied past the end of its memory (\<open>garbage_stream_undefined\<close>). The other
  properties assume \<open>answers_ok\<close>, the case in which every stream counts as set up.

  \<^bold>\<open>Interfaces.\<close> \<open>watchdog\<close> is the contract of a counter that trips, interpreted by the fields of
  the quality that decide. \<open>incoming_contract\<close> and \<open>receive_contract\<close> lift a relation that every
  handler keeps to the dispatch and the receive loop, \<open>outgoing_contract\<close> does so for everything
  that sends, \<open>update_contract\<close> joins the two over updates and runs of updates. They are
  interpreted by the invariant, the configuration, the transitions that a server may cause, the
  library calls made, the sequence numbers, the statistics of what is sent, the silence of the
  world, the transport, the participants, what is kept of the incoming blob stream, and that it was set up.

  \<^bold>\<open>What the groups of properties show.\<close>
  \<^item> Totality and invariants: the realizer under any sequence of operations, updates, receiving,
    reset (with all that it starts again and all that it leaves), initialisation, destruction; the example, up to a step that
    cannot be printed.
  \<^item> The watchdog: it refines its abstract contract, trips after exactly 76 silent ticks, never
    earlier whatever is reported, never for a served client, and stays tripped; logging is neutral.
  \<^item> With a server: a join reaches the synced state with what the server sent and stays there, with
    every step and the participants of the first answer, although datagrams are lost, repeated and
    overtaken; a silent server is noticed; late datagrams only delay.
  \<^item> Abstraction and termination: the realizer refines a machine of 26 views, and, with what it
    hears, the listener, so that nothing but the arrivals decides how it takes part; a game state in
    parts is installed with the last of them; receiving returns unless it is flooded.
  \<^item> Messages: what each handler does on each of its branches, gaps, refused datagrams, the
    download and the join end to end.
  \<^item> Sending: what is sent in which state, sequence numbers, pacing of requests.
  \<^item> Clock and texts: the tick durations account for the time, the description of the quality
    fits its buffer, the debug lines tell the states, the statistics are reported once in 3000 ticks.
  \<^item> Defects that the model shows: joining after a reset, quitting, the assertion of the header,
    the numbers a joined client skips, the state a repeated download leaks, the steps that the
    example never adds.

  \<^bold>\<open>Not modelled.\<close> What is logged, but for the description of the quality, the debug output, the
  report of the statistics and the step that the example prints (the effect of a notice on the
  quality is kept); prototypes, build files, and the libraries themselves. Allocation does not fail
  and its addresses are the library's choice.
\<close>

section \<open>Properties of the whole\<close>

text \<open>
  C34. Whatever was done with a realizer, destroying it is defined and gives its game state back:
  after an initialisation and any sequence of operations the buffer that the client points to is
  freed, exactly once, no other buffer is touched, and what is left points to nothing, so that
  another destruction does nothing.
\<close>

theorem destroy_releases_game_state:
  assumes "reachable L (r, w)"
  shows "\<exists>r' w'. nimbleClientRealizeDestroy L r w = Some (r', w')
    \<and> gameState (joinedGameState (client r')) = 0
    \<and> heap w' = (if gameState (joinedGameState (client r)) = 0 then heap w
                  else (heap w)(gameState (joinedGameState (client r)) := None))
    \<and> (gameState (joinedGameState (client r)) \<noteq> 0 \<longrightarrow>
         gameState (joinedGameState (client r)) \<in> dom (heap w))
    \<and> nimbleClientRealizeDestroy L r' w' = Some (r', w')"
proof -
  have ok: "game_state_ok (joinedGameState (client r)) (heap w)"
    using reachable_ok [OF assms] by (simp add: realize_ok_def client_ok_def)
  from dropJoinedGameState_defined [OF ok, of L] obtain c w'
    where d: "dropJoinedGameState L (client r) w = Some (c, w')" by fastforce
  from d obtain g where c: "c = (client r)\<lparr>joinedGameState := g\<rparr>" "gameState g = 0"
    and h: "heap w' = (if gameState (joinedGameState (client r)) = 0 then heap w
                  else (heap w)(gameState (joinedGameState (client r)) := None))"
    by (rule dropJoinedGameState_SomeE)
  have "dropJoinedGameState L c w' = Some (c, w')" by (simp add: dropJoinedGameState_def c)
  moreover have "gameState (joinedGameState (client r)) \<noteq> 0 \<longrightarrow>
      gameState (joinedGameState (client r)) \<in> dom (heap w)"
    using ok by (auto simp: game_state_ok_def split: option.splits)
  ultimately show ?thesis
    using d c h by (simp add: nimbleClientRealizeDestroy_def nimbleClientDestroy_def)
qed

theorem destroy_releases_game_state_witness:
  "\<exists>r w r' w'. nimbleClientRealizeInit sampleLib sample_realize sample_settings (sample_world []) = Some (r, w)
    \<and> nimbleClientRealizeDestroy sampleLib r w = Some (r', w')
    \<and> gameState (joinedGameState (client r')) = 0"
proof -
  obtain r w where i: "nimbleClientRealizeInit sampleLib sample_realize sample_settings (sample_world []) = Some (r, w)"
    using realize_init_defined [of sampleLib sample_realize sample_settings "sample_world []"] by blast
  from destroy_releases_game_state [OF reachable.init [OF sample_realize_lookup i]] i show ?thesis by blast
qed

end
